(* ===== verification/Prelude.thy ===== *)
theory Prelude
  imports Main "HOL-Library.Word" "HOL-Library.Char_ord" "HOL-Library.List_Lexorder"
begin

text \<open>
  Shared vocabulary of the development: the outcome of a C++ computation (a value, a thrown
  exception, or no result within the fuel), sequencing of such computations, machine-integer
  ranges, and the list lemmas that several components use.  A branch of the source that is
  undefined behaviour is modelled by the exception value of the component concerned, so that
  every theorem that a call returns also says that no such branch was taken.
\<close>

section \<open>Outcomes\<close>

text \<open>
  A C++ function returns (\<open>Ret\<close>), throws or is undefined (\<open>Throw\<close>), or, for the
  fuel-bounded recursive functions only, has not finished within its fuel (\<open>Diverge\<close>).
\<close>

datatype ('e, 'a) outcome = Ret 'a | Throw 'e | Diverge

fun obind :: "('e, 'a) outcome \<Rightarrow> ('a \<Rightarrow> ('e, 'b) outcome) \<Rightarrow> ('e, 'b) outcome" where
  "obind (Ret x) f = f x"
| "obind (Throw e) f = Throw e"
| "obind Diverge f = Diverge"

definition omap :: "('a \<Rightarrow> 'b) \<Rightarrow> ('e, 'a) outcome \<Rightarrow> ('e, 'b) outcome" where
  "omap f m = obind m (\<lambda>x. Ret (f x))"

definition returns :: "('e, 'a) outcome \<Rightarrow> bool" where
  "returns m = (case m of Ret _ \<Rightarrow> True | _ \<Rightarrow> False)"

definition throws :: "('e, 'a) outcome \<Rightarrow> bool" where
  "throws m = (case m of Throw _ \<Rightarrow> True | _ \<Rightarrow> False)"

named_theorems outcome_iff \<open>case analysis of a sequenced computation\<close>

lemma obind_Ret_iff [outcome_iff]: "obind m f = Ret y \<longleftrightarrow> (\<exists>x. m = Ret x \<and> f x = Ret y)"
  by (cases m) auto

lemma obind_Throw_iff [outcome_iff]:
  "obind m f = Throw e \<longleftrightarrow> m = Throw e \<or> (\<exists>x. m = Ret x \<and> f x = Throw e)"
  by (cases m) auto

lemma obind_Diverge_iff [outcome_iff]:
  "obind m f = Diverge \<longleftrightarrow> m = Diverge \<or> (\<exists>x. m = Ret x \<and> f x = Diverge)"
  by (cases m) auto

lemma obind_cong [fundef_cong]:
  "m = m' \<Longrightarrow> (\<And>x. m' = Ret x \<Longrightarrow> f x = g x) \<Longrightarrow> obind m f = obind m' g"
  by (cases m') auto

lemma obind_assoc: "obind (obind m f) g = obind m (\<lambda>x. obind (f x) g)"
  by (cases m) auto

lemma omap_simps [simp]:
  "omap f (Ret x) = Ret (f x)" "omap f (Throw e) = Throw e" "omap f Diverge = Diverge"
  by (simp_all add: omap_def)

lemma omap_Ret_iff [outcome_iff]: "omap f m = Ret y \<longleftrightarrow> (\<exists>x. m = Ret x \<and> y = f x)"
  by (cases m) auto

lemma omap_Diverge_iff [outcome_iff]: "omap f m = Diverge \<longleftrightarrow> m = Diverge"
  by (cases m) auto

lemma omap_omap: "omap f (omap g m) = omap (\<lambda>x. f (g x)) m"
  by (cases m) simp_all

lemma returns_simps [simp]:
  "returns (Ret x)" "\<not> returns (Throw e)" "\<not> returns Diverge"
  by (simp_all add: returns_def)

lemma throws_simps [simp]:
  "\<not> throws (Ret x)" "throws (Throw e)" "\<not> throws Diverge"
  by (simp_all add: throws_def)

lemma returns_iff: "returns m \<longleftrightarrow> (\<exists>x. m = Ret x)"
  by (cases m) auto

text \<open>The order in which a fuel-bounded computation grows with its fuel.\<close>

definition fuel_le :: "('e, 'a) outcome \<Rightarrow> ('e, 'a) outcome \<Rightarrow> bool" where
  "fuel_le m m' \<longleftrightarrow> m = Diverge \<or> m = m'"

lemma fuel_le_refl [simp]: "fuel_le m m"
  by (simp add: fuel_le_def)

lemma fuel_le_Diverge [simp]: "fuel_le Diverge m"
  by (simp add: fuel_le_def)

lemma fuel_le_obind:
  "fuel_le m m' \<Longrightarrow> (\<And>x. fuel_le (f x) (g x)) \<Longrightarrow> fuel_le (obind m f) (obind m' g)"
  unfolding fuel_le_def by (cases m) (auto, metis)

lemma fuel_le_if:
  "fuel_le m m' \<Longrightarrow> fuel_le k k' \<Longrightarrow> fuel_le (if b then m else k) (if b then m' else k')"
  by simp

lemma fuel_le_prod:
  "(\<And>x y. fuel_le (f x y) (g x y)) \<Longrightarrow> fuel_le (case z of (x, y) \<Rightarrow> f x y) (case z of (x, y) \<Rightarrow> g x y)"
  by (cases z) simp

lemmas fuel_mono = fuel_le_obind fuel_le_if fuel_le_prod fuel_le_refl

text \<open>The standard-library conversions either fail or return; they need no fuel.\<close>

definition of_sum :: "'e + 'a \<Rightarrow> ('e, 'a) outcome" where
  "of_sum r = (case r of Inl e \<Rightarrow> Throw e | Inr x \<Rightarrow> Ret x)"

lemma of_sum_simps [simp]: "of_sum (Inl e) = Throw e" "of_sum (Inr x) = Ret x"
  by (simp_all add: of_sum_def)

lemma of_sum_Ret_iff [outcome_iff]: "of_sum r = Ret x \<longleftrightarrow> r = Inr x"
  by (cases r) auto

lemma of_sum_not_Diverge [simp]: "of_sum r \<noteq> Diverge"
  by (cases r) auto

section \<open>Machine integers\<close>

definition INT_MIN :: int where "INT_MIN = - (2 ^ 31)"
definition INT_MAX :: int where "INT_MAX = 2 ^ 31 - 1"
definition LLONG_MIN :: int where "LLONG_MIN = - (2 ^ 63)"
definition LLONG_MAX :: int where "LLONG_MAX = 2 ^ 63 - 1"

text \<open>The C++ operator \<open>%\<close> truncates towards zero, unlike \<open>mod\<close>.\<close>

definition c_rem :: "int \<Rightarrow> int \<Rightarrow> int" where
  "c_rem a b = sgn a * (\<bar>a\<bar> mod \<bar>b\<bar>)"

lemma c_rem_nonneg: "0 \<le> a \<Longrightarrow> 0 < b \<Longrightarrow> c_rem a b = a mod b"
  by (cases "a = 0") (simp_all add: c_rem_def)

lemma c_rem_small: "\<bar>a\<bar> < b \<Longrightarrow> c_rem a b = a"
  by (simp add: c_rem_def mult_sgn_abs)

text \<open>Rotation of an index in a buffer of \<open>n\<close> slots, the arithmetic of every ring buffer here.\<close>

lemma mod_if_wrap: "i < (n::nat) \<Longrightarrow> Suc i mod n = (if Suc i = n then 0 else Suc i)"
  by (simp add: mod_Suc)

lemma ring_index_inj_le:
  assumes "i \<le> j" "j < n" "(a + i) mod n = (a + j) mod (n::nat)"
  shows "i = j"
proof -
  have "n dvd (a + j) - (a + i)"
    using assms by (metis add_left_mono mod_eq_dvd_iff_nat)
  then have "n dvd j - i" by simp
  with assms show ?thesis
    by (metis diff_is_0_eq dvd_imp_le le_antisym less_imp_diff_less not_less not_gr0)
qed

lemma ring_index_inj:
  "i < n \<Longrightarrow> j < n \<Longrightarrow> (a + i) mod n = (a + j) mod (n::nat) \<Longrightarrow> i = j"
  using ring_index_inj_le by (metis nat_le_linear)

section \<open>Lists\<close>

lemma takeWhile_stop:
  "\<forall>x \<in> set xs. P x \<Longrightarrow> (ys = [] \<or> \<not> P (hd ys)) \<Longrightarrow> takeWhile P (xs @ ys) = xs"
  by (induction xs) (cases ys; auto)+

lemma dropWhile_stop:
  "\<forall>x \<in> set xs. P x \<Longrightarrow> (ys = [] \<or> \<not> P (hd ys)) \<Longrightarrow> dropWhile P (xs @ ys) = ys"
  by (induction xs) (cases ys; auto)+

lemma drop_eq_Cons_conv: "drop n xs = y # ys \<longleftrightarrow> n < length xs \<and> xs ! n = y \<and> drop (Suc n) xs = ys"
  by (metis Cons_nth_drop_Suc drop_all leI list.discI list.inject)

end
