(* ===== verification/Cxx_Lib.thy ===== *)
theory Cxx_Lib
  imports Prelude
begin

text \<open>
  The parts of the C++ standard library that several components call: the exceptions they
  throw, character classification in the C locale, decimal conversion of integers
  (\<open>std::to_string\<close>, \<open>std::stoll\<close>) and the ordered associative container
  \<open>std::map<std::string, V>\<close> as an association list in key order.
\<close>

section \<open>Exceptions\<close>

datatype std_exception =
    runtime_error string
  | invalid_argument string
  | out_of_range string
  | bad_variant_access

fun what :: "std_exception \<Rightarrow> string" where
  "what (runtime_error m) = m"
| "what (invalid_argument m) = m"
| "what (out_of_range m) = m"
| "what bad_variant_access = ''std::get: wrong index for variant''"

section \<open>Characters\<close>

definition newline :: char where "newline = CHR 0x0A"

text \<open>
  The character classes of the C locale.  For a byte from 128 on, which is a negative \<open>char\<close>, the standard leaves
  \<open>isspace\<close> and \<open>isdigit\<close> undefined; here they are false, as in the tables of the GNU library.
\<close>

definition isspace :: "char \<Rightarrow> bool" where
  "isspace c \<longleftrightarrow> c \<in> set [CHR 0x20, CHR 0x09, CHR 0x0A, CHR 0x0B, CHR 0x0C, CHR 0x0D]"

definition isdigit :: "char \<Rightarrow> bool" where
  "isdigit c \<longleftrightarrow> c \<in> set ''0123456789''"

definition digit_char :: "nat \<Rightarrow> char" where
  "digit_char n = ''0123456789'' ! n"

definition digit_val :: "char \<Rightarrow> nat" where
  "digit_val c = length (takeWhile (\<lambda>d. d \<noteq> c) ''0123456789'')"

lemma less_10_cases: "n < (10::nat) \<Longrightarrow> n \<in> {0, 1, 2, 3, 4, 5, 6, 7, 8, 9}"
  by auto

lemma isdigit_digit_char [simp]: "n < 10 \<Longrightarrow> isdigit (digit_char n)"
  by (drule less_10_cases) (auto simp: digit_char_def isdigit_def)

lemma digit_val_digit_char [simp]: "n < 10 \<Longrightarrow> digit_val (digit_char n) = n"
  by (drule less_10_cases) (auto simp: digit_char_def digit_val_def)

lemma isdigit_not_space: "isdigit c \<Longrightarrow> \<not> isspace c"
  by (auto simp: isdigit_def isspace_def)

text \<open>C strings: what stands before the first NUL.\<close>

abbreviation NUL :: char where "NUL \<equiv> CHR 0x00"

definition until_nul :: "string \<Rightarrow> string" where
  "until_nul s = takeWhile (\<lambda>c. c \<noteq> NUL) s"

lemma until_nul_plain [simp]: "NUL \<notin> set s \<Longrightarrow> until_nul s = s"
  by (auto simp: until_nul_def takeWhile_eq_all_conv)

lemma until_nul_NUL [simp]: "until_nul (NUL # s) = []"
  by (simp add: until_nul_def)

lemma until_nul_append: "until_nul (s @ t) = (if NUL \<in> set s then until_nul s else s @ until_nul t)"
  by (induction s) (auto simp: until_nul_def)

lemma until_nul_replicate [simp]: "until_nul (replicate n NUL) = []"
  by (cases n) (simp_all add: until_nul_def)

section \<open>Integers and their decimal texts\<close>

fun nat_to_string :: "nat \<Rightarrow> string" where
  "nat_to_string n =
     (if n < 10 then [digit_char n] else nat_to_string (n div 10) @ [digit_char (n mod 10)])"

declare nat_to_string.simps [simp del]

definition to_string :: "int \<Rightarrow> string" where
  "to_string i = (if i < 0 then CHR ''-'' # nat_to_string (nat (- i)) else nat_to_string (nat i))"

definition digits_val :: "string \<Rightarrow> nat" where
  "digits_val ds = foldl (\<lambda>a c. 10 * a + digit_val c) 0 ds"

definition stoll :: "string \<Rightarrow> (std_exception, int) outcome" where
  "stoll s =
     (let t = dropWhile isspace s;
          neg = (t \<noteq> [] \<and> hd t = CHR ''-'');
          u = (if t \<noteq> [] \<and> hd t \<in> {CHR ''-'', CHR ''+''} then tl t else t);
          ds = takeWhile isdigit u;
          v = (if neg then - int (digits_val ds) else int (digits_val ds))
      in if ds = [] then Throw (invalid_argument ''stoll'')
         else if v < LLONG_MIN \<or> LLONG_MAX < v then Throw (out_of_range ''stoll'')
         else Ret v)"

lemma nat_to_string_digits: "\<forall>c \<in> set (nat_to_string n). isdigit c"
proof (induction n rule: nat_to_string.induct)
  case (1 n)
  then show ?case by (subst nat_to_string.simps) auto
qed

lemma nat_to_string_nonempty [simp]: "nat_to_string n \<noteq> []"
  by (subst nat_to_string.simps) simp

lemma digits_val_snoc [simp]: "digits_val (ds @ [c]) = 10 * digits_val ds + digit_val c"
  by (simp add: digits_val_def)

lemma digits_val_nat_to_string [simp]: "digits_val (nat_to_string n) = n"
proof (induction n rule: nat_to_string.induct)
  case (1 n)
  show ?case
  proof (cases "n < 10")
    case True
    then show ?thesis by (subst nat_to_string.simps) (simp add: digits_val_def)
  next
    case False
    with 1 show ?thesis by (subst nat_to_string.simps) simp
  qed
qed

lemma to_string_nonempty [simp]: "to_string i \<noteq> []"
  by (simp add: to_string_def)

lemma hd_nat_to_string: "isdigit (hd (nat_to_string n))"
  using nat_to_string_digits [of n] by simp

lemma hd_to_string: "hd (to_string i) = CHR ''-'' \<or> isdigit (hd (to_string i))"
  by (simp add: to_string_def hd_nat_to_string)

lemma not_isdigit_sign [simp]: "\<not> isdigit (CHR ''-'')" "\<not> isdigit (CHR ''+'')"
  by (simp_all add: isdigit_def)

lemma not_isspace_sign [simp]: "\<not> isspace (CHR ''-'')" "\<not> isspace (CHR ''+'')"
  by (simp_all add: isspace_def)

lemma takeWhile_all_digits: "\<forall>c \<in> set ds. isdigit c \<Longrightarrow> takeWhile isdigit ds = ds"
  by (simp add: takeWhile_eq_all_conv)

lemma digits_hd: "ds \<noteq> [] \<Longrightarrow> \<forall>c \<in> set ds. isdigit c \<Longrightarrow>
  hd ds \<noteq> CHR ''-'' \<and> hd ds \<noteq> CHR ''+'' \<and> dropWhile isspace ds = ds"
  by (cases ds) (auto simp: isdigit_not_space)

text \<open>Reading back the text of a 64-bit integer gives the integer.\<close>

lemma nat_to_string_scan:
  "hd (nat_to_string n) \<noteq> CHR ''-''" "hd (nat_to_string n) \<noteq> CHR ''+''"
  "dropWhile isspace (nat_to_string n) = nat_to_string n"
  "takeWhile isdigit (nat_to_string n) = nat_to_string n"
  using digits_hd [OF nat_to_string_nonempty nat_to_string_digits, of n]
    takeWhile_all_digits [OF nat_to_string_digits, of n]
  by blast+

lemma stoll_to_string: "LLONG_MIN \<le> i \<Longrightarrow> i \<le> LLONG_MAX \<Longrightarrow> stoll (to_string i) = Ret i"
  by (cases "i < 0") (simp_all add: stoll_def to_string_def Let_def nat_to_string_scan)

lemma stoll_range: "stoll s = Ret i \<Longrightarrow> LLONG_MIN \<le> i \<and> i \<le> LLONG_MAX"
  by (auto simp: stoll_def Let_def split: if_splits)

section \<open>Ordered maps with string keys\<close>

text \<open>
  \<open>m[key] = value\<close> on a \<open>std::map<std::string, V>\<close>: an existing entry is overwritten,
  a new one is placed in key order.  \<open>std::string\<close> compares as unsigned bytes, which is the
  library's lexicographic order on \<open>char list\<close>.
\<close>

fun map_assign :: "string \<Rightarrow> 'v \<Rightarrow> (string \<times> 'v) list \<Rightarrow> (string \<times> 'v) list" where
  "map_assign k v [] = [(k, v)]"
| "map_assign k v ((k', v') # m) =
     (if k < k' then (k, v) # (k', v') # m
      else if k = k' then (k, v) # m
      else (k', v') # map_assign k v m)"

abbreviation key_sorted :: "(string \<times> 'v) list \<Rightarrow> bool" where
  "key_sorted m \<equiv> sorted_wrt (<) (map fst m)"

lemma set_map_assign: "set (map fst (map_assign k v m)) = insert k (set (map fst m))"
  by (induction k v m rule: map_assign.induct) auto

lemma set_map_assign_subset: "set (map_assign k v m) \<subseteq> insert (k, v) (set m)"
  by (induction k v m rule: map_assign.induct) auto

lemma key_sorted_map_assign: "key_sorted m \<Longrightarrow> key_sorted (map_assign k v m)"
proof (induction k v m rule: map_assign.induct)
  case (2 k v k' v' m)
  then show ?case
    using set_map_assign [of k v m] by auto
qed simp

lemma map_of_map_assign: "key_sorted m \<Longrightarrow> map_of (map_assign k v m) = (map_of m)(k \<mapsto> v)"
proof (induction k v m rule: map_assign.induct)
  case (2 k v k' v' m)
  then show ?case by (auto simp: fun_eq_iff)
qed simp

lemma map_assign_last: "\<forall>k' \<in> set (map fst m). k' < k \<Longrightarrow> map_assign k v m = m @ [(k, v)]"
  by (induction k v m rule: map_assign.induct) auto

section \<open>std::stoi\<close>

definition stoi :: "string \<Rightarrow> (std_exception, int) outcome" where
  "stoi s =
     (case stoll s of
        Ret i \<Rightarrow> if INT_MIN \<le> i \<and> i \<le> INT_MAX then Ret i else Throw (out_of_range ''stoi'')
      | Throw (out_of_range m) \<Rightarrow> Throw (out_of_range ''stoi'')
      | Throw e \<Rightarrow> Throw (invalid_argument ''stoi'')
      | Diverge \<Rightarrow> Diverge)"

lemma stoi_to_string: "INT_MIN \<le> i \<Longrightarrow> i \<le> INT_MAX \<Longrightarrow> stoi (to_string i) = Ret i"
  by (simp add: stoi_def stoll_to_string INT_MIN_def INT_MAX_def LLONG_MIN_def LLONG_MAX_def)

end
