(* ===== verification/Json_Value.thy ===== *)
theory Json_Value
  imports Cxx_Lib
begin

text \<open>
  The value type of \<open>middleware/src/nonworking_json.cpp\<close>: \<open>struct JsonValue\<close>, its
  constructors, type queries, accessors and copy operations.  The type parameter \<open>'d\<close> is
  C++ \<open>double\<close>; the only operations the program applies to a double are
  \<open>std::stod\<close> and \<open>std::to_string\<close>, which are the fields of the record
  \<open>double_lib\<close>.
\<close>

section \<open>struct JsonValue\<close>

datatype 'd JsonValue =
    JNull
  | JBool bool
  | JLong int
  | JDouble 'd
  | JString string
  | JArray "'d JsonValue list"
  | JObject "(string \<times> 'd JsonValue) list"

type_synonym 'd JsonArray = "'d JsonValue list"
type_synonym 'd JsonObject = "(string \<times> 'd JsonValue) list"

text \<open>The floating-point conversions of the standard library that the program calls.\<close>

record 'd double_lib =
  stod :: "string \<Rightarrow> std_exception + 'd"
  dbl_to_string :: "'d \<Rightarrow> string"

section \<open>Type queries and accessors\<close>

fun type_name :: "'d JsonValue \<Rightarrow> string" where
  "type_name JNull = ''null''"
| "type_name (JBool _) = ''bool''"
| "type_name (JLong _) = ''long long''"
| "type_name (JDouble _) = ''double''"
| "type_name (JString _) = ''string''"
| "type_name (JArray _) = ''array''"
| "type_name (JObject _) = ''object''"

definition is_null :: "'d JsonValue \<Rightarrow> bool" where
  "is_null v = (case v of JNull \<Rightarrow> True | _ \<Rightarrow> False)"

definition is_bool :: "'d JsonValue \<Rightarrow> bool" where
  "is_bool v = (case v of JBool _ \<Rightarrow> True | _ \<Rightarrow> False)"

definition is_long :: "'d JsonValue \<Rightarrow> bool" where
  "is_long v = (case v of JLong _ \<Rightarrow> True | _ \<Rightarrow> False)"

definition is_double :: "'d JsonValue \<Rightarrow> bool" where
  "is_double v = (case v of JDouble _ \<Rightarrow> True | _ \<Rightarrow> False)"

definition is_string :: "'d JsonValue \<Rightarrow> bool" where
  "is_string v = (case v of JString _ \<Rightarrow> True | _ \<Rightarrow> False)"

definition is_array :: "'d JsonValue \<Rightarrow> bool" where
  "is_array v = (case v of JArray _ \<Rightarrow> True | _ \<Rightarrow> False)"

definition is_object :: "'d JsonValue \<Rightarrow> bool" where
  "is_object v = (case v of JObject _ \<Rightarrow> True | _ \<Rightarrow> False)"

text \<open>\<open>std::get\<close> on another alternative throws \<open>std::bad_variant_access\<close>.\<close>

definition get_bool :: "'d JsonValue \<Rightarrow> (std_exception, bool) outcome" where
  "get_bool v = (case v of JBool b \<Rightarrow> Ret b | _ \<Rightarrow> Throw bad_variant_access)"

definition get_long :: "'d JsonValue \<Rightarrow> (std_exception, int) outcome" where
  "get_long v = (case v of JLong i \<Rightarrow> Ret i | _ \<Rightarrow> Throw bad_variant_access)"

definition get_double :: "'d JsonValue \<Rightarrow> (std_exception, 'd) outcome" where
  "get_double v = (case v of JDouble d \<Rightarrow> Ret d | _ \<Rightarrow> Throw bad_variant_access)"

definition get_string :: "'d JsonValue \<Rightarrow> (std_exception, string) outcome" where
  "get_string v = (case v of JString s \<Rightarrow> Ret s | _ \<Rightarrow> Throw bad_variant_access)"

definition get_array :: "'d JsonValue \<Rightarrow> (std_exception, 'd JsonArray) outcome" where
  "get_array v = (case v of JArray a \<Rightarrow> Ret a | _ \<Rightarrow> Throw bad_variant_access)"

definition get_object :: "'d JsonValue \<Rightarrow> (std_exception, 'd JsonObject) outcome" where
  "get_object v = (case v of JObject m \<Rightarrow> Ret m | _ \<Rightarrow> Throw bad_variant_access)"

section \<open>Copying\<close>

text \<open>
  The copy constructor visits the source: arrays and objects are rebuilt element by element
  into a new container, every other alternative is copied.
\<close>

fun copy_json :: "'d JsonValue \<Rightarrow> 'd JsonValue" where
  "copy_json (JArray xs) = JArray (map copy_json xs)"
| "copy_json (JObject m) = JObject (map (\<lambda>kv. (fst kv, copy_json (snd kv))) m)"
| "copy_json v = v"

section \<open>Well-formed values\<close>

text \<open>
  What the C++ types guarantee of a value: a \<open>long long\<close> is in range, and the entries of a
  \<open>std::map\<close> are in strictly ascending key order.
\<close>

fun json_wf :: "'d JsonValue \<Rightarrow> bool" where
  "json_wf (JLong i) = (LLONG_MIN \<le> i \<and> i \<le> LLONG_MAX)"
| "json_wf (JArray xs) = (\<forall>x \<in> set xs. json_wf x)"
| "json_wf (JObject m) = (key_sorted m \<and> (\<forall>kv \<in> set m. json_wf (snd kv)))"
| "json_wf v = True"

lemma copy_json_id: "copy_json v = v"
proof (induction v)
  case (JArray xs)
  then show ?case by (simp add: map_idI)
next
  case (JObject m)
  then have "\<forall>kv \<in> set m. (fst kv, copy_json (snd kv)) = kv" by fastforce
  then show ?case by (simp add: map_idI)
qed simp_all

text \<open>Each accessor succeeds exactly on the alternative its type query and type name report.\<close>

lemma accessors_agree:
  "returns (get_bool v) \<longleftrightarrow> is_bool v" "returns (get_long v) \<longleftrightarrow> is_long v"
  "returns (get_double v) \<longleftrightarrow> is_double v" "returns (get_string v) \<longleftrightarrow> is_string v"
  "returns (get_array v) \<longleftrightarrow> is_array v" "returns (get_object v) \<longleftrightarrow> is_object v"
  by (cases v; simp add: get_bool_def get_long_def get_double_def get_string_def get_array_def
      get_object_def is_bool_def is_long_def is_double_def is_string_def is_array_def
      is_object_def)+

lemma type_name_queries:
  "type_name v = ''null'' \<longleftrightarrow> is_null v" "type_name v = ''bool'' \<longleftrightarrow> is_bool v"
  "type_name v = ''long long'' \<longleftrightarrow> is_long v" "type_name v = ''double'' \<longleftrightarrow> is_double v"
  "type_name v = ''string'' \<longleftrightarrow> is_string v" "type_name v = ''array'' \<longleftrightarrow> is_array v"
  "type_name v = ''object'' \<longleftrightarrow> is_object v"
  by (cases v; simp add: is_null_def is_bool_def is_long_def is_double_def is_string_def
      is_array_def is_object_def)+

end
