(* ===== verification/Json_Parser.thy ===== *)
theory Json_Parser
  imports Json_Value
begin

text \<open>
  \<open>class JsonParser\<close> of \<open>middleware/src/nonworking_json.cpp\<close>.  The parser object is the
  record \<open>parser\<close>; every member function takes and returns it, and throws the exceptions
  of the source with their messages.  The mutually recursive functions carry fuel, one unit per
  call; \<open>parse\<close> supplies \<open>3 * length + 1\<close>, which is shown to be enough for every
  input.
\<close>

section \<open>The parser object and its elementary operations\<close>

record parser =
  json_str :: string
  pos :: nat

definition JsonParser :: "string \<Rightarrow> parser" where
  "JsonParser s = \<lparr>json_str = s, pos = 0\<rparr>"

type_synonym 'a presult = "(std_exception, 'a \<times> parser) outcome"

abbreviation end_of_input :: std_exception where
  "end_of_input \<equiv> runtime_error ''Unexpected end of input''"

function skip_whitespace :: "parser \<Rightarrow> parser" where
  "skip_whitespace p =
     (if pos p < length (json_str p) \<and> isspace (json_str p ! pos p)
      then skip_whitespace (p\<lparr>pos := pos p + 1\<rparr>) else p)"
  by pat_completeness auto
termination
  by (relation "measure (\<lambda>p. length (json_str p) - pos p)") auto

declare skip_whitespace.simps [simp del]

definition peek :: "parser \<Rightarrow> (std_exception, char) outcome" where
  "peek p = (if pos p \<ge> length (json_str p) then Throw end_of_input else Ret (json_str p ! pos p))"

definition consume :: "parser \<Rightarrow> char presult" where
  "consume p =
     (if pos p \<ge> length (json_str p) then Throw end_of_input
      else Ret (json_str p ! pos p, p\<lparr>pos := pos p + 1\<rparr>))"

definition expect :: "char \<Rightarrow> parser \<Rightarrow> (std_exception, parser) outcome" where
  "expect c p0 =
     (let p = skip_whitespace p0
      in obind (peek p) (\<lambda>d.
           if d = c then obind (consume p) (\<lambda>(_, p'). Ret p')
           else obind (peek p) (\<lambda>g. Throw (runtime_error
             (''Expected '' @ [CHR 0x27, c, CHR 0x27] @ '', got '' @ [CHR 0x27, g, CHR 0x27]
              @ '' at position '' @ nat_to_string (pos p))))))"

section \<open>The remaining input\<close>

text \<open>Every operation is a function of the input not yet consumed.\<close>

definition rest :: "parser \<Rightarrow> string" where
  "rest p = drop (pos p) (json_str p)"

definition adv :: "nat \<Rightarrow> parser \<Rightarrow> parser" where
  "adv n p = p\<lparr>pos := pos p + n\<rparr>"

named_theorems view \<open>parser operations in terms of the remaining input\<close>

lemma rest_adv [simp]: "rest (adv n p) = drop n (rest p)"
  by (simp add: rest_def adv_def add.commute)

lemma adv_adv [simp]: "adv m (adv n p) = adv (n + m) p"
  by (simp add: adv_def add.assoc)

lemma adv_0 [simp]: "adv 0 p = p"
  by (simp add: adv_def)

lemma adv_Suc0: "p\<lparr>pos := Suc (pos p)\<rparr> = adv (Suc 0) p"
  by (simp add: adv_def)

lemma rest_JsonParser [simp]: "rest (JsonParser s) = s"
  by (simp add: rest_def JsonParser_def)

lemma in_range_iff: "pos p < length (json_str p) \<longleftrightarrow> rest p \<noteq> []"
  by (simp add: rest_def not_le)

lemma cur_char: "rest p \<noteq> [] \<Longrightarrow> json_str p ! pos p = hd (rest p)"
  by (simp add: rest_def hd_drop_conv_nth)

lemma peek_view [view]:
  "peek p = (case rest p of [] \<Rightarrow> Throw end_of_input | c # _ \<Rightarrow> Ret c)"
  using in_range_iff [of p] cur_char [of p] by (auto simp: peek_def split: list.splits)

lemma consume_view [view]:
  "consume p = (case rest p of [] \<Rightarrow> Throw end_of_input | c # _ \<Rightarrow> Ret (c, adv 1 p))"
  using in_range_iff [of p] cur_char [of p]
  by (auto simp: consume_def adv_def split: list.splits)

lemma skip_whitespace_view [view]:
  "skip_whitespace p = adv (length (takeWhile isspace (rest p))) p"
proof (induction p rule: skip_whitespace.induct)
  case (1 p)
  show ?case
  proof (cases "rest p \<noteq> [] \<and> isspace (hd (rest p))")
    case True
    then have "skip_whitespace p = skip_whitespace (adv 1 p)"
      using in_range_iff [of p] cur_char [of p]
      by (subst skip_whitespace.simps) (simp add: adv_Suc0)
    moreover have "skip_whitespace (adv 1 p)
        = adv (length (takeWhile isspace (rest (adv 1 p)))) (adv 1 p)"
      using 1 True in_range_iff [of p] cur_char [of p] by (simp add: adv_Suc0)
    ultimately show ?thesis using True by (cases "rest p") auto
  next
    case False
    then have "skip_whitespace p = p"
      using in_range_iff [of p] cur_char [of p] by (subst skip_whitespace.simps) auto
    with False show ?thesis by (cases "rest p") auto
  qed
qed

lemma expect_match [simp]:
  "rest p = ws @ c # t \<Longrightarrow> \<forall>w \<in> set ws. isspace w \<Longrightarrow> \<not> isspace c \<Longrightarrow>
   expect c p = Ret (adv (length ws + 1) p)"
  by (simp add: expect_def Let_def view takeWhile_stop)

lemma expect_here: "rest p = c # t \<Longrightarrow> \<not> isspace c \<Longrightarrow> expect c p = Ret (adv 1 p)"
  using expect_match [of p "[]" c t] by simp

section \<open>Strings, numbers and literals\<close>

definition escaped :: "char \<Rightarrow> char option" where
  "escaped c =
     (if c = CHR 0x22 then Some (CHR 0x22)
      else if c = CHR 0x5C then Some (CHR 0x5C)
      else if c = CHR ''/'' then Some (CHR ''/'')
      else if c = CHR ''b'' then Some (CHR 0x08)
      else if c = CHR ''f'' then Some (CHR 0x0C)
      else if c = CHR ''n'' then Some (CHR 0x0A)
      else if c = CHR ''r'' then Some (CHR 0x0D)
      else if c = CHR ''t'' then Some (CHR 0x09)
      else None)"

function parse_string_loop :: "parser \<Rightarrow> string \<Rightarrow> string presult" where
  "parse_string_loop p s =
     obind (peek p) (\<lambda>q.
       if q = CHR 0x22 then Ret (s, p)
       else obind (consume p) (\<lambda>(c, p1).
         if c = CHR 0x5C
         then obind (consume p1) (\<lambda>(e, p2).
                case escaped e of
                  None \<Rightarrow> Throw (runtime_error ''Invalid escape sequence'')
                | Some x \<Rightarrow> parse_string_loop p2 (s @ [x]))
         else parse_string_loop p1 (s @ [c])))"
  by pat_completeness auto
termination
  by (relation "measure (\<lambda>(p, s). length (json_str p) - pos p)")
    (auto simp: consume_def split: if_splits)

declare parse_string_loop.simps [simp del]

definition parse_string :: "parser \<Rightarrow> string presult" where
  "parse_string p =
     obind (expect (CHR 0x22) p) (\<lambda>p1.
     obind (parse_string_loop p1 []) (\<lambda>(s, p2).
     obind (expect (CHR 0x22) p2) (\<lambda>p3. Ret (s, p3))))"

function consume_digits :: "parser \<Rightarrow> (std_exception, parser) outcome" where
  "consume_digits p =
     (if pos p < length (json_str p) \<and> isdigit (json_str p ! pos p)
      then obind (consume p) (\<lambda>(_, p'). consume_digits p') else Ret p)"
  by pat_completeness auto
termination
  by (relation "measure (\<lambda>p. length (json_str p) - pos p)")
    (auto simp: consume_def split: if_splits)

declare consume_digits.simps [simp del]

definition parse_sign :: "char set \<Rightarrow> parser \<Rightarrow> (std_exception, parser) outcome" where
  "parse_sign cs p = obind (peek p) (\<lambda>c. if c \<in> cs then omap snd (consume p) else Ret p)"

definition parse_fraction :: "parser \<Rightarrow> bool presult" where
  "parse_fraction p =
     obind (peek p) (\<lambda>c.
       if c = CHR ''.''
       then obind (consume p) (\<lambda>(_, p1). omap (\<lambda>p2. (True, p2)) (consume_digits p1))
       else Ret (False, p))"

definition parse_exponent :: "parser \<Rightarrow> bool presult" where
  "parse_exponent p =
     obind (peek p) (\<lambda>c.
       if c = CHR ''e'' \<or> c = CHR ''E''
       then obind (consume p) (\<lambda>(_, p1).
            obind (parse_sign {CHR ''+'', CHR ''-''} p1) (\<lambda>p2.
            omap (\<lambda>p3. (True, p3)) (consume_digits p2)))
       else Ret (False, p))"

definition parse_number :: "'d double_lib \<Rightarrow> parser \<Rightarrow> 'd JsonValue presult" where
  "parse_number D p =
     obind (parse_sign {CHR ''-''} p) (\<lambda>p1.
     obind (consume_digits p1) (\<lambda>p2.
     obind (parse_fraction p2) (\<lambda>(frac, p3).
     obind (parse_exponent p3) (\<lambda>(exponent, p4).
       let num_str = take (pos p4 - pos p) (drop (pos p) (json_str p))
       in if frac \<or> exponent
          then omap (\<lambda>d. (JDouble d, p4)) (of_sum (stod D num_str))
          else omap (\<lambda>i. (JLong i, p4)) (stoll num_str)))))"

fun parse_literal_loop :: "string \<Rightarrow> string \<Rightarrow> parser \<Rightarrow> (std_exception, parser) outcome" where
  "parse_literal_loop literal [] p = Ret p"
| "parse_literal_loop literal (expected_char # cs) p =
     (if pos p \<ge> length (json_str p) \<or> json_str p ! pos p \<noteq> expected_char
      then Throw (runtime_error (''Expected literal '' @ [CHR 0x27] @ literal @ [CHR 0x27]))
      else parse_literal_loop literal cs (p\<lparr>pos := pos p + 1\<rparr>))"

definition parse_literal :: "string \<Rightarrow> 'd JsonValue \<Rightarrow> parser \<Rightarrow> 'd JsonValue presult" where
  "parse_literal literal v p = omap (\<lambda>p'. (v, p')) (parse_literal_loop literal literal p)"

section \<open>Values, arrays and objects\<close>

fun parse_value :: "'d double_lib \<Rightarrow> nat \<Rightarrow> parser \<Rightarrow> 'd JsonValue presult"
  and parse_array :: "'d double_lib \<Rightarrow> nat \<Rightarrow> parser \<Rightarrow> 'd JsonValue presult"
  and parse_array_loop :: "'d double_lib \<Rightarrow> nat \<Rightarrow> 'd JsonArray \<Rightarrow> parser \<Rightarrow> 'd JsonArray presult"
  and parse_object :: "'d double_lib \<Rightarrow> nat \<Rightarrow> parser \<Rightarrow> 'd JsonValue presult"
  and parse_object_loop :: "'d double_lib \<Rightarrow> nat \<Rightarrow> 'd JsonObject \<Rightarrow> parser \<Rightarrow> 'd JsonObject presult"
where
  "parse_value D 0 p0 = Diverge"
| "parse_value D (Suc n) p0 =
     (let p = skip_whitespace p0
      in obind (peek p) (\<lambda>c.
           if c = CHR 0x22 then omap (\<lambda>(s, p'). (JString s, p')) (parse_string p)
           else if c = CHR ''-'' \<or> isdigit c then parse_number D p
           else if c = CHR ''['' then parse_array D n p
           else if c = CHR ''{'' then parse_object D n p
           else if c = CHR ''t'' then parse_literal ''true'' (JBool True) p
           else if c = CHR ''f'' then parse_literal ''false'' (JBool False) p
           else if c = CHR ''n'' then parse_literal ''null'' JNull p
           else Throw (runtime_error (''Unexpected character: '' @ [CHR 0x27, c, CHR 0x27]
                  @ '' at position '' @ nat_to_string (pos p)))))"
| "parse_array D 0 p = Diverge"
| "parse_array D (Suc n) p =
     obind (expect (CHR ''['') p) (\<lambda>p1.
     let p2 = skip_whitespace p1
     in obind (peek p2) (\<lambda>c.
        obind (if c \<noteq> CHR '']'' then parse_array_loop D n [] p2 else Ret ([], p2)) (\<lambda>(arr, p3).
        obind (expect (CHR '']'') p3) (\<lambda>p4. Ret (JArray arr, p4)))))"
| "parse_array_loop D 0 arr p = Diverge"
| "parse_array_loop D (Suc n) arr p =
     obind (parse_value D n p) (\<lambda>(v, p1).
     let p2 = skip_whitespace p1
     in obind (peek p2) (\<lambda>c.
          if c = CHR '','' then obind (consume p2) (\<lambda>(_, p3). parse_array_loop D n (arr @ [v]) p3)
          else if c = CHR '']'' then Ret (arr @ [v], p2)
          else Throw (runtime_error
            (''Expected '' @ [CHR 0x27, CHR '','', CHR 0x27] @ '' or '' @ [CHR 0x27, CHR '']'', CHR 0x27]
             @ '' in array''))))"
| "parse_object D 0 p = Diverge"
| "parse_object D (Suc n) p =
     obind (expect (CHR ''{'') p) (\<lambda>p1.
     let p2 = skip_whitespace p1
     in obind (peek p2) (\<lambda>c.
        obind (if c \<noteq> CHR ''}'' then parse_object_loop D n [] p2 else Ret ([], p2)) (\<lambda>(obj, p3).
        obind (expect (CHR ''}'') p3) (\<lambda>p4. Ret (JObject obj, p4)))))"
| "parse_object_loop D 0 obj p = Diverge"
| "parse_object_loop D (Suc n) obj p =
     obind (parse_string p) (\<lambda>(key, p1).
     obind (expect (CHR '':'') p1) (\<lambda>p2.
     obind (parse_value D n p2) (\<lambda>(v, p3).
     let p4 = skip_whitespace p3
     in obind (peek p4) (\<lambda>c.
          if c = CHR '','' then obind (consume p4) (\<lambda>(_, p5). parse_object_loop D n (map_assign key v obj) p5)
          else if c = CHR ''}'' then Ret (map_assign key v obj, p4)
          else Throw (runtime_error
            (''Expected '' @ [CHR 0x27, CHR '','', CHR 0x27] @ '' or '' @ [CHR 0x27, CHR ''}'', CHR 0x27]
             @ '' in object''))))))"

definition parse_fuel :: "string \<Rightarrow> nat" where
  "parse_fuel s = 3 * length s + 1"

definition parse :: "'d double_lib \<Rightarrow> string \<Rightarrow> (std_exception, 'd JsonValue) outcome" where
  "parse D s =
     obind (parse_value D (parse_fuel s) (JsonParser s)) (\<lambda>(result, p0).
     let p = skip_whitespace p0
     in if pos p \<noteq> length (json_str p)
        then Throw (runtime_error (''Extra characters after JSON value at position ''
               @ nat_to_string (pos p)))
        else Ret result)"

end
