(* ===== verification/Json_Progress.thy ===== *)
theory Json_Progress
  imports Json_Parser
begin

text \<open>
  Facts about every run of the JSON parser: the position only grows and never leaves the
  input, the fuel given by \<open>parse\<close> always suffices and its amount does not matter, and every
  value returned is well formed.
\<close>

section \<open>Progress and bounds of the position\<close>

definition parser_ok :: "parser \<Rightarrow> bool" where
  "parser_ok p \<longleftrightarrow> pos p \<le> length (json_str p)"

definition le_pos :: "parser \<Rightarrow> parser \<Rightarrow> bool" where
  "le_pos p p' \<longleftrightarrow>
     json_str p' = json_str p \<and> pos p \<le> pos p' \<and> (parser_ok p \<longrightarrow> parser_ok p')"

definition lt_pos :: "parser \<Rightarrow> parser \<Rightarrow> bool" where
  "lt_pos p p' \<longleftrightarrow> le_pos p p' \<and> pos p < pos p'"

named_theorems progress \<open>how far each parser operation moves\<close>

lemma lt_le_pos: "lt_pos p q \<Longrightarrow> le_pos p q"
  by (simp add: lt_pos_def)

lemma le_pos_trans: "le_pos p q \<Longrightarrow> le_pos q r \<Longrightarrow> le_pos p r"
  by (auto simp: le_pos_def)

lemma lt_le_trans: "lt_pos p q \<Longrightarrow> le_pos q r \<Longrightarrow> lt_pos p r"
  by (auto simp: lt_pos_def le_pos_def)

lemma le_lt_trans: "le_pos p q \<Longrightarrow> lt_pos q r \<Longrightarrow> lt_pos p r"
  by (auto simp: lt_pos_def le_pos_def)

lemma le_pos_refl [simp]: "le_pos p p"
  by (simp add: le_pos_def)

lemmas pos_chain = lt_le_pos le_pos_trans lt_le_trans le_lt_trans

lemma adv_le_pos: "n \<le> length (rest p) \<Longrightarrow> le_pos p (adv n p)"
  by (auto simp: le_pos_def parser_ok_def adv_def rest_def)

lemma skip_whitespace_progress [simp]: "le_pos p (skip_whitespace p)"
  by (simp add: skip_whitespace_view adv_le_pos length_takeWhile_le)

lemma consume_progress [progress]: "consume p = Ret (c, p') \<Longrightarrow> lt_pos p p'"
  by (auto simp: consume_def lt_pos_def le_pos_def parser_ok_def split: if_splits)

lemma expect_progress [progress]: "expect c p = Ret p' \<Longrightarrow> lt_pos p p'"
  using skip_whitespace_progress [of p] consume_progress [of "skip_whitespace p"]
  by (auto simp: expect_def Let_def outcome_iff split: if_splits
      intro: le_lt_trans [OF skip_whitespace_progress])

lemma parse_string_loop_view:
  "parse_string_loop p s =
     (case rest p of
        [] \<Rightarrow> Throw end_of_input
      | c # r \<Rightarrow>
          if c = CHR 0x22 then Ret (s, p)
          else if c = CHR 0x5C
          then (case r of
                  [] \<Rightarrow> Throw end_of_input
                | e # _ \<Rightarrow>
                    (case escaped e of
                       None \<Rightarrow> Throw (runtime_error ''Invalid escape sequence'')
                     | Some x \<Rightarrow> parse_string_loop (adv 2 p) (s @ [x])))
          else parse_string_loop (adv 1 p) (s @ [c]))"
proof (cases "rest p")
  case Nil
  then show ?thesis by (subst parse_string_loop.simps) (simp add: view)
next
  case (Cons c r)
  then show ?thesis
    by (subst parse_string_loop.simps, cases r)
      (simp_all add: view numeral_2_eq_2 split: option.split)
qed

lemma parse_string_loop_progress [progress]:
  "parse_string_loop p s = Ret (t, p') \<Longrightarrow> le_pos p p'"
proof (induction "length (rest p)" arbitrary: p s rule: less_induct)
  case less
  have le: "le_pos p p'" if "le_pos (adv n p) p'" "n \<le> length (rest p)" for n
    using that by (blast intro: le_pos_trans adv_le_pos)
  from less.prems show ?case
    by (subst (asm) parse_string_loop_view)
      (auto split: list.splits if_splits option.splits dest!: less.hyps [rotated] dest: le)
qed

lemma parse_string_progress [progress]: "parse_string p = Ret (s, p') \<Longrightarrow> lt_pos p p'"
  by (auto simp: parse_string_def outcome_iff dest!: progress intro: pos_chain)

lemma consume_digits_view [view]:
  "consume_digits p = Ret (adv (length (takeWhile isdigit (rest p))) p)"
proof (induction p rule: consume_digits.induct)
  case (1 p)
  show ?case
  proof (cases "rest p \<noteq> [] \<and> isdigit (hd (rest p))")
    case True
    then obtain t where t: "rest p = hd (rest p) # t" by (cases "rest p") auto
    have "consume_digits p = consume_digits (adv 1 p)"
      using True t in_range_iff [of p] cur_char [of p] consume_view [of p]
      by (subst consume_digits.simps) (auto split: list.splits)
    also have "\<dots> = Ret (adv (length (takeWhile isdigit (rest (adv 1 p)))) (adv 1 p))"
      using 1 True t in_range_iff [of p] cur_char [of p] consume_view [of p]
      by (auto split: list.splits)
    finally show ?thesis using True t by (metis (no_types, lifting) adv_adv drop0 drop_Suc_Cons
          length_Cons plus_1_eq_Suc rest_adv takeWhile.simps(2) One_nat_def)
  next
    case False
    then have "consume_digits p = Ret p"
      using in_range_iff [of p] cur_char [of p] by (subst consume_digits.simps) auto
    with False show ?thesis by (cases "rest p") auto
  qed
qed

lemma consume_digits_progress [progress]: "consume_digits p = Ret p' \<Longrightarrow> le_pos p p'"
  by (auto simp: consume_digits_view adv_le_pos length_takeWhile_le)

lemma parse_sign_progress [progress]: "parse_sign cs p = Ret p' \<Longrightarrow> le_pos p p'"
  by (auto simp: parse_sign_def outcome_iff split: if_splits dest!: progress intro: pos_chain)

lemma parse_fraction_progress [progress]: "parse_fraction p = Ret (b, p') \<Longrightarrow> le_pos p p'"
  by (auto simp: parse_fraction_def outcome_iff split: if_splits dest!: progress intro: pos_chain)

lemma parse_exponent_progress [progress]: "parse_exponent p = Ret (b, p') \<Longrightarrow> le_pos p p'"
  by (auto simp: parse_exponent_def outcome_iff split: if_splits dest!: progress intro: pos_chain)

lemma parse_literal_loop_progress [progress]:
  "parse_literal_loop l cs p = Ret p' \<Longrightarrow> le_pos p p' \<and> pos p' = pos p + length cs"
  by (induction l cs p rule: parse_literal_loop.induct)
    (auto simp: le_pos_def parser_ok_def split: if_splits)

lemma parse_literal_progress [progress]:
  "parse_literal l w p = Ret (v, p') \<Longrightarrow> l \<noteq> [] \<Longrightarrow> lt_pos p p'"
  by (auto simp: parse_literal_def outcome_iff lt_pos_def dest!: parse_literal_loop_progress)

lemma consume_digits_strict:
  "rest p = c # r \<Longrightarrow> isdigit c \<Longrightarrow> consume_digits p = Ret p' \<Longrightarrow> lt_pos p p'"
  using adv_le_pos [of "length (takeWhile isdigit (rest p))" p]
  by (auto simp: consume_digits_view lt_pos_def adv_def length_takeWhile_le)

lemma number_start_strict:
  assumes "rest p = c # r" "c = CHR ''-'' \<or> isdigit c"
    and "parse_sign {CHR ''-''} p = Ret p1" "consume_digits p1 = Ret p2"
  shows "lt_pos p p2"
proof (cases "c = CHR ''-''")
  case True
  with assms have "lt_pos p p1"
    by (auto simp: parse_sign_def outcome_iff peek_view split: if_splits dest: consume_progress)
  with assms(4) show ?thesis by (blast intro: lt_le_trans consume_digits_progress)
next
  case False
  with assms have "p1 = p" "isdigit c"
    by (auto simp: parse_sign_def outcome_iff peek_view split: if_splits)
  with assms show ?thesis by (blast intro: consume_digits_strict)
qed

lemma parse_number_progress:
  assumes "parse_number D p = Ret (v, p')" "peek p = Ret c" "c = CHR ''-'' \<or> isdigit c"
  shows "lt_pos p p'"
proof -
  obtain r where r: "rest p = c # r"
    using assms(2) by (auto simp: peek_view split: list.splits)
  obtain p1 p2 b p3 b' where parts: "parse_sign {CHR ''-''} p = Ret p1" "consume_digits p1 = Ret p2"
      "parse_fraction p2 = Ret (b, p3)" "parse_exponent p3 = Ret (b', p')"
    using assms(1) by (auto simp: parse_number_def outcome_iff Let_def split: if_splits)
  have "lt_pos p p2" using number_start_strict [OF r assms(3) parts(1,2)] .
  with parts(3,4) show ?thesis by (blast intro: pos_chain parse_fraction_progress parse_exponent_progress)
qed

section \<open>Inversion of the recursive functions\<close>

lemma parse_value_RetE:
  assumes "parse_value D (Suc n) p = Ret (v, p')"
  obtains (string) s where "parse_string (skip_whitespace p) = Ret (s, p')" "v = JString s"
  | (number) c where "peek (skip_whitespace p) = Ret c" "c = CHR ''-'' \<or> isdigit c"
      "parse_number D (skip_whitespace p) = Ret (v, p')"
  | (array) "parse_array D n (skip_whitespace p) = Ret (v, p')"
  | (object) "parse_object D n (skip_whitespace p) = Ret (v, p')"
  | (literal) l w where "parse_literal l w (skip_whitespace p) = Ret (v, p')" "l \<noteq> []"
      "(l, w) \<in> {(''true'', JBool True), (''false'', JBool False), (''null'', JNull)}"
proof -
  obtain c where c: "peek (skip_whitespace p) = Ret c"
    using assms by (auto simp: Let_def outcome_iff)
  show thesis
    using assms c
    by (auto simp: Let_def outcome_iff split: if_splits
        intro: string number array object literal)
qed

lemma parse_array_RetE:
  assumes "parse_array D (Suc n) p = Ret (v, p')"
  obtains p1 arr p3 where "expect (CHR ''['') p = Ret p1" "v = JArray arr"
    "parse_array_loop D n [] (skip_whitespace p1) = Ret (arr, p3)
     \<or> arr = [] \<and> p3 = skip_whitespace p1"
    "expect (CHR '']'') p3 = Ret p'"
  using assms by (auto simp: Let_def outcome_iff split: if_splits)

lemma parse_array_loop_RetE:
  assumes "parse_array_loop D (Suc n) arr p = Ret (arr', p')"
  obtains v p1 where "parse_value D n p = Ret (v, p1)"
    "(\<exists>p3. consume (skip_whitespace p1) = Ret (CHR '','', p3)
        \<and> parse_array_loop D n (arr @ [v]) p3 = Ret (arr', p'))
     \<or> peek (skip_whitespace p1) = Ret (CHR '']'') \<and> arr' = arr @ [v] \<and> p' = skip_whitespace p1"
proof -
  obtain v p1 where v: "parse_value D n p = Ret (v, p1)"
    using assms by (auto simp: outcome_iff)
  show thesis
    by (rule that [OF v]) (use assms v in \<open>auto simp: Let_def outcome_iff peek_view consume_view split: if_splits list.splits\<close>)
qed

lemma parse_object_RetE:
  assumes "parse_object D (Suc n) p = Ret (v, p')"
  obtains p1 obj p3 where "expect (CHR ''{'') p = Ret p1" "v = JObject obj"
    "parse_object_loop D n [] (skip_whitespace p1) = Ret (obj, p3)
     \<or> obj = [] \<and> p3 = skip_whitespace p1"
    "expect (CHR ''}'') p3 = Ret p'"
  using assms by (auto simp: Let_def outcome_iff split: if_splits)

lemma parse_object_loop_RetE:
  assumes "parse_object_loop D (Suc n) obj p = Ret (obj', p')"
  obtains key p1 p2 v p3 where "parse_string p = Ret (key, p1)" "expect (CHR '':'') p1 = Ret p2"
    "parse_value D n p2 = Ret (v, p3)"
    "(\<exists>p5. consume (skip_whitespace p3) = Ret (CHR '','', p5)
        \<and> parse_object_loop D n (map_assign key v obj) p5 = Ret (obj', p'))
     \<or> peek (skip_whitespace p3) = Ret (CHR ''}'') \<and> obj' = map_assign key v obj \<and> p' = skip_whitespace p3"
proof -
  obtain key p1 p2 v p3 where v: "parse_string p = Ret (key, p1)" "expect (CHR '':'') p1 = Ret p2"
    "parse_value D n p2 = Ret (v, p3)"
    using assms by (auto simp: outcome_iff)
  show thesis
    by (rule that [OF v]) (use assms v in \<open>auto simp: Let_def outcome_iff peek_view consume_view split: if_splits list.splits\<close>)
qed

section \<open>Every value consumes input\<close>

lemmas pos_arith = lt_pos_def le_pos_def

lemma parse_progress:
  "parse_value D n p = Ret (v, p') \<Longrightarrow> lt_pos p p'"
  "parse_array D n p = Ret (v, p') \<Longrightarrow> lt_pos p p'"
  "parse_array_loop D n arr p = Ret (arr', p') \<Longrightarrow> lt_pos p p'"
  "parse_object D n p = Ret (v, p') \<Longrightarrow> lt_pos p p'"
  "parse_object_loop D n obj p = Ret (obj', p') \<Longrightarrow> lt_pos p p'"
proof (induction n arbitrary: p v p' arr arr' obj obj')
  case (Suc n)
  note skip_lt = le_lt_trans [OF skip_whitespace_progress]
  {
    case 1
    then show ?case
      by (elim parse_value_RetE)
        (blast intro: skip_lt Suc.IH parse_number_progress parse_string_progress
          parse_literal_progress)+
  next
    case 2
    then obtain p1 arr p3 where a: "expect (CHR ''['') p = Ret p1"
      "parse_array_loop D n [] (skip_whitespace p1) = Ret (arr, p3) \<or> p3 = skip_whitespace p1"
      "expect (CHR '']'') p3 = Ret p'"
      by (elim parse_array_RetE) blast
    then have "le_pos p1 p3" using Suc.IH(3) skip_lt by (blast intro: lt_le_pos skip_whitespace_progress)
    with a(1,3) show ?case by (blast intro: lt_le_trans lt_le_pos expect_progress le_lt_trans)
  next
    case 3
    then obtain v p1 where a: "parse_value D n p = Ret (v, p1)" "le_pos p1 p'"
      using Suc.IH(3) skip_lt by (elim parse_array_loop_RetE)
        (blast intro: lt_le_pos consume_progress lt_le_trans skip_whitespace_progress)
    then show ?case using Suc.IH(1) by (blast intro: lt_le_trans)
  next
    case 4
    then obtain p1 obj p3 where a: "expect (CHR ''{'') p = Ret p1"
      "parse_object_loop D n [] (skip_whitespace p1) = Ret (obj, p3) \<or> p3 = skip_whitespace p1"
      "expect (CHR ''}'') p3 = Ret p'"
      by (elim parse_object_RetE) blast
    then have "le_pos p1 p3" using Suc.IH(5) skip_lt by (blast intro: lt_le_pos skip_whitespace_progress)
    with a(1,3) show ?case by (blast intro: lt_le_trans lt_le_pos expect_progress le_lt_trans)
  next
    case 5
    then obtain key p1 p2 v p3 where a: "parse_string p = Ret (key, p1)"
      "expect (CHR '':'') p1 = Ret p2" "parse_value D n p2 = Ret (v, p3)" "le_pos p3 p'"
      using Suc.IH(5) skip_lt by (elim parse_object_loop_RetE)
        (blast intro: lt_le_pos consume_progress lt_le_trans skip_whitespace_progress)
    then have "lt_pos p p1" "lt_pos p1 p2" "lt_pos p2 p3"
      using Suc.IH(1) by (blast intro: parse_string_progress expect_progress)+
    with a(4) show ?case by (auto simp: pos_arith)
  }
qed simp_all

section \<open>The fuel suffices\<close>

text \<open>Only the recursive functions can run out of fuel.\<close>

lemma elementary_total [simp]:
  "peek p \<noteq> Diverge" "consume p \<noteq> Diverge" "expect c p \<noteq> Diverge"
  "consume_digits p \<noteq> Diverge" "stoll s \<noteq> Diverge"
  by (auto simp: peek_def consume_def expect_def consume_digits_view stoll_def Let_def
      outcome_iff split: if_splits)

lemma parse_string_loop_total [simp]: "parse_string_loop p s \<noteq> Diverge"
proof (induction "length (rest p)" arbitrary: p s rule: less_induct)
  case less
  show ?case
    by (subst parse_string_loop_view) (auto split: list.splits option.splits intro!: less)
qed

lemma parse_string_total [simp]: "parse_string p \<noteq> Diverge"
  by (auto simp: parse_string_def outcome_iff)

lemma number_parts_total [simp]:
  "parse_sign cs p \<noteq> Diverge" "parse_fraction p \<noteq> Diverge" "parse_exponent p \<noteq> Diverge"
  by (auto simp: parse_sign_def parse_fraction_def parse_exponent_def outcome_iff split: if_splits)

lemma parse_number_total [simp]: "parse_number D p \<noteq> Diverge"
  by (auto simp: parse_number_def outcome_iff Let_def split: if_splits)

lemma parse_literal_total [simp]: "parse_literal l v p \<noteq> Diverge"
proof -
  have "parse_literal_loop l cs p \<noteq> Diverge" for cs
    by (induction l cs p rule: parse_literal_loop.induct) auto
  then show ?thesis by (simp add: parse_literal_def outcome_iff)
qed

definition remaining :: "parser \<Rightarrow> nat" where
  "remaining p = length (json_str p) - pos p"

lemma remaining_le: "le_pos p q \<Longrightarrow> remaining q \<le> remaining p"
  by (auto simp: remaining_def le_pos_def)

lemma remaining_lt: "lt_pos p q \<Longrightarrow> parser_ok p \<Longrightarrow> remaining q < remaining p \<and> parser_ok q"
  by (auto simp: remaining_def lt_pos_def le_pos_def parser_ok_def)

lemma parser_ok_le: "le_pos p q \<Longrightarrow> parser_ok p \<Longrightarrow> parser_ok q"
  by (simp add: le_pos_def)

lemma skip_whitespace_remaining:
  "remaining (skip_whitespace p) \<le> remaining p" "parser_ok p \<Longrightarrow> parser_ok (skip_whitespace p)"
  using skip_whitespace_progress [of p] by (blast intro: remaining_le parser_ok_le)+

lemma peek_remaining: "peek p = Ret c \<Longrightarrow> 0 < remaining p"
  by (auto simp: peek_def remaining_def split: if_splits)

lemma parse_value_DivergeD:
  assumes "parse_value D (Suc n) p = Diverge"
  shows "0 < remaining (skip_whitespace p)
    \<and> (parse_array D n (skip_whitespace p) = Diverge \<or> parse_object D n (skip_whitespace p) = Diverge)"
  using assms by (auto simp: Let_def outcome_iff split: if_splits dest: peek_remaining)

lemma parse_enough_fuel:
  "parser_ok p \<Longrightarrow> 3 * remaining p + 1 \<le> n \<Longrightarrow> parse_value D n p \<noteq> Diverge"
  "parser_ok p \<Longrightarrow> 3 * remaining p \<le> n \<Longrightarrow> 0 < n \<Longrightarrow> parse_array D n p \<noteq> Diverge"
  "parser_ok p \<Longrightarrow> 3 * remaining p + 2 \<le> n \<Longrightarrow> parse_array_loop D n arr p \<noteq> Diverge"
  "parser_ok p \<Longrightarrow> 3 * remaining p \<le> n \<Longrightarrow> 0 < n \<Longrightarrow> parse_object D n p \<noteq> Diverge"
  "parser_ok p \<Longrightarrow> 3 * remaining p + 2 \<le> n \<Longrightarrow> parse_object_loop D n obj p \<noteq> Diverge"
proof (induction n arbitrary: p arr obj)
  case (Suc n)
  have after: "parser_ok (skip_whitespace q)" "remaining (skip_whitespace q) < remaining p"
    if "lt_pos p q" "parser_ok p" for p q
    using that skip_whitespace_remaining [of q] remaining_lt [of p q] by auto
  have comma: "parser_ok r" "remaining r < remaining p"
    if "lt_pos p q" "parser_ok p" "consume (skip_whitespace q) = Ret (c, r)" for p q r c
    using after [OF that(1,2)] remaining_lt [OF consume_progress [OF that(3)]] by auto
  {
    case 1
    then have sub: "0 < remaining (skip_whitespace p) \<Longrightarrow>
        parse_array D n (skip_whitespace p) \<noteq> Diverge
        \<and> parse_object D n (skip_whitespace p) \<noteq> Diverge"
      using Suc.IH(2,4) [of "skip_whitespace p"] skip_whitespace_remaining [of p] by simp
    show ?case
    proof
      assume "parse_value D (Suc n) p = Diverge"
      from parse_value_DivergeD [OF this] sub show False by auto
    qed
  next
    case 2
    then show ?case
      using Suc.IH(3) after [OF expect_progress]
      by (fastforce simp: Let_def outcome_iff split: if_splits)
  next
    case 3
    have "parse_array_loop D n arr' p3 \<noteq> Diverge"
      if "parse_value D n p = Ret (v, p1)" "consume (skip_whitespace p1) = Ret (c, p3)"
      for v p1 c p3 arr'
      using 3 Suc.IH(3) [of p3 arr'] comma [OF parse_progress(1) [OF that(1)] _ that(2)] by simp
    moreover have "parse_value D n p \<noteq> Diverge" using 3 Suc.IH(1) [of p] by simp
    ultimately show ?case by (auto simp: Let_def outcome_iff split: if_splits)
  next
    case 4
    then show ?case
      using Suc.IH(5) after [OF expect_progress]
      by (fastforce simp: Let_def outcome_iff split: if_splits)
  next
    case 5
    have vfuel: "parse_value D n p2 \<noteq> Diverge" "lt_pos p p2"
      if "parse_string p = Ret (key, p1)" "expect (CHR '':'') p1 = Ret p2" for key p1 p2
    proof -
      from that show "lt_pos p p2"
        by (blast intro: lt_le_trans lt_le_pos parse_string_progress expect_progress)
      then show "parse_value D n p2 \<noteq> Diverge"
        using 5 Suc.IH(1) [of p2] remaining_lt [of p p2] by simp
    qed
    have "parse_object_loop D n obj' p5 \<noteq> Diverge"
      if "parse_string p = Ret (key, p1)" "expect (CHR '':'') p1 = Ret p2"
        "parse_value D n p2 = Ret (v, p3)" "consume (skip_whitespace p3) = Ret (c, p5)"
      for key p1 p2 v p3 c p5 obj'
    proof -
      have "lt_pos p p3"
        using vfuel(2) [OF that(1,2)] parse_progress(1) [OF that(3)]
        by (blast intro: lt_le_trans lt_le_pos)
      then show ?thesis using 5 Suc.IH(5) [of p5 obj'] comma [of p, OF _ _ that(4)] by simp
    qed
    with 5 vfuel(1) show ?case
      by (auto simp: Let_def outcome_iff split: if_splits)
  }
qed simp_all

lemma parse_fuel_mono:
  "fuel_le (parse_value D n p) (parse_value D (Suc n) p)"
  "fuel_le (parse_array D n p) (parse_array D (Suc n) p)"
  "fuel_le (parse_array_loop D n arr p) (parse_array_loop D (Suc n) arr p)"
  "fuel_le (parse_object D n p) (parse_object D (Suc n) p)"
  "fuel_le (parse_object_loop D n obj p) (parse_object_loop D (Suc n) obj p)"
proof (induction n arbitrary: p arr obj)
  case (Suc n)
  {
    case 1 show ?case
      by (subst (1 2) parse_value.simps) (intro fuel_mono Suc.IH | simp only: Let_def)+
  next
    case 2 show ?case
      by (subst (1 2) parse_array.simps) (intro fuel_mono Suc.IH | simp only: Let_def)+
  next
    case 3 show ?case
      by (subst (1 2) parse_array_loop.simps) (intro fuel_mono Suc.IH | simp only: Let_def)+
  next
    case 4 show ?case
      by (subst (1 2) parse_object.simps) (intro fuel_mono Suc.IH | simp only: Let_def)+
  next
    case 5 show ?case
      by (subst (1 2) parse_object_loop.simps) (intro fuel_mono Suc.IH | simp only: Let_def)+
  }
qed simp_all

lemma parse_value_fuel_irrelevant:
  assumes "parse_value D n p \<noteq> Diverge" "n \<le> m"
  shows "parse_value D m p = parse_value D n p"
  using assms(2)
proof (induction m rule: dec_induct)
  case (step k)
  then show ?case using parse_fuel_mono(1) [of D k p] assms(1) by (simp add: fuel_le_def)
qed simp

lemma parser_ok_start [simp]: "parser_ok (JsonParser s)" "remaining (JsonParser s) = length s"
  by (simp_all add: parser_ok_def JsonParser_def remaining_def)

lemma parse_value_total: "parse_value D (parse_fuel s) (JsonParser s) \<noteq> Diverge"
  by (rule parse_enough_fuel(1)) (simp_all add: parse_fuel_def)

section \<open>Values returned are well formed\<close>

lemma parse_number_wf:
  "parse_number D p = Ret (v, p') \<Longrightarrow> json_wf v"
  by (auto simp: parse_number_def outcome_iff Let_def split: if_splits dest: stoll_range)

lemma parse_wf:
  "parse_value D n p = Ret (v, p') \<Longrightarrow> json_wf v"
  "parse_array D n p = Ret (v, p') \<Longrightarrow> json_wf v"
  "parse_array_loop D n arr p = Ret (arr', p') \<Longrightarrow> json_wf (JArray arr) \<Longrightarrow> json_wf (JArray arr')"
  "parse_object D n p = Ret (v, p') \<Longrightarrow> json_wf v"
  "parse_object_loop D n obj p = Ret (obj', p') \<Longrightarrow> json_wf (JObject obj) \<Longrightarrow> json_wf (JObject obj')"
proof (induction n arbitrary: p v p' arr arr' obj obj')
  case (Suc n)
  {
    case 1
    then show ?case
      by (elim parse_value_RetE)
        (auto dest: Suc.IH(2,4) parse_number_wf simp: parse_literal_def outcome_iff)
  next
    case 2
    then show ?case
      by (elim parse_array_RetE) (auto dest: Suc.IH(3))
  next
    case 3
    from 3(1) obtain v p1 where v: "parse_value D n p = Ret (v, p1)"
      and more: "(\<exists>c p3. consume (skip_whitespace p1) = Ret (c, p3)
          \<and> parse_array_loop D n (arr @ [v]) p3 = Ret (arr', p')) \<or> arr' = arr @ [v]"
      by (elim parse_array_loop_RetE) blast
    have "json_wf (JArray (arr @ [v]))" using 3(2) Suc.IH(1) [OF v] by auto
    then show ?case using more Suc.IH(3) by blast
  next
    case 4
    then show ?case
      by (elim parse_object_RetE) (use Suc.IH(5) [of "[]"] in \<open>fastforce simp del: json_wf.simps(3)
          simp: json_wf.simps(3) [of "[]"]\<close>)
  next
    case 5
    from 5(1) obtain key p2 v p3 where v: "parse_value D n p2 = Ret (v, p3)"
      and more: "(\<exists>c p5. consume (skip_whitespace p3) = Ret (c, p5)
          \<and> parse_object_loop D n (map_assign key v obj) p5 = Ret (obj', p'))
        \<or> obj' = map_assign key v obj"
      by (elim parse_object_loop_RetE) blast
    have "json_wf (JObject (map_assign key v obj))"
      using 5(2) Suc.IH(1) [OF v] set_map_assign_subset [of key v obj]
      by (fastforce simp: key_sorted_map_assign)
    then show ?case using more Suc.IH(5) by blast
  }
qed simp_all

end
