(* ===== verification/Json_Serializer.thy ===== *)
theory Json_Serializer
  imports Json_Progress
begin

text \<open>
  \<open>serialize_json\<close> of \<open>middleware/src/nonworking_json.cpp\<close> and the round trip through
  the parser: a value whose object keys need no escaping and whose doubles are printed as a
  decimal that \<open>std::stod\<close> reads back is recovered exactly from its text.
\<close>

section \<open>serialize_json\<close>

definition indent :: "nat \<Rightarrow> string" where
  "indent level = replicate (level * 2) (CHR '' '')"

text \<open>Removal of trailing zeros, and of the decimal point when it comes last.\<close>

definition trim_double :: "string \<Rightarrow> string" where
  "trim_double r =
     (if CHR ''.'' \<in> set r
      then let e = rev (dropWhile (\<lambda>c. c = CHR ''0'') (rev r))
           in if e \<noteq> [] \<and> last e = CHR ''.'' then butlast e else e
      else r)"

fun escape_json :: "string \<Rightarrow> string" where
  "escape_json [] = []"
| "escape_json (c # cs) =
     (if c = CHR 0x22 then [CHR 0x5C, CHR 0x22]
      else if c = CHR 0x5C then [CHR 0x5C, CHR 0x5C]
      else [c]) @ escape_json cs"

fun serialize_json :: "'d double_lib \<Rightarrow> nat \<Rightarrow> 'd JsonValue \<Rightarrow> string"
  and serialize_items :: "'d double_lib \<Rightarrow> nat \<Rightarrow> bool \<Rightarrow> 'd JsonArray \<Rightarrow> string"
  and serialize_members :: "'d double_lib \<Rightarrow> nat \<Rightarrow> bool \<Rightarrow> 'd JsonObject \<Rightarrow> string"
where
  "serialize_json D level JNull = ''null''"
| "serialize_json D level (JBool b) = (if b then ''true'' else ''false'')"
| "serialize_json D level (JLong i) = to_string i"
| "serialize_json D level (JDouble d) = trim_double (dbl_to_string D d)"
| "serialize_json D level (JString s) = [CHR 0x22] @ escape_json s @ [CHR 0x22]"
| "serialize_json D level (JArray xs) =
     [CHR ''['', newline] @ serialize_items D level True xs @ [newline] @ indent level @ [CHR '']'']"
| "serialize_json D level (JObject m) =
     [CHR ''{'', newline] @ serialize_members D level True m @ [newline] @ indent level @ [CHR ''}'']"
| "serialize_items D level first [] = []"
| "serialize_items D level first (x # xs) =
     (if \<not> first then [CHR '','', newline] else []) @ indent level @ ''  ''
     @ serialize_json D (level + 1) x @ serialize_items D level False xs"
| "serialize_members D level first [] = []"
| "serialize_members D level first (kv # m) =
     (if \<not> first then [CHR '','', newline] else []) @ indent level @ ''  '' @ [CHR 0x22] @ fst kv
     @ [CHR 0x22, CHR '':'', CHR '' ''] @ serialize_json D (level + 1) (snd kv)
     @ serialize_members D level False m"

section \<open>Values that survive the round trip\<close>

definition decimal_text :: "string \<Rightarrow> bool" where
  "decimal_text t =
     (let u = (if t \<noteq> [] \<and> hd t = CHR ''-'' then tl t else t);
          ip = takeWhile isdigit u; r = dropWhile isdigit u
      in ip \<noteq> [] \<and> r \<noteq> [] \<and> hd r = CHR ''.'' \<and> list_all isdigit (tl r))"

definition double_ok :: "'d double_lib \<Rightarrow> 'd \<Rightarrow> bool" where
  "double_ok D d \<longleftrightarrow>
     decimal_text (trim_double (dbl_to_string D d))
     \<and> stod D (trim_double (dbl_to_string D d)) = Inr d"

definition plain_key :: "string \<Rightarrow> bool" where
  "plain_key k \<longleftrightarrow> CHR 0x22 \<notin> set k \<and> CHR 0x5C \<notin> set k"

fun roundtrips :: "'d double_lib \<Rightarrow> 'd JsonValue \<Rightarrow> bool" where
  "roundtrips D (JLong i) = (LLONG_MIN \<le> i \<and> i \<le> LLONG_MAX)"
| "roundtrips D (JDouble d) = double_ok D d"
| "roundtrips D (JArray xs) = (\<forall>x \<in> set xs. roundtrips D x)"
| "roundtrips D (JObject m) =
     (key_sorted m \<and> (\<forall>kv \<in> set m. plain_key (fst kv) \<and> roundtrips D (snd kv)))"
| "roundtrips D v = True"

definition is_number :: "'d JsonValue \<Rightarrow> bool" where
  "is_number v \<longleftrightarrow> is_long v \<or> is_double v"

section \<open>Reading back each kind of text\<close>

lemma not_space [simp]:
  "\<not> isspace (CHR 0x22)" "\<not> isspace (CHR ''['')" "\<not> isspace (CHR '']'')" "\<not> isspace (CHR ''{'')"
  "\<not> isspace (CHR ''}'')" "\<not> isspace (CHR '','')" "\<not> isspace (CHR '':'')" "\<not> isspace (CHR ''t'')"
  "\<not> isspace (CHR ''f'')" "\<not> isspace (CHR ''n'')" "isspace newline" "isspace (CHR '' '')"
  by (simp_all add: isspace_def newline_def)

lemma not_digit [simp]:
  "\<not> isdigit (CHR 0x22)" "\<not> isdigit (CHR ''['')" "\<not> isdigit (CHR ''{'')" "\<not> isdigit (CHR ''t'')"
  "\<not> isdigit (CHR ''f'')" "\<not> isdigit (CHR ''n'')" "\<not> isdigit (CHR ''.'')" "\<not> isdigit (CHR '','')"
  "\<not> isdigit newline" "\<not> isdigit (CHR '']'')" "\<not> isdigit (CHR ''}'')"
  by (simp_all add: isdigit_def newline_def)

lemma indent_spaces: "\<forall>w \<in> set (indent level). isspace w"
  by (simp add: indent_def)

lemma skip_ws_stop:
  "rest p = ws @ c # t \<Longrightarrow> \<forall>w \<in> set ws. isspace w \<Longrightarrow> \<not> isspace c \<Longrightarrow>
   skip_whitespace p = adv (length ws) p"
  by (simp add: skip_whitespace_view takeWhile_stop)

lemma escape_plain: "plain_key k \<Longrightarrow> escape_json k = k"
  by (induction k) (auto simp: plain_key_def)

lemma parse_string_loop_escape:
  "rest p = escape_json s @ CHR 0x22 # t \<Longrightarrow>
   parse_string_loop p acc = Ret (acc @ s, adv (length (escape_json s)) p)"
proof (induction s arbitrary: p acc)
  case Nil
  then show ?case by (subst parse_string_loop_view) simp
next
  case (Cons c s)
  show ?case
  proof (cases "c = CHR 0x22 \<or> c = CHR 0x5C")
    case True
    with Cons.prems have "rest (adv 2 p) = escape_json s @ CHR 0x22 # t" by auto
    with True Cons show ?thesis
      by (subst parse_string_loop_view) (auto simp: escaped_def)
  next
    case False
    with Cons.prems have "rest (adv 1 p) = escape_json s @ CHR 0x22 # t" by auto
    with False Cons show ?thesis
      by (subst parse_string_loop_view) auto
  qed
qed

lemma parse_string_escape:
  assumes "rest p = ws @ CHR 0x22 # escape_json s @ CHR 0x22 # t" "\<forall>w \<in> set ws. isspace w"
  shows "parse_string p = Ret (s, adv (length ws + length (escape_json s) + 2) p)"
proof -
  let ?p1 = "adv (length ws + 1) p"
  have p1: "expect (CHR 0x22) p = Ret ?p1" using assms by simp
  have r1: "rest ?p1 = escape_json s @ CHR 0x22 # t" using assms by simp
  have p2: "parse_string_loop ?p1 [] = Ret (s, adv (length (escape_json s)) ?p1)"
    using parse_string_loop_escape [OF r1, of "[]"] by simp
  have "rest (adv (length (escape_json s)) ?p1) = [] @ CHR 0x22 # t" using assms by simp
  then have "expect (CHR 0x22) (adv (length (escape_json s)) ?p1)
      = Ret (adv 1 (adv (length (escape_json s)) ?p1))"
    by (intro expect_here) simp_all
  then show ?thesis unfolding parse_string_def p1 obind.simps p2 prod.case by simp
qed

lemma parse_literal_match:
  "rest p = cs @ t \<Longrightarrow> parse_literal_loop l cs p = Ret (adv (length cs) p)"
proof (induction cs arbitrary: p)
  case (Cons c cs)
  then have "rest p \<noteq> []" "hd (rest p) = c" "rest (adv 1 p) = cs @ t" by auto
  with Cons.IH [of "adv 1 p"] in_range_iff [of p] cur_char [of p] show ?case
    by (auto simp: adv_Suc0)
qed simp

lemma num_str_take: "take (pos (adv k p) - pos p) (drop (pos p) (json_str p)) = take k (rest p)"
  by (simp add: adv_def rest_def)

definition number_end :: "char \<Rightarrow> bool" where
  "number_end c \<longleftrightarrow> \<not> isdigit c \<and> c \<notin> {CHR ''.'', CHR ''e'', CHR ''E''}"

lemma parse_sign_scan:
  assumes "rest p = sg @ r" "sg = [] \<and> r \<noteq> [] \<and> hd r \<notin> cs \<or> (\<exists>c \<in> cs. sg = [c])"
  shows "parse_sign cs p = Ret (adv (length sg) p)"
  using assms by (auto simp: parse_sign_def view neq_Nil_conv)

lemma consume_digits_scan:
  assumes "rest p = ds @ r" "\<forall>c \<in> set ds. isdigit c" "r = [] \<or> \<not> isdigit (hd r)"
  shows "consume_digits p = Ret (adv (length ds) p)"
  using takeWhile_stop [of ds isdigit r] assms by (simp add: consume_digits_view del: takeWhile_append2)

lemma parse_fraction_scan:
  assumes "rest p = fr @ c # r" "number_end c"
    and "fr = [] \<or> (\<exists>fd. fr = CHR ''.'' # fd \<and> (\<forall>d \<in> set fd. isdigit d))"
  shows "parse_fraction p = Ret (fr \<noteq> [], adv (length fr) p)"
proof (cases "fr = []")
  case True
  with assms show ?thesis by (simp add: parse_fraction_def view number_end_def)
next
  case False
  with assms obtain fd where fd: "fr = CHR ''.'' # fd" "\<forall>d \<in> set fd. isdigit d" by blast
  with assms have "rest (adv 1 p) = fd @ c # r" by simp
  then have "consume_digits (adv 1 p) = Ret (adv (length fd) (adv 1 p))"
    by (rule consume_digits_scan) (use assms fd in \<open>auto simp: number_end_def\<close>)
  with assms fd show ?thesis by (simp add: parse_fraction_def view)
qed

lemma parse_exponent_none:
  "rest p = c # r \<Longrightarrow> number_end c \<Longrightarrow> parse_exponent p = Ret (False, p)"
  by (simp add: parse_exponent_def view number_end_def)

lemma parse_number_scan:
  assumes r: "rest p = (sg @ ip @ fr) @ c # t" and c: "number_end c"
    and sg: "sg = [] \<and> ip \<noteq> [] \<or> sg = ''-''" and ip: "\<forall>d \<in> set ip. isdigit d"
    and fr: "fr = [] \<or> (\<exists>fd. fr = CHR ''.'' # fd \<and> (\<forall>d \<in> set fd. isdigit d))"
  shows "parse_number D p =
    (if fr \<noteq> []
     then omap (\<lambda>d. (JDouble d, adv (length (sg @ ip @ fr)) p)) (of_sum (stod D (sg @ ip @ fr)))
     else omap (\<lambda>i. (JLong i, adv (length (sg @ ip @ fr)) p)) (stoll (sg @ ip @ fr)))"
proof -
  have 1: "parse_sign {CHR ''-''} p = Ret (adv (length sg) p)"
    by (rule parse_sign_scan [of _ _ "ip @ fr @ c # t"]) (use r sg ip in \<open>auto simp: neq_Nil_conv\<close>)
  have 2: "consume_digits (adv (length sg) p) = Ret (adv (length (sg @ ip)) p)"
    using consume_digits_scan [of "adv (length sg) p" ip "fr @ c # t"] r ip c fr
    by (auto simp: number_end_def)
  have 3: "parse_fraction (adv (length (sg @ ip)) p) = Ret (fr \<noteq> [], adv (length (sg @ ip @ fr)) p)"
    using parse_fraction_scan [of "adv (length (sg @ ip)) p" fr c t] r c fr by (simp add: add.assoc)
  have 4: "parse_exponent (adv (length (sg @ ip @ fr)) p) = Ret (False, adv (length (sg @ ip @ fr)) p)"
    using parse_exponent_none [of "adv (length (sg @ ip @ fr)) p" c t] r c by simp
  have 5: "take (length (sg @ ip @ fr)) (rest p) = sg @ ip @ fr" using r by simp
  show ?thesis
    unfolding parse_number_def 1 obind.simps 2 3 4 prod.case num_str_take 5 Let_def by simp
qed

section \<open>The round trip\<close>

text \<open>
  \<open>reads_back D level v\<close>: wherever the text of \<open>v\<close> at \<open>level\<close> stands in the
  input, after any white space, the parser returns \<open>v\<close> and stops right behind it.  A number
  needs a following character that cannot continue it.
\<close>

definition reads_back :: "'d double_lib \<Rightarrow> nat \<Rightarrow> 'd JsonValue \<Rightarrow> bool" where
  "reads_back D level v \<longleftrightarrow>
     (\<forall>p ws t n. rest p = ws @ serialize_json D level v @ t \<longrightarrow> (\<forall>w \<in> set ws. isspace w) \<longrightarrow>
        (is_number v \<longrightarrow> t \<noteq> [] \<and> number_end (hd t)) \<longrightarrow> 3 * length (rest p) + 1 \<le> n \<longrightarrow>
        parse_value D n p = Ret (v, adv (length ws + length (serialize_json D level v)) p))"

lemma parse_value_dispatch:
  assumes "rest p = ws @ c # t" "\<forall>w \<in> set ws. isspace w" "\<not> isspace c" "0 < n"
  obtains q m where "q = adv (length ws) p" "n = Suc m" "skip_whitespace p = q" "peek q = Ret c"
    "rest q = c # t"
  using assms skip_ws_stop [OF assms(1-3)] by (cases n) (auto simp: view)

lemma reads_back_literal:
  assumes "serialize_json D level v = c # cs" "\<not> is_number v"
    and "\<And>m q. skip_whitespace q = q \<Longrightarrow> peek q = Ret c \<Longrightarrow>
      parse_value D (Suc m) q = parse_literal (c # cs) v q"
    and "\<not> isspace c"
  shows "reads_back D level v"
  unfolding reads_back_def
proof (intro allI impI)
  fix p ws t n
  assume r: "rest p = ws @ serialize_json D level v @ t" and ws: "\<forall>w \<in> set ws. isspace w"
    and n: "3 * length (rest p) + 1 \<le> n"
  from r have r': "rest p = ws @ c # (cs @ t)" using assms(1) by simp
  from n have "0 < n" by simp
  from parse_value_dispatch [OF r' ws assms(4) this] obtain q m where
    q: "q = adv (length ws) p" "n = Suc m" "skip_whitespace p = q" "peek q = Ret c"
       "rest q = c # (cs @ t)" by blast
  have "skip_whitespace q = q" using q(5) assms(4) by (simp add: skip_whitespace_view)
  then have "parse_value D n p = parse_literal (c # cs) v q"
    using assms(3) [of q m] q by (simp add: Let_def)
  also have "\<dots> = Ret (v, adv (length (c # cs)) q)"
    using parse_literal_match [of q "c # cs" t] q(5) by (simp add: parse_literal_def)
  finally show "parse_value D n p = Ret (v, adv (length ws + length (serialize_json D level v)) p)"
    using q(1) assms(1) by simp
qed

lemma reads_back_null: "reads_back D level JNull"
  by (rule reads_back_literal [of _ _ _ "CHR ''n''" "''ull''"])
    (auto simp: is_number_def is_long_def is_double_def Let_def)

lemma reads_back_bool: "reads_back D level (JBool b)"
  by (cases b; rule reads_back_literal [of _ _ _ "hd (serialize_json D level (JBool b))"
        "tl (serialize_json D level (JBool b))"])
    (auto simp: is_number_def is_long_def is_double_def Let_def)

lemma reads_back_string: "reads_back D level (JString s)"
  unfolding reads_back_def
proof (intro allI impI)
  fix p ws t n
  assume r: "rest p = ws @ serialize_json D level (JString s) @ t" and ws: "\<forall>w \<in> set ws. isspace w"
    and n: "3 * length (rest p) + 1 \<le> n"
  from r have r': "rest p = ws @ CHR 0x22 # (escape_json s @ CHR 0x22 # t)" by simp
  from n have "0 < n" by simp
  from parse_value_dispatch [OF r' ws not_space(1) this] obtain q m where
    q: "q = adv (length ws) p" "n = Suc m" "skip_whitespace p = q" "peek q = Ret (CHR 0x22)"
       "rest q = CHR 0x22 # (escape_json s @ CHR 0x22 # t)" by blast
  have "parse_string q = Ret (s, adv (length (escape_json s) + 2) q)"
    using parse_string_escape [of q "[]" s t] q(5) by simp
  then show "parse_value D n p
      = Ret (JString s, adv (length ws + length (serialize_json D level (JString s))) p)"
    using q by (simp add: Let_def)
qed

lemma reads_back_number:
  assumes ser: "serialize_json D level v = sg @ ip @ fr" and num: "is_number v"
    and sg: "sg = [] \<and> ip \<noteq> [] \<or> sg = ''-''" and ip: "\<forall>d \<in> set ip. isdigit d"
    and fr: "fr = [] \<or> (\<exists>fd. fr = CHR ''.'' # fd \<and> (\<forall>d \<in> set fd. isdigit d))"
    and conv: "if fr \<noteq> [] then \<exists>d. stod D (sg @ ip @ fr) = Inr d \<and> v = JDouble d
      else \<exists>i. stoll (sg @ ip @ fr) = Ret i \<and> v = JLong i"
  shows "reads_back D level v"
  unfolding reads_back_def
proof (intro allI impI)
  fix p ws t n
  assume r: "rest p = ws @ serialize_json D level v @ t" and ws: "\<forall>w \<in> set ws. isspace w"
    and n: "3 * length (rest p) + 1 \<le> n" and t: "is_number v \<longrightarrow> t \<noteq> [] \<and> number_end (hd t)"
  obtain e t' where e: "t = e # t'" "number_end e" using t num by (cases t) auto
  obtain c cs where c: "sg @ ip @ fr = c # cs" "c = CHR ''-'' \<or> isdigit c"
    using sg ip by (cases ip) auto
  have sp: "\<not> isspace c" using c(2) by (auto dest: isdigit_not_space)
  from r have r': "rest p = ws @ c # (cs @ t)" using ser c by simp
  from n have "0 < n" by simp
  from parse_value_dispatch [OF r' ws sp this] obtain q m where
    q: "q = adv (length ws) p" "n = Suc m" "skip_whitespace p = q" "peek q = Ret c"
       "rest q = c # (cs @ t)" by blast
  have "rest q = (sg @ ip @ fr) @ e # t'" using q(5) c(1) e by simp
  then have "parse_number D q = Ret (v, adv (length (sg @ ip @ fr)) q)"
    using parse_number_scan [OF _ e(2) sg ip fr, of q t' D] conv by (auto split: if_splits)
  moreover have "parse_value D n p = parse_number D q"
    using q c(2) by (auto simp: Let_def)
  ultimately show "parse_value D n p = Ret (v, adv (length ws + length (serialize_json D level v)) p)"
    using q(1) ser by simp
qed

lemma reads_back_long:
  assumes "LLONG_MIN \<le> i" "i \<le> LLONG_MAX"
  shows "reads_back D level (JLong i)"
proof (rule reads_back_number [of _ _ _ "if i < 0 then ''-'' else []" "nat_to_string (nat \<bar>i\<bar>)" "[]"])
  show ser: "serialize_json D level (JLong i)
      = (if i < 0 then ''-'' else []) @ nat_to_string (nat \<bar>i\<bar>) @ []"
    by (simp add: to_string_def)
  then show "if [] \<noteq> [] then \<exists>d. stod D ((if i < 0 then ''-'' else []) @ nat_to_string (nat \<bar>i\<bar>) @ []) = Inr d
        \<and> JLong i = JDouble d
      else \<exists>j. stoll ((if i < 0 then ''-'' else []) @ nat_to_string (nat \<bar>i\<bar>) @ []) = Ret j \<and> JLong i = JLong j"
    using stoll_to_string [OF assms] by simp
qed (auto simp: nat_to_string_digits is_number_def is_long_def)

lemma decimal_text_parts:
  assumes "decimal_text t"
  obtains sg ip fd where "t = sg @ ip @ CHR ''.'' # fd" "sg = [] \<and> ip \<noteq> [] \<or> sg = ''-''"
    "\<forall>d \<in> set ip. isdigit d" "\<forall>d \<in> set fd. isdigit d"
proof -
  define u where "u = (if t \<noteq> [] \<and> hd t = CHR ''-'' then tl t else t)"
  define sg where "sg = (if t \<noteq> [] \<and> hd t = CHR ''-'' then ''-'' else [])"
  have u: "takeWhile isdigit u \<noteq> []" "dropWhile isdigit u \<noteq> []"
      "hd (dropWhile isdigit u) = CHR ''.''" "list_all isdigit (tl (dropWhile isdigit u))"
    using assms by (simp_all add: decimal_text_def Let_def u_def)
  have "t = sg @ u" by (cases t) (simp_all add: sg_def u_def)
  also have "u = takeWhile isdigit u @ dropWhile isdigit u" by simp
  also have "dropWhile isdigit u = CHR ''.'' # tl (dropWhile isdigit u)"
    using u(2,3) by (cases "dropWhile isdigit u") simp_all
  finally have parts: "t = sg @ takeWhile isdigit u @ CHR ''.'' # tl (dropWhile isdigit u)" .
  have "\<forall>d \<in> set (takeWhile isdigit u). isdigit d" by (blast dest: set_takeWhileD)
  with u show thesis by (intro that [OF parts]) (auto simp: list_all_iff sg_def)
qed

lemma reads_back_double:
  assumes "double_ok D d"
  shows "reads_back D level (JDouble d)"
proof -
  have ok: "decimal_text (trim_double (dbl_to_string D d))"
    "stod D (trim_double (dbl_to_string D d)) = Inr d"
    using assms by (simp_all add: double_ok_def)
  from decimal_text_parts [OF ok(1)] obtain sg ip fd where
    t: "trim_double (dbl_to_string D d) = sg @ ip @ CHR ''.'' # fd"
      "sg = [] \<and> ip \<noteq> [] \<or> sg = ''-''" "\<forall>d \<in> set ip. isdigit d" "\<forall>d \<in> set fd. isdigit d"
    by blast
  then show ?thesis
    using ok(2) by (intro reads_back_number [of _ _ _ sg ip "CHR ''.'' # fd"])
      (auto simp: is_number_def is_double_def)
qed

lemma reads_backD:
  "reads_back D level v \<Longrightarrow> rest p = ws @ serialize_json D level v @ t \<Longrightarrow> \<forall>w \<in> set ws. isspace w \<Longrightarrow>
   t \<noteq> [] \<and> number_end (hd t) \<Longrightarrow> 3 * length (rest p) + 1 \<le> n \<Longrightarrow>
   parse_value D n p = Ret (v, adv (length ws + length (serialize_json D level v)) p)"
  unfolding reads_back_def by blast

lemma number_end_close [simp]: "number_end newline" "number_end (CHR '','')"
  by (simp_all add: number_end_def) (simp_all add: newline_def)

lemma skip_to_close:
  "rest p = newline # indent level @ c # t \<Longrightarrow> \<not> isspace c \<Longrightarrow>
   skip_whitespace p = adv (1 + length (indent level)) p"
  using skip_ws_stop [of p "newline # indent level" c t] indent_spaces [of level] by simp

lemma at_close:
  assumes "rest p = newline # indent level @ c # t"
  shows "rest (adv (1 + length (indent level)) p) = c # t"
    "peek (adv (1 + length (indent level)) p) = Ret c"
  using assms by (simp_all add: peek_view)

lemma skip_at_comma: "rest p = CHR '','' # t \<Longrightarrow> skip_whitespace p = p"
  by (simp add: skip_whitespace_view)

lemma parse_array_loop_items:
  assumes "\<forall>y \<in> set (x # ys). reads_back D (level + 1) y"
    and "rest p = ws @ serialize_json D (level + 1) x @ serialize_items D level False ys
      @ newline # indent level @ CHR '']'' # t"
    and "\<forall>w \<in> set ws. isspace w" and "3 * length (rest p) + 2 \<le> n"
  shows "parse_array_loop D n arr p =
    Ret (arr @ x # ys, adv (length ws + length (serialize_json D (level + 1) x)
      + length (serialize_items D level False ys) + 1 + length (indent level)) p)"
  using assms
proof (induction ys arbitrary: x p ws arr n)
  case Nil
  obtain m where m: "n = Suc m" "3 * length (rest p) + 1 \<le> m" using Nil.prems(4) by (cases n) auto
  let ?p1 = "adv (length ws + length (serialize_json D (level + 1) x)) p"
  have v: "parse_value D m p = Ret (x, ?p1)"
    using Nil.prems m(2) by (intro reads_backD [where t = "newline # indent level @ CHR '']'' # t"]) auto
  have r1: "rest ?p1 = newline # indent level @ CHR '']'' # t" using Nil.prems(2) by simp
  have s1: "skip_whitespace ?p1 = adv (1 + length (indent level)) ?p1"
    using skip_to_close [OF r1] by simp
  show ?case
    unfolding m(1) parse_array_loop.simps v obind.simps prod.case Let_def s1 at_close(2) [OF r1]
    by simp
next
  case (Cons y ys)
  obtain m where m: "n = Suc m" "3 * length (rest p) + 1 \<le> m" using Cons.prems(4) by (cases n) auto
  let ?p1 = "adv (length ws + length (serialize_json D (level + 1) x)) p"
  let ?ws' = "newline # indent level @ ''  ''"
  let ?t' = "?ws' @ serialize_json D (level + 1) y @ serialize_items D level False ys
      @ newline # indent level @ CHR '']'' # t"
  have r: "rest p = ws @ serialize_json D (level + 1) x @ CHR '','' # ?t'"
    using Cons.prems(2) by simp
  have v: "parse_value D m p = Ret (x, ?p1)"
    using Cons.prems m(2) r by (intro reads_backD [where t = "CHR '','' # ?t'"]) auto
  have r1: "rest ?p1 = CHR '','' # ?t'" using r by simp
  have r2: "rest (adv 1 ?p1) = ?t'" using r by simp
  have c: "peek ?p1 = Ret (CHR '','')" "consume ?p1 = Ret (CHR '','', adv 1 ?p1)"
    using r1 by (simp_all add: view)
  have "parse_array_loop D m (arr @ [x]) (adv 1 ?p1) =
    Ret ((arr @ [x]) @ y # ys, adv (length ?ws' + length (serialize_json D (level + 1) y)
      + length (serialize_items D level False ys) + 1 + length (indent level)) (adv 1 ?p1))"
  proof (rule Cons.IH [OF _ r2])
    show "\<forall>z \<in> set (y # ys). reads_back D (level + 1) z" using Cons.prems(1) by simp
    show "\<forall>w \<in> set ?ws'. isspace w" using indent_spaces by auto
    have "length (rest (adv 1 ?p1)) < length (rest p)" using r by simp
    then show "3 * length (rest (adv 1 ?p1)) + 2 \<le> m" using m(2) by linarith
  qed
  then show ?case
    unfolding m(1) parse_array_loop.simps v obind.simps prod.case Let_def skip_at_comma [OF r1] c
    by (simp add: ac_simps)
qed

lemma number_head:
  assumes "t \<noteq> []" "hd t = CHR ''-'' \<or> isdigit (hd t)"
  shows "\<exists>c cs. t = c # cs \<and> \<not> isspace c \<and> c \<noteq> CHR '']''"
proof -
  have "\<not> isspace (hd t)" "hd t \<noteq> CHR '']''"
    using assms(2) not_digit(10) not_isspace_sign(1) isdigit_not_space [of "hd t"] by auto
  then show ?thesis using assms(1) by (cases t) auto
qed

lemma serialize_head:
  "roundtrips D v \<Longrightarrow> \<exists>c cs. serialize_json D level v = c # cs \<and> \<not> isspace c \<and> c \<noteq> CHR '']''"
proof (induction v)
  case (JLong i)
  show ?case unfolding serialize_json.simps
    by (rule number_head) (use hd_to_string [of i] in simp_all)
next
  case (JDouble d)
  then have "decimal_text (trim_double (dbl_to_string D d))" by (simp add: double_ok_def)
  from decimal_text_parts [OF this] obtain sg ip fd where
    t: "trim_double (dbl_to_string D d) = sg @ ip @ CHR ''.'' # fd" "sg = [] \<and> ip \<noteq> [] \<or> sg = ''-''"
    "\<forall>d \<in> set ip. isdigit d" "\<forall>d \<in> set fd. isdigit d" by blast
  have "hd (sg @ ip @ CHR ''.'' # fd) = CHR ''-'' \<or> isdigit (hd (sg @ ip @ CHR ''.'' # fd))"
    using t(2,3) by (cases "sg = []") (simp_all add: hd_append)
  then show ?case unfolding serialize_json.simps t(1) by (intro number_head) simp_all
qed auto

lemma rest_adv_append: "rest p = a @ b \<Longrightarrow> k = length a \<Longrightarrow> rest (adv k p) = b"
  by simp

text \<open>What stands between the opening bracket and the closing one.\<close>

lemma parse_array_body:
  fixes f :: "'d JsonValue list \<times> parser \<Rightarrow> (std_exception, 'd JsonValue \<times> parser) outcome"
  assumes items: "\<forall>x \<in> set xs. roundtrips D x \<and> reads_back D (level + 1) x"
    and r: "rest q = newline # serialize_items D level True xs @ newline # indent level @ CHR '']'' # t"
    and k: "3 * length (rest q) + 2 \<le> k"
    and len: "len = 1 + length (serialize_items D level True xs) + 1 + length (indent level)"
  shows "obind (peek (skip_whitespace q)) (\<lambda>c.
      obind (if c \<noteq> CHR '']'' then parse_array_loop D k [] (skip_whitespace q)
        else Ret ([], skip_whitespace q)) f) = f (xs, adv len q)"
proof (cases xs)
  case Nil
  have b: "rest q = (newline # newline # indent level) @ CHR '']'' # t" using r Nil by simp
  have s: "skip_whitespace q = adv len q"
    using skip_ws_stop [OF b] indent_spaces Nil by (auto simp: len)
  have "rest (adv len q) = CHR '']'' # t" by (rule rest_adv_append [OF b]) (simp add: len Nil)
  then show ?thesis unfolding s using Nil by (simp add: peek_view)
next
  case (Cons x ys)
  define ws' where "ws' = newline # indent level @ ''  ''"
  obtain c cs where c: "serialize_json D (level + 1) x = c # cs" "\<not> isspace c" "c \<noteq> CHR '']''"
    using serialize_head items Cons by fastforce
  have b: "rest q = ws' @ serialize_json D (level + 1) x @ serialize_items D level False ys
      @ newline # indent level @ CHR '']'' # t"
    using r Cons by (simp add: ws'_def)
  have wsp: "\<forall>w \<in> set ws'. isspace w" using indent_spaces by (auto simp: ws'_def)
  define q2 where "q2 = adv (length ws') q"
  have s: "skip_whitespace q = q2"
    using skip_ws_stop [of q ws' c] b c wsp by (simp add: q2_def)
  have r2: "rest q2 = [] @ serialize_json D (level + 1) x @ serialize_items D level False ys
      @ newline # indent level @ CHR '']'' # t"
    using rest_adv_append [OF b] by (simp add: q2_def)
  have "peek q2 = Ret c" using r2 c(1) by (simp add: peek_view)
  moreover have "length (rest q2) \<le> length (rest q)" by (simp add: q2_def)
  then have "parse_array_loop D k [] q2 = Ret ([] @ x # ys, adv (length [] + length (serialize_json D (level + 1) x)
    + length (serialize_items D level False ys) + 1 + length (indent level)) q2)"
    using parse_array_loop_items [OF _ r2, of k "[]"] items Cons k by simp
  ultimately show ?thesis
    unfolding s using c(3) Cons by (simp add: q2_def ws'_def len ac_simps)
qed

lemma reads_back_array:
  assumes items: "\<forall>x \<in> set xs. roundtrips D x \<and> reads_back D (level + 1) x"
  shows "reads_back D level (JArray xs)"
  unfolding reads_back_def
proof (intro allI impI)
  fix p ws t n
  assume r: "rest p = ws @ serialize_json D level (JArray xs) @ t" and ws: "\<forall>w \<in> set ws. isspace w"
    and n: "3 * length (rest p) + 1 \<le> n"
  define body where
    "body = newline # serialize_items D level True xs @ newline # indent level @ CHR '']'' # t"
  from r have r': "rest p = ws @ CHR ''['' # body" by (simp add: body_def)
  from n have "0 < n" by simp
  from parse_value_dispatch [OF r' ws not_space(2) this] obtain q m where
    q: "q = adv (length ws) p" "n = Suc m" "skip_whitespace p = q" "peek q = Ret (CHR ''['')"
       "rest q = CHR ''['' # body" by blast
  obtain k where k: "m = Suc k" "3 * length body + 2 \<le> k" using n q(2) r' by (cases m) auto
  define q1 where "q1 = adv 1 q"
  have e1: "expect (CHR ''['') q = Ret q1" using expect_here [OF q(5)] by (simp add: q1_def)
  have r1: "rest q1 = body" using q(5) by (simp add: q1_def)
  define len where "len = 1 + length (serialize_items D level True xs) + 1 + length (indent level)"
  note body = parse_array_body [OF items r1 [unfolded body_def] _ len_def, of k, unfolded r1]
  have "rest (adv len q1) = CHR '']'' # t"
    by (rule rest_adv_append [of _ "newline # serialize_items D level True xs @ newline # indent level"])
      (simp_all add: r1 body_def len_def)
  then have e2: "expect (CHR '']'') (adv len q1) = Ret (adv 1 (adv len q1))" by (rule expect_here) simp
  have "parse_array D m q = Ret (JArray xs, adv 1 (adv len q1))"
    unfolding k(1) parse_array.simps e1 obind.simps Let_def body [OF k(2)] prod.case e2 ..
  moreover have "parse_value D n p = parse_array D m q" using q by (simp add: Let_def)
  ultimately show "parse_value D n p
      = Ret (JArray xs, adv (length ws + length (serialize_json D level (JArray xs))) p)"
    by (simp add: q1_def q(1) len_def ac_simps)
qed

subsection \<open>Objects\<close>

lemma parse_member:
  assumes r: "rest p = ws @ CHR 0x22 # key @ [CHR 0x22, CHR '':'', CHR '' ''] @ serialize_json D level v @ t"
    and ws: "\<forall>w \<in> set ws. isspace w" and key: "plain_key key" and v: "reads_back D level v"
    and t: "t \<noteq> [] \<and> number_end (hd t)" and n: "3 * length (rest p) + 1 \<le> n"
  shows "parse_string p = Ret (key, adv (length ws + length key + 2) p)"
    "expect (CHR '':'') (adv (length ws + length key + 2) p) = Ret (adv (length ws + length key + 3) p)"
    "parse_value D n (adv (length ws + length key + 3) p)
      = Ret (v, adv (length ws + length key + 4 + length (serialize_json D level v)) p)"
proof -
  show "parse_string p = Ret (key, adv (length ws + length key + 2) p)"
    using parse_string_escape [of p ws key "[CHR '':'', CHR '' ''] @ serialize_json D level v @ t"]
      r ws key by (simp add: escape_plain)
  define p1 where "p1 = adv (length ws + length key + 2) p"
  have r1: "rest p1 = CHR '':'' # CHR '' '' # serialize_json D level v @ t"
    unfolding p1_def by (rule rest_adv_append [of _ "ws @ CHR 0x22 # key @ [CHR 0x22]"]) (simp_all add: r)
  show "expect (CHR '':'') (adv (length ws + length key + 2) p) = Ret (adv (length ws + length key + 3) p)"
    using expect_here [OF r1] by (simp add: p1_def numeral_3_eq_3)
  define p2 where "p2 = adv (length ws + length key + 3) p"
  have r2: "rest p2 = '' '' @ serialize_json D level v @ t"
    unfolding p2_def
    by (rule rest_adv_append [of _ "ws @ CHR 0x22 # key @ [CHR 0x22, CHR '':'']"]) (simp_all add: r)
  have "length (rest p2) \<le> length (rest p)" by (simp add: p2_def)
  then have "parse_value D n p2 = Ret (v, adv (length '' '' + length (serialize_json D level v)) p2)"
    using n by (intro reads_backD [OF v r2 _ t]) simp_all
  then show "parse_value D n (adv (length ws + length key + 3) p)
      = Ret (v, adv (length ws + length key + 4 + length (serialize_json D level v)) p)"
    by (simp add: p2_def ac_simps)
qed

lemma parse_object_loop_members:
  assumes "\<forall>kv \<in> set ((k, v) # m). plain_key (fst kv) \<and> reads_back D (level + 1) (snd kv)"
    and "key_sorted (obj @ (k, v) # m)"
    and "rest p = ws @ CHR 0x22 # k @ [CHR 0x22, CHR '':'', CHR '' ''] @ serialize_json D (level + 1) v
      @ serialize_members D level False m @ newline # indent level @ CHR ''}'' # t"
    and "\<forall>w \<in> set ws. isspace w" and "3 * length (rest p) + 2 \<le> n"
  shows "parse_object_loop D n obj p =
    Ret (obj @ (k, v) # m, adv (length ws + length k + 4 + length (serialize_json D (level + 1) v)
      + length (serialize_members D level False m) + 1 + length (indent level)) p)"
  using assms
proof (induction m arbitrary: k v p ws obj n)
  case Nil
  obtain j where j: "n = Suc j" "3 * length (rest p) + 1 \<le> j" using Nil.prems(5) by (cases n) auto
  let ?close = "newline # indent level @ CHR ''}'' # t"
  define p3 where "p3 = adv (length ws + length k + 4 + length (serialize_json D (level + 1) v)) p"
  note mem = parse_member [of p ws k D "level + 1" v ?close j, folded p3_def]
  have m: "parse_string p = Ret (k, adv (length ws + length k + 2) p)"
      "expect (CHR '':'') (adv (length ws + length k + 2) p) = Ret (adv (length ws + length k + 3) p)"
      "parse_value D j (adv (length ws + length k + 3) p) = Ret (v, p3)"
    using mem Nil.prems j(2) by simp_all
  have r3: "rest p3 = ?close"
    unfolding p3_def by (rule rest_adv_append [of _ "ws @ CHR 0x22 # k @ [CHR 0x22, CHR '':'', CHR '' '']
        @ serialize_json D (level + 1) v"]) (use Nil.prems in simp_all)
  have s3: "skip_whitespace p3 = adv (1 + length (indent level)) p3"
    using skip_to_close [OF r3] by simp
  have "map_assign k v obj = obj @ [(k, v)]"
    using Nil.prems(2) by (intro map_assign_last) (auto simp: sorted_wrt_append)
  then show ?case
    unfolding j(1) parse_object_loop.simps m obind.simps prod.case Let_def s3 at_close(2) [OF r3]
    by (simp add: p3_def ac_simps)
next
  case (Cons kv m)
  obtain k' v' where kv: "kv = (k', v')" by (cases kv)
  obtain j where j: "n = Suc j" "3 * length (rest p) + 1 \<le> j" using Cons.prems(5) by (cases n) auto
  let ?ws' = "newline # indent level @ ''  ''"
  let ?t' = "?ws' @ CHR 0x22 # k' @ [CHR 0x22, CHR '':'', CHR '' ''] @ serialize_json D (level + 1) v'
      @ serialize_members D level False m @ newline # indent level @ CHR ''}'' # t"
  have r: "rest p = ws @ CHR 0x22 # k @ [CHR 0x22, CHR '':'', CHR '' ''] @ serialize_json D (level + 1) v
      @ CHR '','' # ?t'"
    using Cons.prems(3) kv by simp
  define p3 where "p3 = adv (length ws + length k + 4 + length (serialize_json D (level + 1) v)) p"
  note mem = parse_member [of p ws k D "level + 1" v "CHR '','' # ?t'" j, folded p3_def]
  have m: "parse_string p = Ret (k, adv (length ws + length k + 2) p)"
      "expect (CHR '':'') (adv (length ws + length k + 2) p) = Ret (adv (length ws + length k + 3) p)"
      "parse_value D j (adv (length ws + length k + 3) p) = Ret (v, p3)"
    using mem r Cons.prems(1,4) j(2) by simp_all
  have r3: "rest p3 = CHR '','' # ?t'"
    unfolding p3_def by (rule rest_adv_append [of _ "ws @ CHR 0x22 # k @ [CHR 0x22, CHR '':'', CHR '' '']
        @ serialize_json D (level + 1) v"]) (simp_all add: r)
  have c: "peek p3 = Ret (CHR '','')" "consume p3 = Ret (CHR '','', adv 1 p3)"
    using r3 by (simp_all add: view)
  have assign: "map_assign k v obj = obj @ [(k, v)]"
    using Cons.prems(2) by (intro map_assign_last) (auto simp: sorted_wrt_append)
  have "parse_object_loop D j (obj @ [(k, v)]) (adv 1 p3) =
    Ret ((obj @ [(k, v)]) @ (k', v') # m, adv (length ?ws' + length k' + 4
      + length (serialize_json D (level + 1) v') + length (serialize_members D level False m) + 1
      + length (indent level)) (adv 1 p3))"
  proof (rule Cons.IH)
    show "rest (adv 1 p3) = ?t'" using r3 by simp
    show "\<forall>w \<in> set ?ws'. isspace w" using indent_spaces by auto
    have "length (rest (adv 1 p3)) < length (rest p)" using r by (simp add: p3_def)
    then show "3 * length (rest (adv 1 p3)) + 2 \<le> j" using j(2) by linarith
  qed (use Cons.prems kv in auto)
  then show ?case
    unfolding j(1) parse_object_loop.simps m obind.simps prod.case Let_def skip_at_comma [OF r3] c assign
    by (simp add: kv p3_def ac_simps)
qed

lemma parse_object_body:
  fixes f :: "'d JsonObject \<times> parser \<Rightarrow> (std_exception, 'd JsonValue \<times> parser) outcome"
  assumes mem: "\<forall>kv \<in> set m. plain_key (fst kv) \<and> reads_back D (level + 1) (snd kv)"
    and sorted: "key_sorted m"
    and r: "rest q = newline # serialize_members D level True m @ newline # indent level @ CHR ''}'' # t"
    and k: "3 * length (rest q) + 2 \<le> k"
    and len: "len = 1 + length (serialize_members D level True m) + 1 + length (indent level)"
  shows "obind (peek (skip_whitespace q)) (\<lambda>c.
      obind (if c \<noteq> CHR ''}'' then parse_object_loop D k [] (skip_whitespace q)
        else Ret ([], skip_whitespace q)) f) = f (m, adv len q)"
proof (cases m)
  case Nil
  have b: "rest q = (newline # newline # indent level) @ CHR ''}'' # t" using r Nil by simp
  have s: "skip_whitespace q = adv len q"
    using skip_ws_stop [OF b] indent_spaces Nil by (auto simp: len)
  have "rest (adv len q) = CHR ''}'' # t" by (rule rest_adv_append [OF b]) (simp add: len Nil)
  then show ?thesis unfolding s using Nil by (simp add: peek_view)
next
  case (Cons kv m')
  obtain key v where kv: "kv = (key, v)" by (cases kv)
  define ws' where "ws' = newline # indent level @ ''  ''"
  have b: "rest q = ws' @ CHR 0x22 # key @ [CHR 0x22, CHR '':'', CHR '' ''] @ serialize_json D (level + 1) v
      @ serialize_members D level False m' @ newline # indent level @ CHR ''}'' # t"
    using r Cons kv by (simp add: ws'_def)
  have wsp: "\<forall>w \<in> set ws'. isspace w" using indent_spaces by (auto simp: ws'_def)
  define q2 where "q2 = adv (length ws') q"
  have s: "skip_whitespace q = q2" using skip_ws_stop [OF b wsp] by (simp add: q2_def)
  have r2: "rest q2 = [] @ CHR 0x22 # key @ [CHR 0x22, CHR '':'', CHR '' ''] @ serialize_json D (level + 1) v
      @ serialize_members D level False m' @ newline # indent level @ CHR ''}'' # t"
    using rest_adv_append [OF b] by (simp add: q2_def)
  have "peek q2 = Ret (CHR 0x22)" using r2 by (simp add: peek_view)
  moreover have "length (rest q2) \<le> length (rest q)" by (simp add: q2_def)
  then have "parse_object_loop D k [] q2 = Ret ([] @ (key, v) # m', adv (length [] + length key + 4
    + length (serialize_json D (level + 1) v) + length (serialize_members D level False m') + 1
    + length (indent level)) q2)"
    using parse_object_loop_members [OF _ _ r2, of "[]" k] mem sorted Cons kv k by simp
  then have "parse_object_loop D k [] q2 = Ret (m, adv len q)"
    by (simp add: q2_def ws'_def len Cons kv adv_def)
  ultimately show ?thesis unfolding s by simp
qed

lemma reads_back_object:
  assumes mem: "\<forall>kv \<in> set m. plain_key (fst kv) \<and> reads_back D (level + 1) (snd kv)"
    and sorted: "key_sorted m"
  shows "reads_back D level (JObject m)"
  unfolding reads_back_def
proof (intro allI impI)
  fix p ws t n
  assume r: "rest p = ws @ serialize_json D level (JObject m) @ t" and ws: "\<forall>w \<in> set ws. isspace w"
    and n: "3 * length (rest p) + 1 \<le> n"
  define body where
    "body = newline # serialize_members D level True m @ newline # indent level @ CHR ''}'' # t"
  from r have r': "rest p = ws @ CHR ''{'' # body" by (simp add: body_def)
  from n have "0 < n" by simp
  from parse_value_dispatch [OF r' ws not_space(4) this] obtain q i where
    q: "q = adv (length ws) p" "n = Suc i" "skip_whitespace p = q" "peek q = Ret (CHR ''{'')"
       "rest q = CHR ''{'' # body" by blast
  obtain k where k: "i = Suc k" "3 * length body + 2 \<le> k" using n q(2) r' by (cases i) auto
  define q1 where "q1 = adv 1 q"
  have e1: "expect (CHR ''{'') q = Ret q1" using expect_here [OF q(5)] by (simp add: q1_def)
  have r1: "rest q1 = body" using q(5) by (simp add: q1_def)
  define len where "len = 1 + length (serialize_members D level True m) + 1 + length (indent level)"
  note body = parse_object_body [OF mem sorted r1 [unfolded body_def] _ len_def, of k, unfolded r1]
  have "rest (adv len q1) = CHR ''}'' # t"
    by (rule rest_adv_append [of _ "newline # serialize_members D level True m @ newline # indent level"])
      (simp_all add: r1 body_def len_def)
  then have e2: "expect (CHR ''}'') (adv len q1) = Ret (adv 1 (adv len q1))" by (rule expect_here) simp
  have "parse_object D i q = Ret (JObject m, adv 1 (adv len q1))"
    unfolding k(1) parse_object.simps e1 obind.simps Let_def body [OF k(2)] prod.case e2 ..
  moreover have "parse_value D n p = parse_object D i q" using q by (simp add: Let_def)
  ultimately show "parse_value D n p
      = Ret (JObject m, adv (length ws + length (serialize_json D level (JObject m))) p)"
    by (simp add: q1_def q(1) len_def ac_simps)
qed

lemma roundtrips_reads_back: "roundtrips D v \<Longrightarrow> reads_back D level v"
proof (induction v arbitrary: level)
  case (JArray xs)
  then show ?case by (intro reads_back_array) simp
next
  case (JObject m)
  have "reads_back D (level + 1) (snd kv)" if "kv \<in> set m" for kv
    using JObject.IH [OF that, of "snd kv"] JObject.prems that by (cases kv) auto
  then show ?case using JObject.prems by (intro reads_back_object) auto
qed (simp_all add: reads_back_null reads_back_bool reads_back_long reads_back_double reads_back_string)

end
