(* ===== verification/Json_Main.thy ===== *)
theory Json_Main
  imports Json_Serializer
begin

text \<open>
  The \<open>main\<close> function of \<open>middleware/src/nonworking_json.cpp\<close>: its test documents and
  what it writes for each of them.
\<close>

datatype console = Cout string | Cerr string

definition quoted :: "string \<Rightarrow> string" where
  "quoted s = [CHR 0x22] @ s @ [CHR 0x22]"

definition json1 :: string where "json1 = ''[1, 2, 3]''"
definition json2 :: string where
  "json2 = ''{'' @ quoted ''name'' @ '': '' @ quoted ''Alice'' @ '', '' @ quoted ''age'' @ '': 30, ''
     @ quoted ''isStudent'' @ '': false, '' @ quoted ''grades'' @ '': [90, 85.5, 92], ''
     @ quoted ''address'' @ '': null}''"
definition json3 :: string where
  "json3 = ''{'' @ quoted ''key_with_escapes'' @ '': '' @ quoted (''value with '' @ [CHR 0x5C, CHR 0x22]
     @ ''quotes'' @ [CHR 0x5C, CHR 0x22] @ '' and '' @ [CHR 0x5C, CHR 0x5C] @ ''backslashes''
     @ [CHR 0x5C, CHR 0x5C] @ '' and '' @ [CHR 0x5C] @ ''nnewlines'') @ ''}''"
definition json4 :: string where
  "json4 = ''[{'' @ quoted ''a'' @ '':1}, {'' @ quoted ''b'' @ '':2}]''"
definition json5 :: string where "json5 = ''12345''"
definition json6 :: string where "json6 = ''3.14159''"
definition json7 :: string where "json7 = ''-1.2e-5''"
definition json8 :: string where "json8 = ''true''"
definition json9 :: string where "json9 = ''null''"
definition json10 :: string where "json10 = ''{}''"
definition json11 :: string where "json11 = ''[]''"
definition json12 :: string where
  "json12 = ''{'' @ quoted ''nested'' @ '': {'' @ quoted ''object'' @ '': [1, {''
     @ quoted ''array_in_object'' @ '': true}]}}''"

lemmas json_docs = json1_def json2_def json3_def json4_def json5_def json6_def json7_def json8_def
  json9_def json10_def json11_def json12_def quoted_def

definition test_jsons :: "string list" where
  "test_jsons = [json1, json2, json3, json4, json5, json6, json7, json8, json9, json10, json11, json12]"

definition invalid_jsons :: "string list" where
  "invalid_jsons =
     [''[1, 2,]'',
      ''{'' @ quoted ''a'' @ '':1 '' @ quoted ''b'' @ '':2}'',
      ''{'' @ quoted ''a'' @ '':}'',
      ''invalid'',
      ''[1,2,3 extra]'']"

definition run_test :: "'d double_lib \<Rightarrow> string \<Rightarrow> console list" where
  "run_test D s =
     Cout (newline # ''Parsing: '' @ s)
     # (case parse D s of
          Ret v \<Rightarrow> [Cout (''Parsed successfully. Type: '' @ type_name v),
                    Cout (''Serialized back:'' @ newline # serialize_json D 0 v)]
        | Throw e \<Rightarrow> [Cerr (''Error parsing JSON: '' @ what e)]
        | Diverge \<Rightarrow> [])"

definition run_invalid :: "'d double_lib \<Rightarrow> string \<Rightarrow> console list" where
  "run_invalid D s =
     Cout (newline # ''Parsing invalid: '' @ s)
     # (case parse D s of
          Ret v \<Rightarrow> [Cout ''Parsed successfully (unexpected for invalid JSON).'']
        | Throw e \<Rightarrow> [Cerr (''Caught expected error: '' @ what e)]
        | Diverge \<Rightarrow> [])"

definition json_main :: "'d double_lib \<Rightarrow> console list" where
  "json_main D =
     Cout ''--- Testing JSON Parser ---'' # concat (map (run_test D) test_jsons)
     @ Cout (newline # ''--- Testing Invalid JSON ---'') # concat (map (run_invalid D) invalid_jsons)"

fun cerr_lines :: "console list \<Rightarrow> string list" where
  "cerr_lines [] = []"
| "cerr_lines (Cerr m # out) = m # cerr_lines out"
| "cerr_lines (Cout m # out) = cerr_lines out"

lemma cerr_lines_append [simp]: "cerr_lines (xs @ ys) = cerr_lines xs @ cerr_lines ys"
  by (induction xs rule: cerr_lines.induct) auto

section \<open>Numbers at the end of the input\<close>

text \<open>
  \<open>parse_number\<close> looks for a fraction and an exponent with \<open>peek\<close>, which throws when
  nothing follows the digits.
\<close>

lemma parse_number_at_end:
  assumes "rest p = sg @ ip" "sg = [] \<and> ip \<noteq> [] \<or> sg = ''-''" "\<forall>d \<in> set ip. isdigit d"
  shows "parse_number D p = Throw end_of_input"
proof -
  have 1: "parse_sign {CHR ''-''} p = Ret (adv (length sg) p)"
    by (rule parse_sign_scan [of _ _ ip]) (use assms in \<open>auto simp: neq_Nil_conv\<close>)
  have 2: "consume_digits (adv (length sg) p) = Ret (adv (length (sg @ ip)) p)"
    using consume_digits_scan [of "adv (length sg) p" ip "[]"] assms by simp
  have 3: "parse_fraction (adv (length (sg @ ip)) p) = Throw end_of_input"
    using assms(1) by (simp add: parse_fraction_def view)
  show ?thesis unfolding parse_number_def 1 obind.simps 2 3 by simp
qed

text \<open>A concrete conversion library, in which a double is the text that denotes it.\<close>

definition text_doubles :: "string double_lib" where
  "text_doubles = \<lparr>stod = Inr, dbl_to_string = (\<lambda>t. t @ ''0000'')\<rparr>"

text \<open>The types a value can have whose text starts with a given character.\<close>

definition head_types :: "char \<Rightarrow> string set" where
  "head_types c =
     (if c = CHR 0x22 then {''string''}
      else if c = CHR ''-'' \<or> isdigit c then {''long long'', ''double''}
      else if c = CHR ''['' then {''array''}
      else if c = CHR ''{'' then {''object''}
      else if c = CHR ''t'' \<or> c = CHR ''f'' then {''bool''}
      else if c = CHR ''n'' then {''null''}
      else {})"

lemma parse_number_type: "parse_number D p = Ret (v, p') \<Longrightarrow> type_name v \<in> {''long long'', ''double''}"
  by (auto simp: parse_number_def outcome_iff Let_def split: if_splits)

lemma parse_container_type:
  "parse_array D n p = Ret (v, p') \<Longrightarrow> type_name v = ''array''"
  "parse_object D n p = Ret (v, p') \<Longrightarrow> type_name v = ''object''"
proof -
  show "parse_array D n p = Ret (v, p') \<Longrightarrow> type_name v = ''array''"
    by (cases n) (simp, metis parse_array_RetE type_name.simps(6))
  show "parse_object D n p = Ret (v, p') \<Longrightarrow> type_name v = ''object''"
    by (cases n) (simp, metis parse_object_RetE type_name.simps(7))
qed

lemma parse_value_type:
  assumes "parse_value D n p = Ret (v, p')"
  shows "\<exists>c. peek (skip_whitespace p) = Ret c \<and> type_name v \<in> head_types c"
proof -
  obtain m where n: "n = Suc m" using assms by (cases n) auto
  obtain c where c: "peek (skip_whitespace p) = Ret c" using assms n by (auto simp: Let_def obind_Ret_iff)
  have lit: "parse_literal l w q = Ret (v, p') \<Longrightarrow> v = w" for l and w :: "'a JsonValue" and q
    by (auto simp: parse_literal_def omap_Ret_iff)
  have str: "omap (\<lambda>(s, p'). (JString s, p')) m = Ret (v, p') \<Longrightarrow> type_name v = ''string''" for m
    by (auto simp: omap_Ret_iff)
  have r: "Ret (v, p') =
      (if c = CHR 0x22 then omap (\<lambda>(s, p'). (JString s, p')) (parse_string (skip_whitespace p))
       else if c = CHR ''-'' \<or> isdigit c then parse_number D (skip_whitespace p)
       else if c = CHR ''['' then parse_array D m (skip_whitespace p)
       else if c = CHR ''{'' then parse_object D m (skip_whitespace p)
       else if c = CHR ''t'' then parse_literal ''true'' (JBool True) (skip_whitespace p)
       else if c = CHR ''f'' then parse_literal ''false'' (JBool False) (skip_whitespace p)
       else if c = CHR ''n'' then parse_literal ''null'' JNull (skip_whitespace p)
       else Throw (runtime_error (''Unexpected character: '' @ [CHR 0x27, c, CHR 0x27]
              @ '' at position '' @ nat_to_string (pos (skip_whitespace p)))))"
    using assms unfolding n parse_value.simps Let_def c obind.simps by (rule sym)
  have "type_name v \<in> head_types c"
  proof (cases "c = CHR 0x22 \<or> c = CHR ''-'' \<or> isdigit c")
    case True
    then show ?thesis
      using str [of "parse_string (skip_whitespace p)"] parse_number_type [of D "skip_whitespace p" v p'] r
      by (cases "c = CHR 0x22") (simp_all only: head_types_def if_True if_False simp_thms insert_iff)
  next
    case False
    then consider "c = CHR ''[''" | "c = CHR ''{''" | "c = CHR ''t''" | "c = CHR ''f''" | "c = CHR ''n''"
      using r by (simp only: if_False simp_thms split: if_splits) blast+
    then show ?thesis
      using r False parse_container_type [OF sym, of v p'] lit [OF sym]
      by cases (simp_all add: head_types_def del: parse_array.simps parse_object.simps)
  qed
  with c show ?thesis by blast
qed

lemma guarded_sets:
  assumes "t \<in> (if A then {a} else if B then {b, b'} else if C then {c} else if D then {d} else if E then {e}
    else if F then {f} else {})"
  shows "A \<and> t = a \<or> B \<and> (t = b \<or> t = b') \<or> C \<and> t = c \<or> D \<and> t = d \<or> E \<and> t = e \<or> F \<and> t = f"
  using assms by (simp split: if_splits)

lemma head_types_accessors:
  assumes "type_name v \<in> head_types c"
  shows "(returns (get_string v) \<longleftrightarrow> c = CHR 0x22)
    \<and> ((returns (get_long v) \<noteq> returns (get_double v)) \<longleftrightarrow> c = CHR ''-'' \<or> isdigit c)
    \<and> \<not> (returns (get_long v) \<and> returns (get_double v))
    \<and> (returns (get_array v) \<longleftrightarrow> c = CHR ''['') \<and> (returns (get_object v) \<longleftrightarrow> c = CHR ''{'')
    \<and> (returns (get_bool v) \<longleftrightarrow> c = CHR ''t'' \<or> c = CHR ''f'') \<and> (is_null v \<longleftrightarrow> c = CHR ''n'')
    \<and> (c = CHR 0x22 \<or> c = CHR ''-'' \<or> isdigit c \<or> c = CHR ''['' \<or> c = CHR ''{'' \<or> c = CHR ''t''
      \<or> c = CHR ''f'' \<or> c = CHR ''n'')"
proof -
  have d: "isdigit c \<Longrightarrow> c \<noteq> CHR 0x22 \<and> c \<noteq> CHR ''['' \<and> c \<noteq> CHR ''{'' \<and> c \<noteq> CHR ''t'' \<and> c \<noteq> CHR ''f'' \<and> c \<noteq> CHR ''n''"
    using not_digit(1-6) by metis
  note q = accessors_agree type_name_queries [symmetric]
  consider "c = CHR 0x22" "type_name v = ''string''"
    | "c = CHR ''-'' \<or> isdigit c" "type_name v = ''long long'' \<or> type_name v = ''double''"
    | "c = CHR ''[''" "type_name v = ''array''" | "c = CHR ''{''" "type_name v = ''object''"
    | "c = CHR ''t'' \<or> c = CHR ''f''" "type_name v = ''bool''" | "c = CHR ''n''" "type_name v = ''null''"
    using guarded_sets [OF assms [unfolded head_types_def]] by argo
  then show ?thesis
  proof cases
    case 2
    then show ?thesis using d by (elim disjE) (simp_all add: q)
  next
    case 5
    then show ?thesis using d by (elim disjE) (simp_all add: q)
  qed (use d in \<open>simp_all add: q\<close>)
qed

section \<open>Properties of the JSON component\<close>

text \<open>
  C1: parsing the text that \<open>serialize_json\<close> produces gives back the value serialized, for every value that is
  not itself a number and in which every integer is in the range of \<open>long long\<close>, every object has its keys in the
  order of \<open>std::map\<close> and none of them with a quote or backslash, and every double is written as a decimal that
  still has its point after the trailing zeros are trimmed and that \<open>std::stod\<close> reads back.  A document
  that is only a number is excluded because the parser rejects the text of an integer without anything after it,
  and a double such as 2.0 because it is written as 2 and read back as an integer.
\<close>

theorem json_roundtrip:
  assumes "roundtrips D v" "\<not> is_number v"
  shows "parse D (serialize_json D 0 v) = Ret v"
proof -
  let ?s = "serialize_json D 0 v"
  have "parse_value D (parse_fuel ?s) (JsonParser ?s) = Ret (v, adv (length ?s) (JsonParser ?s))"
    using roundtrips_reads_back [OF assms(1), of 0] assms(2)
    unfolding reads_back_def
    by (elim allE [of _ "JsonParser ?s"] allE [of _ "[]"] allE [of _ "parse_fuel ?s"])
      (auto simp: parse_fuel_def)
  moreover have "skip_whitespace (adv (length ?s) (JsonParser ?s)) = adv (length ?s) (JsonParser ?s)"
    by (simp add: skip_whitespace_view)
  ultimately show ?thesis
    by (simp add: parse_def) (simp add: adv_def JsonParser_def)
qed

theorem json_roundtrip_witness:
  "let v = JObject [(''a'', JArray [JLong (- 7), JDouble ''85.5'', JNull]), (''b'', JString [CHR 0x22])]
   in roundtrips text_doubles v \<and> \<not> is_number v
      \<and> parse text_doubles (serialize_json text_doubles 0 v) = Ret v"
proof -
  have *: "roundtrips text_doubles (JObject [(''a'', JArray [JLong (- 7), JDouble ''85.5'', JNull]), (''b'', JString [CHR 0x22])])"
    "\<not> is_number (JObject [(''a'', JArray [JLong (- 7), JDouble ''85.5'', JNull]), (''b'', JString [CHR 0x22 :: char])] :: string JsonValue)"
    by code_simp+
  show ?thesis using * json_roundtrip [OF *] by (simp only: Let_def) simp
qed

text \<open>
  C3: the parser terminates on every input: with the fuel that \<open>parse\<close> supplies the
  recursion has ended, and no larger amount of fuel changes the result.
\<close>

theorem json_parse_total:
  "parse D s \<noteq> Diverge
   \<and> parse_value D (parse_fuel s + k) (JsonParser s) = parse_value D (parse_fuel s) (JsonParser s)"
proof
  show "parse D s \<noteq> Diverge"
    using parse_value_total [of D s] by (auto simp: parse_def outcome_iff Let_def split: if_splits)
  show "parse_value D (parse_fuel s + k) (JsonParser s) = parse_value D (parse_fuel s) (JsonParser s)"
    by (rule parse_value_fuel_irrelevant [OF parse_value_total]) simp
qed

text \<open>
  a value returned by the parser is well formed: its integers fit \<open>long long\<close> and the
  entries of every object are in strictly ascending key order, one per key.
\<close>

theorem json_parse_wf:
  assumes "parse D s = Ret v"
  shows "json_wf v"
  using assms by (auto simp: parse_def outcome_iff Let_def split: if_splits dest: parse_wf(1))

theorem json_parse_wf_witness:
  "\<exists>v. parse text_doubles (''{'' @ quoted ''b'' @ '':1,'' @ quoted ''a'' @ '':[2 ],'' @ quoted ''b'' @ '':3}'') = Ret v
       \<and> v = JObject [(''a'', JArray [JLong 2]), (''b'', JLong 3)] \<and> json_wf v"
proof -
  have "parse text_doubles (''{'' @ quoted ''b'' @ '':1,'' @ quoted ''a'' @ '':[2 ],'' @ quoted ''b'' @ '':3}'')
      = Ret (JObject [(''a'', JArray [JLong 2]), (''b'', JLong 3)])"
    by code_simp
  then show ?thesis using json_parse_wf by blast
qed

text \<open>
  C7: the first character of a document that is not white space decides which accessor of the parsed value
  succeeds, and the others throw: a quote gives a string, a minus sign or a digit a number (held as \<open>long long\<close> or
  as \<open>double\<close>, one of the two), a bracket an array, a brace an object, t or f a truth value and n null; no document
  that starts with another character is accepted.
\<close>

theorem json_parse_type:
  assumes "parse D s = Ret v"
  shows "\<exists>c t. dropWhile isspace s = c # t
    \<and> (returns (get_string v) \<longleftrightarrow> c = CHR 0x22)
    \<and> ((returns (get_long v) \<noteq> returns (get_double v)) \<longleftrightarrow> c = CHR ''-'' \<or> isdigit c)
    \<and> \<not> (returns (get_long v) \<and> returns (get_double v))
    \<and> (returns (get_array v) \<longleftrightarrow> c = CHR ''['') \<and> (returns (get_object v) \<longleftrightarrow> c = CHR ''{'')
    \<and> (returns (get_bool v) \<longleftrightarrow> c = CHR ''t'' \<or> c = CHR ''f'') \<and> (is_null v \<longleftrightarrow> c = CHR ''n'')
    \<and> (c = CHR 0x22 \<or> c = CHR ''-'' \<or> isdigit c \<or> c = CHR ''['' \<or> c = CHR ''{'' \<or> c = CHR ''t'' \<or> c = CHR ''f'' \<or> c = CHR ''n'')"
proof -
  obtain p where "parse_value D (parse_fuel s) (JsonParser s) = Ret (v, p)"
    using assms by (auto simp: parse_def outcome_iff Let_def split: if_splits)
  from parse_value_type [OF this] obtain c
    where c: "peek (skip_whitespace (JsonParser s)) = Ret c" "type_name v \<in> head_types c" by blast
  then obtain t where t: "dropWhile isspace s = c # t"
    by (auto simp: peek_view skip_whitespace_view dropWhile_eq_drop split: list.splits)
  from conjI [OF t head_types_accessors [OF c(2)]] show ?thesis by (intro exI)
qed

theorem json_parse_type_witness:
  "\<exists>c t. dropWhile isspace '' []'' = c # t \<and> (returns (get_array (JArray [] :: string JsonValue)) \<longleftrightarrow> c = CHR ''['')"
proof -
  have "parse text_doubles '' []'' = Ret (JArray [])" by code_simp
  from json_parse_type [OF this] show ?thesis
    by (elim exE conjE) (rule exI, rule exI, rule conjI, assumption, assumption)
qed

text \<open>
  C8: a successful \<open>parse_value\<close> consumes at least one character, never runs past the end
  of the input and leaves the input itself unchanged.
\<close>

theorem json_parse_progress:
  assumes "parse_value D n p = Ret (v, p')" "parser_ok p"
  shows "pos p < pos p' \<and> pos p' \<le> length (json_str p') \<and> json_str p' = json_str p"
  using parse_progress(1) [OF assms(1)] assms(2) by (auto simp: lt_pos_def le_pos_def parser_ok_def)

theorem json_parse_progress_witness:
  "\<exists>v p'. parse_value text_doubles 9 (JsonParser json10) = Ret (v, p') \<and> parser_ok (JsonParser json10)
       \<and> 0 < pos p' \<and> pos p' \<le> 2"
proof -
  have *: "parse_value text_doubles 9 (JsonParser json10) = Ret (JObject [], \<lparr>json_str = json10, pos = 2\<rparr>)"
    by code_simp
  show ?thesis using json_parse_progress [OF *] * by (auto simp: JsonParser_def parser_ok_def json10_def)
qed

text \<open>
  C36: a document that is just an integer is rejected, whatever its digits: the number is
  scanned to the end of the input, where the look-ahead for a fraction throws.
\<close>

theorem json_bare_integer_rejected:
  assumes "sg \<in> {[], ''-''}" "ds \<noteq> []" "list_all isdigit ds"
  shows "parse D (sg @ ds) = Throw end_of_input"
proof -
  obtain d ds' where ds: "ds = d # ds'" "isdigit d" using assms(2,3) by (cases ds) auto
  then have d: "\<not> isspace d" "d \<noteq> CHR 0x22" using isdigit_not_space not_digit(1) by blast+
  obtain c t where c: "sg @ ds = c # t" "c = CHR ''-'' \<or> isdigit c" "\<not> isspace c" "c \<noteq> CHR 0x22"
    using assms(1) ds d by fastforce
  have "skip_whitespace (JsonParser (sg @ ds)) = JsonParser (sg @ ds)"
    using c by (simp add: skip_whitespace_view)
  moreover have "parse_number D (JsonParser (sg @ ds)) = Throw end_of_input"
    by (rule parse_number_at_end [of _ sg ds]) (use assms in \<open>auto simp: list_all_iff\<close>)
  moreover obtain n where "parse_fuel (sg @ ds) = Suc n" by (simp add: parse_fuel_def)
  ultimately show ?thesis
    using c by (simp add: parse_def peek_view)
qed

theorem json_bare_integer_rejected_witness:
  "parse text_doubles json5 = Throw end_of_input"
  using json_bare_integer_rejected [of "[]" "''12345''" text_doubles]
  by (simp add: json5_def isdigit_def)

text \<open>
  C27: the error stream of \<open>main\<close>, line by line: of the twelve test documents exactly the two
  bare numbers without an exponent, \<open>json5\<close> and \<open>json6\<close>, are reported as errors, and all
  five documents meant to be invalid are rejected, each with its own message.
\<close>

theorem json_main_errors:
  assumes "stod D ''85.5'' = Inr x" "stod D ''-1.2e-5'' = Inr y"
  shows "cerr_lines (json_main D) =
    [''Error parsing JSON: Unexpected end of input'', ''Error parsing JSON: Unexpected end of input'',
     ''Caught expected error: Unexpected character: '' @ [CHR 0x27] @ '']'' @ [CHR 0x27] @ '' at position 6'',
     ''Caught expected error: Expected '' @ [CHR 0x27] @ '','' @ [CHR 0x27] @ '' or '' @ [CHR 0x27] @ ''}'' @ [CHR 0x27]
       @ '' in object'',
     ''Caught expected error: Unexpected character: '' @ [CHR 0x27] @ ''}'' @ [CHR 0x27] @ '' at position 5'',
     ''Caught expected error: Unexpected character: '' @ [CHR 0x27] @ ''i'' @ [CHR 0x27] @ '' at position 0'',
     ''Caught expected error: Expected '' @ [CHR 0x27] @ '','' @ [CHR 0x27] @ '' or '' @ [CHR 0x27] @ '']'' @ [CHR 0x27]
       @ '' in array'']"
proof -
  have "cerr_lines (run_test D s) = []" if "returns (parse D s)" for s
    using that by (cases "parse D s") (simp_all add: run_test_def)
  moreover have "returns (parse D json2)" "returns (parse D json7)"
    by (code_simp, simp only: assms, code_simp)+
  ultimately have quiet: "cerr_lines (run_test D json2) = []" "cerr_lines (run_test D json7) = []" by blast+
  have "cerr_lines (concat (map (run_test D) [json1, json3, json4])) = []"
    "cerr_lines (run_test D json5) = [''Error parsing JSON: Unexpected end of input'']"
    "cerr_lines (run_test D json6) = [''Error parsing JSON: Unexpected end of input'']"
    "cerr_lines (concat (map (run_test D) [json8, json9, json10, json11, json12])) = []"
    by code_simp+
  then have "cerr_lines (concat (map (run_test D) test_jsons))
      = [''Error parsing JSON: Unexpected end of input'', ''Error parsing JSON: Unexpected end of input'']"
    using quiet by (simp add: test_jsons_def)
  then show ?thesis
    unfolding json_main_def cerr_lines.simps cerr_lines_append by (simp only:) code_simp
qed

theorem json_main_errors_witness:
  "stod text_doubles ''85.5'' = Inr ''85.5'' \<and> stod text_doubles ''-1.2e-5'' = Inr ''-1.2e-5''
   \<and> length (cerr_lines (json_main text_doubles)) = 7"
  using json_main_errors [of text_doubles "''85.5''" "''-1.2e-5''"]
  by (simp add: text_doubles_def)

text \<open>
  object keys are written without escaping, so an object with a quote in a key is written
  as a text the parser rejects.
\<close>

theorem json_key_not_escaped:
  "throws (parse D (serialize_json D 0 (JObject [([CHR 0x22], JNull)])))"
  by code_simp

end
