(* ===== verification/Small_Json.thy ===== *)
theory Small_Json
  imports Cxx_Lib
begin

text \<open>
  The small JSON node types: \<open>struct SmallString\<close> of \<open>cjunk/practice/smallString.cc\<close>,
  \<open>struct Node\<close> with its \<open>JsonVisitor\<close> of \<open>cjunk/trivialJson/json.hpp\<close> and
  \<open>json.cpp\<close>, and \<open>class JsonNode\<close> of \<open>cjunk/trivialJson/SmallMemoryModel.cpp\<close>.
  All three keep short texts in an array of eight characters padded with NULs.
\<close>

section \<open>Eight characters\<close>

definition pad8 :: "string \<Rightarrow> string" where
  "pad8 s = s @ replicate (8 - length s) NUL"

lemma until_nul_pad8: "until_nul (pad8 s) = until_nul s"
  by (simp add: pad8_def until_nul_append)

lemma length_pad8: "length s \<le> 8 \<Longrightarrow> length (pad8 s) = 8"
  by (simp add: pad8_def)

section \<open>struct SmallString\<close>

definition SmallString :: "string \<Rightarrow> string" where
  "SmallString str =
     (let characters = replicate 8 NUL; n = min (length str) (length characters)
      in take n str @ drop n characters)"

fun find_index :: "char \<Rightarrow> string \<Rightarrow> nat" where
  "find_index c [] = 0"
| "find_index c (d # ds) = (if d = c then 0 else Suc (find_index c ds))"

definition SmallString_size :: "string \<Rightarrow> nat" where
  "SmallString_size characters = find_index NUL characters"

definition SmallString_view :: "string \<Rightarrow> string" where
  "SmallString_view characters = take (SmallString_size characters) characters"

text \<open>The exit status of \<open>main\<close>: the size of the one-letter string it builds.\<close>

definition smallString_main :: "(string \<times> nat) \<times> nat" where
  "smallString_main = (let a = SmallString ''A'' in ((SmallString_view a, SmallString_size a), SmallString_size a))"

lemma take_find_index: "take (find_index NUL s) s = until_nul s"
  by (induction s) (auto simp: until_nul_def)

lemma find_index_until: "find_index NUL s = length (until_nul s)"
  by (induction s) (auto simp: until_nul_def)

lemma SmallString_pad8: "SmallString s = pad8 (take 8 s)"
  by (simp add: SmallString_def pad8_def min_def)

section \<open>struct Node and JsonVisitor\<close>

text \<open>
  The alternatives of \<open>Node::Storage\<close>.  A \<open>ListPtr\<close> may be null (\<open>None\<close>).
  \<open>double\<close> is the type parameter, printed by \<open>std::to_string\<close>.
\<close>

datatype 'd Node =
    NSmall string
  | NInt int
  | NDouble 'd
  | NList "'d Node list option"

definition Node_default :: "'d Node" where
  "Node_default = NSmall (replicate 8 NUL)"

definition Node_int :: "int \<Rightarrow> 'd Node" where
  "Node_int i = NInt (signed_take_bit 63 i)"

text \<open>\<open>Node::length\<close> counts the characters of a C string up to and including its terminating NUL.\<close>

fun Node_length :: "string \<Rightarrow> nat" where
  "Node_length [] = 1"
| "Node_length (c # cs) = (if c \<noteq> NUL then Node_length cs + 1 else 1)"

definition Node_cstr :: "string \<Rightarrow> 'd Node" where
  "Node_cstr s =
     (let d = replicate 8 NUL; n = min (Node_length s) 8
      in NSmall (take n (s @ [NUL]) @ drop n d))"

fun join_comma :: "bool \<Rightarrow> string list \<Rightarrow> string" where
  "join_comma first [] = []"
| "join_comma first (t # ts) = (if first then t else CHR '','' # t) @ join_comma False ts"

fun visit_node :: "('d \<Rightarrow> string) \<Rightarrow> 'd Node \<Rightarrow> string" where
  "visit_node D (NList None) = ''nullptr!!!''"
| "visit_node D (NList (Some o')) = ''['' @ join_comma True (map (visit_node D) o') @ '']''"
| "visit_node D (NSmall str) = [CHR 0x22] @ until_nul str @ [CHR 0x22]"
| "visit_node D (NInt i) = to_string i"
| "visit_node D (NDouble d) = D d"

definition serialize_node :: "('d \<Rightarrow> string) \<Rightarrow> 'd Node \<Rightarrow> string" where
  "serialize_node D v = visit_node D v"

definition print_node :: "('d \<Rightarrow> string) \<Rightarrow> string \<Rightarrow> 'd Node \<Rightarrow> string" where
  "print_node D os v = os @ serialize_node D v"

text \<open>
  The test cases of \<open>tests/main.cpp\<close>: what a number, a default node and a text are expected to print
  and what they print.  \<open>d\<close> is the number \<open>1.1\<close>.
\<close>

definition serialize_tests :: "('d \<Rightarrow> string) \<Rightarrow> 'd \<Rightarrow> (string \<times> string) list" where
  "serialize_tests D d =
     [(''1.100000'', serialize_node D (NDouble d)),
      ([CHR 0x22, CHR 0x22], serialize_node D Node_default),
      ([CHR 0x22] @ ''Cat'' @ [CHR 0x22], serialize_node D (Node_cstr ''Cat''))]"

lemma Node_length_plain: "NUL \<notin> set s \<Longrightarrow> Node_length s = length s + 1"
  by (induction s) auto

lemma Node_cstr_pad8:
  assumes "NUL \<notin> set s"
  shows "Node_cstr s = NSmall (pad8 (take 8 s))"
proof (cases "length s < 8")
  case True
  then have "8 - length s = Suc (7 - length s)" by simp
  with True assms show ?thesis by (simp add: Node_cstr_def Node_length_plain pad8_def min_def)
next
  case False
  with assms show ?thesis by (simp add: Node_cstr_def Node_length_plain pad8_def min_def)
qed

lemma join_comma_False: "join_comma False ts = concat (map (\<lambda>t. CHR '','' # t) ts)"
  by (induction ts) auto

section \<open>class JsonNode\<close>

datatype 'd JsonNode =
    SNull
  | SBool bool
  | SLong int
  | SDouble 'd
  | SSmall string
  | SString string
  | SMap "(string \<times> 'd JsonNode) list"
  | SList "'d JsonNode list"

definition JsonNode_bool :: "bool \<Rightarrow> 'd JsonNode" where
  "JsonNode_bool b = SBool b"

definition JsonNode_long :: "int \<Rightarrow> 'd JsonNode" where
  "JsonNode_long i = SLong i"

definition JsonNode_double :: "'d \<Rightarrow> 'd JsonNode" where
  "JsonNode_double d = SDouble d"

definition JsonNode_view :: "string \<Rightarrow> 'd JsonNode" where
  "JsonNode_view sv = (if length sv \<le> 8 then SSmall (sv @ drop (length sv) (replicate 8 NUL)) else SString sv)"

text \<open>
  A string literal decays to a pointer.  Its conversion to \<open>bool\<close> is a standard conversion and
  is preferred to the user-defined one to \<open>std::string_view\<close>; the pointer is not null.
\<close>

definition JsonNode_literal :: "string \<Rightarrow> 'd JsonNode" where
  "JsonNode_literal s = JsonNode_bool True"

text \<open>The copy operations: unique pointers are cloned, everything else is copied.\<close>

fun JsonNode_copy :: "'d JsonNode \<Rightarrow> 'd JsonNode" where
  "JsonNode_copy (SString s) = SString s"
| "JsonNode_copy (SMap m) = SMap (map (\<lambda>kv. (fst kv, JsonNode_copy (snd kv))) m)"
| "JsonNode_copy (SList xs) = SList (map JsonNode_copy xs)"
| "JsonNode_copy v = v"

definition JsonNode_assign :: "bool \<Rightarrow> 'd JsonNode \<Rightarrow> 'd JsonNode \<Rightarrow> 'd JsonNode" where
  "JsonNode_assign same this arg = (if same then this else JsonNode_copy arg)"

text \<open>\<open>get<T>\<close> for the alternatives that can be returned by value.\<close>

definition JsonNode_get_bool :: "'d JsonNode \<Rightarrow> (std_exception, bool) outcome" where
  "JsonNode_get_bool v = (case v of SBool b \<Rightarrow> Ret b | _ \<Rightarrow> Throw bad_variant_access)"

definition JsonNode_get_long :: "'d JsonNode \<Rightarrow> (std_exception, int) outcome" where
  "JsonNode_get_long v = (case v of SLong i \<Rightarrow> Ret i | _ \<Rightarrow> Throw bad_variant_access)"

definition JsonNode_get_small :: "'d JsonNode \<Rightarrow> (std_exception, string) outcome" where
  "JsonNode_get_small v = (case v of SSmall s \<Rightarrow> Ret s | _ \<Rightarrow> Throw bad_variant_access)"

text \<open>The nodes \<open>test_json_types\<close> leaves in its variables, \<open>node1\<close> to \<open>node5\<close> and \<open>node8\<close>.\<close>

definition test_json_types :: "'d \<Rightarrow> 'd JsonNode list" where
  "test_json_types x =
     (let node1 = JsonNode_bool True; node2 = JsonNode_bool False; node3 = JsonNode_long 3;
          node4 = JsonNode_double x; node5 = JsonNode_literal ''hello'';
          node4' = JsonNode_assign False node4 node5; node8 = JsonNode_copy node3
      in [node1, node2, node3, node4', node5, node8])"

text \<open>The text a node made from a \<open>string_view\<close> stands for.\<close>

definition node_text :: "'d JsonNode \<Rightarrow> string option" where
  "node_text v = (case v of SSmall s \<Rightarrow> Some (until_nul s) | SString s \<Rightarrow> Some s | _ \<Rightarrow> None)"

lemma JsonNode_copy_id: "JsonNode_copy v = v"
proof (induction v)
  case (SMap m)
  then have "\<forall>kv \<in> set m. (fst kv, JsonNode_copy (snd kv)) = kv" by fastforce
  then show ?case by (simp add: map_idI)
qed (simp_all add: map_idI)

section \<open>Properties of the small node types\<close>

text \<open>
  the view of a small string is its argument cut at eight characters and at the first NUL, and
  its size is the length of that; both are exact for texts of at most eight characters without NUL.
\<close>

theorem small_string_view:
  "SmallString_view (SmallString s) = until_nul (take 8 s)
   \<and> SmallString_size (SmallString s) = length (until_nul (take 8 s))
   \<and> length (SmallString s) = 8
   \<and> (SmallString_view (SmallString s) = s \<longleftrightarrow> length s \<le> 8 \<and> NUL \<notin> set s)"
proof -
  have v: "SmallString_view (SmallString s) = until_nul (take 8 s)"
    by (simp add: SmallString_view_def SmallString_size_def take_find_index SmallString_pad8 until_nul_pad8)
  have "until_nul (take 8 s) = s \<longleftrightarrow> length s \<le> 8 \<and> NUL \<notin> set s"
  proof
    assume *: "until_nul (take 8 s) = s"
    then have "length s \<le> length (take 8 s)" by (metis length_takeWhile_le until_nul_def)
    moreover have "NUL \<notin> set s" using * by (metis set_takeWhileD until_nul_def)
    ultimately show "length s \<le> 8 \<and> NUL \<notin> set s" by simp
  qed simp
  with v show ?thesis
    by (simp add: SmallString_size_def find_index_until SmallString_pad8 until_nul_pad8 length_pad8)
qed

text \<open>
  a node made from a C string keeps its first eight characters and prints them between quotes;
  longer texts are truncated without an error.
\<close>

theorem node_cstr_serialize:
  assumes "NUL \<notin> set s"
  shows "serialize_node D (Node_cstr s) = [CHR 0x22] @ take 8 s @ [CHR 0x22]"
proof -
  have "NUL \<notin> set (take 8 s)" using assms by (meson in_set_takeD)
  then show ?thesis
    using assms by (simp add: serialize_node_def Node_cstr_pad8 until_nul_pad8)
qed

lemma serialize_tests_pass: "D d = ''1.100000'' \<Longrightarrow> \<forall>(expected, actual) \<in> set (serialize_tests D d). expected = actual"
  by (simp add: serialize_tests_def serialize_node_def Node_default_def Node_cstr_pad8 until_nul_pad8)

theorem node_cstr_serialize_witness:
  "NUL \<notin> set ''truncated'' \<and> serialize_node (\<lambda>_ :: nat. []) (Node_cstr ''truncated'') = [CHR 0x22] @ ''truncate'' @ [CHR 0x22]"
  using node_cstr_serialize [of "''truncated''" "\<lambda>_ :: nat. []"] by simp

text \<open>
  a list node prints its elements in order, separated by single commas, between brackets; every
  stored integer prints as the decimal text that reads back to it.
\<close>

theorem node_list_serialize:
  "serialize_node D (NList (Some (v # vs)))
     = ''['' @ serialize_node D v @ concat (map (\<lambda>w. CHR '','' # serialize_node D w) vs) @ '']''
   \<and> stoll (serialize_node D (Node_int i)) = Ret (signed_take_bit 63 i)"
proof -
  have "- (2 ^ 63) \<le> signed_take_bit 63 i" "signed_take_bit 63 i < 2 ^ 63"
    using signed_take_bit_int_greater_eq_minus_exp signed_take_bit_int_less_exp by blast+
  then have "stoll (to_string (signed_take_bit 63 i)) = Ret (signed_take_bit 63 i)"
    by (intro stoll_to_string) (simp_all add: LLONG_MIN_def LLONG_MAX_def)
  then show ?thesis by (simp add: serialize_node_def Node_int_def join_comma_False comp_def)
qed

text \<open>
  a text given as a \<open>string_view\<close> is kept in full, small or on the heap, and copying a node
  yields an equal node at every depth.
\<close>

theorem json_node_view_copy:
  fixes v w :: "'d JsonNode"
  assumes "NUL \<notin> set s"
  shows "node_text (JsonNode_copy (JsonNode_view s :: 'd JsonNode)) = Some s
    \<and> JsonNode_assign b v w = (if b then v else w)"
  using assms by (simp add: JsonNode_copy_id JsonNode_assign_def)
    (simp add: JsonNode_view_def node_text_def until_nul_append)

theorem json_node_view_copy_witness:
  "node_text (JsonNode_copy (JsonNode_view ''hello'' :: nat JsonNode)) = Some ''hello''"
  using json_node_view_copy [of "''hello''" True "SNull :: nat JsonNode" SNull] by simp

text \<open>
  a node constructed from a string literal holds the boolean \<open>true\<close> and no text: in
  \<open>test_json_types\<close> the node built from \<open>"hello"\<close> and the one assigned from it both do.
\<close>

theorem json_node_literal_is_bool:
  "test_json_types x = [SBool True, SBool False, SLong 3, SBool True, SBool True, SLong 3]
   \<and> throws (JsonNode_get_small (test_json_types x ! 4)) \<and> node_text (test_json_types x ! 4) = None"
  by (simp add: test_json_types_def Let_def JsonNode_bool_def JsonNode_long_def JsonNode_literal_def
      JsonNode_assign_def JsonNode_get_small_def node_text_def)

end
