(* ===== verification/Node_Variants.thy ===== *)
theory Node_Variants
  imports Small_Json
begin

text \<open>
  The generating constructors of the JSON node: those of \<open>cjunk/trivialJson/json.hpp\<close> that
  \<open>Small_Json\<close> leaves out, and the rewritten node of \<open>cjunk/practice/json-node2.hpp\<close>, whose
  short texts are copied into an array that is not initialised.  Both structures have the same
  \<open>Storage\<close>, modelled by the type \<open>Node\<close>.  The constructor of a list also returns the lines that it
  and the generators write to the standard streams.
\<close>

section \<open>json.hpp\<close>

definition Node_storage :: "'d Node \<Rightarrow> 'd Node" where
  "Node_storage obj = obj"

definition generator_int :: "int \<Rightarrow> 'd Node" where
  "generator_int i = NInt (signed_take_bit 63 i)"

definition generator_storage :: "'d Node \<Rightarrow> 'd Node" where
  "generator_storage thingy = thingy"

section \<open>json-node2.hpp\<close>

text \<open>
  The small text: \<open>thingy\<close> is a pointer, so at most \<open>sizeof(thingy)\<close> = 8 characters are copied,
  the terminating NUL included; \<open>garbage\<close> is what the array held.
\<close>

definition generator2_small :: "string \<Rightarrow> string \<Rightarrow> 'd Node" where
  "generator2_small garbage thingy =
     (let temp = until_nul thingy; len = min (length temp + 1) 8
      in NSmall (take len (temp @ [NUL]) @ drop len garbage))"

definition generator2_int :: "int \<Rightarrow> 'd Node" where
  "generator2_int i = NInt (signed_take_bit 63 i)"

definition generator2_storage :: "'d Node \<Rightarrow> 'd Node" where
  "generator2_storage thingy = thingy"

definition Node2_int :: "int \<Rightarrow> 'd Node" where
  "Node2_int i = NInt (signed_take_bit 63 i)"

definition Node2_storage :: "'d Node \<Rightarrow> 'd Node" where
  "Node2_storage obj = obj"

definition Node2_text :: "string \<Rightarrow> string \<Rightarrow> 'd Node" where
  "Node2_text garbage obj = generator2_small garbage obj"

text \<open>The arguments of the variadic constructor, by the overload of \<open>generator\<close> each selects.\<close>

datatype 'd node_arg = Int_arg int | Storage_arg "'d Node" | Text_arg string

fun generator2 :: "string \<Rightarrow> 'd node_arg \<Rightarrow> 'd Node" where
  "generator2 garbage (Int_arg i) = generator2_int i"
| "generator2 garbage (Storage_arg v) = generator2_storage v"
| "generator2 garbage (Text_arg s) = generator2_small garbage s"

fun generator2_log :: "'d node_arg \<Rightarrow> string list" where
  "generator2_log (Text_arg s) = [''constructing small string'']"
| "generator2_log (Int_arg i) = []"
| "generator2_log (Storage_arg v) = []"

definition Node2_list :: "string \<Rightarrow> 'd node_arg list \<Rightarrow> string list \<times> 'd Node" where
  "Node2_list garbage args =
     (''variadic template constructor'' # concat (map generator2_log args),
      NList (Some (map (generator2 garbage) args)))"

section \<open>Properties\<close>

lemma generator2_small_text:
  assumes "length garbage = 8"
  shows "visit_node D (generator2_small garbage s) = [CHR 0x22] @ take 8 (until_nul s) @ [CHR 0x22]"
proof -
  have plain: "NUL \<notin> set (until_nul s)" by (auto simp: until_nul_def dest: set_takeWhileD)
  then have "NUL \<notin> set (take 8 (until_nul s))" by (meson in_set_takeD)
  with plain assms show ?thesis
    by (cases "length (until_nul s) < 8")
      (simp_all add: generator2_small_def Let_def min_def until_nul_append)
qed

lemma until_nul_take: "until_nul (take n xs) = take n (until_nul xs)"
proof (induction xs arbitrary: n)
  case (Cons x xs)
  then show ?case by (cases n) (simp_all add: until_nul_def)
qed (simp add: until_nul_def)

lemma until_nul_cstr: "serialize_node D (Node_cstr s) = [CHR 0x22] @ take 8 (until_nul s) @ [CHR 0x22]"
proof -
  have len: "Node_length s = length (until_nul s) + 1" by (induction s) (auto simp: until_nul_def)
  have "until_nul (take n (s @ [NUL]) @ drop n (replicate 8 NUL)) = until_nul (take n (s @ [NUL]))" for n
    by (simp add: until_nul_append)
  moreover have "until_nul (take n (s @ [NUL])) = take n (until_nul s)" for n
    unfolding until_nul_take by (simp add: until_nul_append)
  ultimately show ?thesis by (simp add: serialize_node_def Node_cstr_def Let_def len min_def)
qed

text \<open>
  the rewritten node prints a text exactly as the first one does, its first eight characters
  up to a NUL between quotes, whatever the uninitialised array held.
\<close>

theorem node2_text_equivalent:
  assumes "length garbage = 8"
  shows "serialize_node D (Node2_text garbage s) = serialize_node D (Node_cstr s)"
  by (simp add: until_nul_cstr) (simp add: serialize_node_def Node2_text_def generator2_small_text [OF assms])

theorem node2_text_equivalent_witness:
  "serialize_node (\<lambda>_ :: nat. []) (Node2_text ''xxxxxxxx'' ''abc'') = serialize_node (\<lambda>_ :: nat. []) (Node_cstr ''abc'')"
  using node2_text_equivalent [of "''xxxxxxxx''" "\<lambda>_ :: nat. []" "''abc''"] by simp

text \<open>
  a node made from a list of arguments prints one entry per argument, in order: an integer as its
  64-bit value, a text as above, a node as it prints itself.
\<close>

theorem node2_list_prints:
  assumes "length garbage = 8"
  shows "serialize_node D (snd (Node2_list garbage args)) = ''['' @ join_comma True (map (\<lambda>a. case a of
      Int_arg i \<Rightarrow> to_string (signed_take_bit 63 i)
    | Storage_arg v \<Rightarrow> serialize_node D v
    | Text_arg s \<Rightarrow> CHR 0x22 # take 8 (until_nul s) @ [CHR 0x22]) args) @ '']''"
proof -
  have "visit_node D (generator2 garbage a) = (case a of
      Int_arg i \<Rightarrow> to_string (signed_take_bit 63 i)
    | Storage_arg v \<Rightarrow> serialize_node D v
    | Text_arg s \<Rightarrow> CHR 0x22 # take 8 (until_nul s) @ [CHR 0x22])" for a
    by (cases a) (simp_all add: generator2_int_def generator2_storage_def generator2_small_text [OF assms] serialize_node_def)
  moreover have "serialize_node D (snd (Node2_list garbage args))
      = ''['' @ join_comma True (map (\<lambda>a. visit_node D (generator2 garbage a)) args) @ '']''"
    by (simp add: serialize_node_def Node2_list_def comp_def)
  ultimately show ?thesis by simp
qed

theorem node2_list_prints_witness:
  "serialize_node (\<lambda>_ :: nat. []) (snd (Node2_list ''????????'' [Int_arg 7, Text_arg ''ab''])) = ''[7,'' @ [CHR 0x22] @ ''ab'' @ [CHR 0x22] @ '']''"
proof -
  have "to_string (signed_take_bit 63 7) = ''7''" by code_simp
  then show ?thesis
    using node2_list_prints [of "''????????''" "\<lambda>_ :: nat. []" "[Int_arg 7, Text_arg ''ab'']"]
    by (simp add: until_nul_def)
qed

end
