(* ===== verification/Machine.thy ===== *)
theory Machine
  imports Prelude
begin

text \<open>
  The C machine the low-level components run on: signed 32-bit arithmetic that must not
  overflow, arrays with bounds, \<open>memcpy\<close> between byte arrays, and the cyclic reading of an
  array that every ring buffer of the repository implements.  An operation whose behaviour the
  language leaves undefined throws a value of \<open>ub\<close>.
\<close>

section \<open>Undefined behaviour\<close>

datatype ub =
    Signed_overflow
  | Out_of_bounds
  | Division_by_zero
  | Null_dereference
  | Use_after_close
  | Uninitialised
  | Write_to_literal

section \<open>Signed 32-bit arithmetic\<close>

definition int32 :: "int \<Rightarrow> (ub, int) outcome" where
  "int32 i = (if INT_MIN \<le> i \<and> i \<le> INT_MAX then Ret i else Throw Signed_overflow)"

definition c_mod :: "int \<Rightarrow> int \<Rightarrow> (ub, int) outcome" where
  "c_mod a b = (if b = 0 then Throw Division_by_zero else Ret (c_rem a b))"

lemma int32_Ret: "INT_MIN \<le> i \<Longrightarrow> i \<le> INT_MAX \<Longrightarrow> int32 i = Ret i"
  by (simp add: int32_def)

lemma int32_nat: "int k \<le> INT_MAX \<Longrightarrow> int32 (int k) = Ret (int k)"
  by (rule int32_Ret) (simp_all add: INT_MIN_def)

lemma c_mod_nat: "0 < n \<Longrightarrow> c_mod (int k) (int n) = Ret (int (k mod n))"
  by (simp add: c_mod_def c_rem_nonneg zmod_int)

lemma c_mod_nonneg: "0 \<le> a \<Longrightarrow> 0 < b \<Longrightarrow> c_mod a b = Ret (a mod b)"
  by (simp add: c_mod_def c_rem_nonneg)

lemma c_mod_small: "\<bar>a\<bar> < b \<Longrightarrow> c_mod a b = Ret a"
  by (auto simp: c_mod_def c_rem_small)

section \<open>Arrays\<close>

definition arr_get :: "'a list \<Rightarrow> int \<Rightarrow> (ub, 'a) outcome" where
  "arr_get xs i = (if 0 \<le> i \<and> i < int (length xs) then Ret (xs ! nat i) else Throw Out_of_bounds)"

definition arr_set :: "'a list \<Rightarrow> int \<Rightarrow> 'a \<Rightarrow> (ub, 'a list) outcome" where
  "arr_set xs i x =
     (if 0 \<le> i \<and> i < int (length xs) then Ret (xs[nat i := x]) else Throw Out_of_bounds)"

lemma arr_get_in [simp]: "i < length xs \<Longrightarrow> arr_get xs (int i) = Ret (xs ! i)"
  by (simp add: arr_get_def)

lemma arr_set_in [simp]: "i < length xs \<Longrightarrow> arr_set xs (int i) x = Ret (xs[i := x])"
  by (simp add: arr_set_def)

text \<open>
  \<open>memcpy(dst + off, src + soff, n)\<close> on two distinct byte arrays; both ranges must lie
  inside their arrays.
\<close>

definition memcpy :: "'b list \<Rightarrow> nat \<Rightarrow> 'b list \<Rightarrow> nat \<Rightarrow> nat \<Rightarrow> (ub, 'b list) outcome" where
  "memcpy dst off src soff n =
     (if off + n \<le> length dst \<and> soff + n \<le> length src
      then Ret (take off dst @ take n (drop soff src) @ drop (off + n) dst)
      else Throw Out_of_bounds)"

lemma memcpy_length: "memcpy dst off src soff n = Ret dst' \<Longrightarrow> length dst' = length dst"
  by (auto simp: memcpy_def split: if_splits)

section \<open>Cyclic reading\<close>

text \<open>The \<open>k\<close> entries of an array of \<open>n\<close> slots from slot \<open>b\<close> on, wrapping around.\<close>

definition ring_list :: "(nat \<Rightarrow> 'a) \<Rightarrow> nat \<Rightarrow> nat \<Rightarrow> nat \<Rightarrow> 'a list" where
  "ring_list f n b k = map (\<lambda>i. f ((b + i) mod n)) [0..<k]"

lemma length_ring_list [simp]: "length (ring_list f n b k) = k"
  by (simp add: ring_list_def)

lemma ring_list_0 [simp]: "ring_list f n b 0 = []"
  by (simp add: ring_list_def)

lemma ring_list_eq_Nil [simp]: "ring_list f n b k = [] \<longleftrightarrow> k = 0"
  by (simp add: ring_list_def)

lemma ring_list_cong:
  "(\<And>i. i < k \<Longrightarrow> f ((b + i) mod n) = g ((b + i) mod n)) \<Longrightarrow> ring_list f n b k = ring_list g n b k"
  by (simp add: ring_list_def)

lemma ring_list_Suc: "ring_list f n b (Suc k) = ring_list f n b k @ [f ((b + k) mod n)]"
  by (simp add: ring_list_def)

lemma ring_list_push:
  assumes "k < n"
  shows "ring_list (f((b + k) mod n := x)) n b (Suc k) = ring_list f n b k @ [x]"
proof -
  have "ring_list (f((b + k) mod n := x)) n b k = ring_list f n b k"
    using assms by (intro ring_list_cong) (auto dest!: ring_index_inj_le [rotated 2])
  then show ?thesis by (simp add: ring_list_Suc)
qed

lemma ring_list_pop:
  assumes "b < n" "0 < k"
  shows "ring_list f n b k = f b # ring_list f n (Suc b mod n) (k - 1)"
proof (rule nth_equalityI)
  fix i
  assume "i < length (ring_list f n b k)"
  then show "ring_list f n b k ! i = (f b # ring_list f n (Suc b mod n) (k - 1)) ! i"
    using assms by (cases i) (simp_all add: ring_list_def mod_add_left_eq)
qed (use assms(2) in simp)

lemma ring_list_mod [simp]: "ring_list f n (b mod n) k = ring_list f n b k"
  by (simp add: ring_list_def mod_add_left_eq)

text \<open>The number of entries between two indices of a ring.\<close>

definition ring_count :: "nat \<Rightarrow> nat \<Rightarrow> nat \<Rightarrow> nat" where
  "ring_count n b e = (if b \<le> e then e - b else n + e - b)"

lemma ring_count_less: "b < n \<Longrightarrow> e < n \<Longrightarrow> ring_count n b e < n"
  by (auto simp: ring_count_def)

lemma ring_count_0: "b < n \<Longrightarrow> e < n \<Longrightarrow> ring_count n b e = 0 \<longleftrightarrow> b = e"
  by (auto simp: ring_count_def)

lemma ring_count_end: "b < n \<Longrightarrow> e < n \<Longrightarrow> (b + ring_count n b e) mod n = e"
  by (auto simp: ring_count_def)

lemma ring_count_push:
  "b < n \<Longrightarrow> e < n \<Longrightarrow> Suc (ring_count n b e) < n \<Longrightarrow> ring_count n b (Suc e mod n) = Suc (ring_count n b e)"
  by (auto simp: ring_count_def mod_if_wrap split: if_splits)

lemma ring_count_pop:
  "b < n \<Longrightarrow> e < n \<Longrightarrow> b \<noteq> e \<Longrightarrow> ring_count n (Suc b mod n) e = ring_count n b e - 1"
  by (auto simp: ring_count_def mod_if_wrap split: if_splits)

text \<open>One more entry than the ring can tell apart from none.\<close>

lemma ring_count_overrun:
  "b < n \<Longrightarrow> e < n \<Longrightarrow> Suc (ring_count n b e) = n \<Longrightarrow> Suc e mod n = b"
  by (auto simp: ring_count_def mod_if_wrap split: if_splits)

end
