(* ===== verification/Fifo_Spec.thy ===== *)
theory Fifo_Spec
  imports Machine
begin

text \<open>
  What a first-in-first-out queue promises, as two interfaces: \<open>fifo\<close> for a queue used
  within its room, and \<open>bounded_fifo\<close> for one that also refuses an element when it is full.
  Sequences of operations are run against the list queue once, inside the interfaces; the ring
  buffers of the repository are instances.
\<close>

section \<open>Sequences of operations\<close>

datatype 'a fifo_op = Enq 'a | Deq

fun run_ops ::
  "('a \<Rightarrow> 's \<Rightarrow> ('e, 's) outcome) \<Rightarrow> ('s \<Rightarrow> ('e, 'a option \<times> 's) outcome) \<Rightarrow>
   'a fifo_op list \<Rightarrow> 's \<Rightarrow> ('e, 'a option list \<times> 's) outcome"
where
  "run_ops enq deq [] q = Ret ([], q)"
| "run_ops enq deq (Enq x # ops) q = obind (enq x q) (run_ops enq deq ops)"
| "run_ops enq deq (Deq # ops) q =
     obind (deq q) (\<lambda>(r, q1). omap (\<lambda>(rs, q2). (r # rs, q2)) (run_ops enq deq ops q1))"

text \<open>The list queue: unbounded, and with room for \<open>n\<close> elements.\<close>

fun queue_ops :: "'a fifo_op list \<Rightarrow> 'a list \<Rightarrow> 'a option list \<times> 'a list" where
  "queue_ops [] xs = ([], xs)"
| "queue_ops (Enq x # ops) xs = queue_ops ops (xs @ [x])"
| "queue_ops (Deq # ops) [] = (let (rs, ys) = queue_ops ops [] in (None # rs, ys))"
| "queue_ops (Deq # ops) (x # xs) = (let (rs, ys) = queue_ops ops xs in (Some x # rs, ys))"

fun bounded_ops :: "nat \<Rightarrow> 'a fifo_op list \<Rightarrow> 'a list \<Rightarrow> 'a option list \<times> 'a list" where
  "bounded_ops n [] xs = ([], xs)"
| "bounded_ops n (Enq x # ops) xs =
     (if length xs < n then bounded_ops n ops (xs @ [x]) else bounded_ops n ops xs)"
| "bounded_ops n (Deq # ops) [] = (let (rs, ys) = bounded_ops n ops [] in (None # rs, ys))"
| "bounded_ops n (Deq # ops) (x # xs) = (let (rs, ys) = bounded_ops n ops xs in (Some x # rs, ys))"

text \<open>The sequence never holds more than \<open>n\<close> elements, starting with \<open>k\<close> of them.\<close>

fun fits :: "nat \<Rightarrow> 'a fifo_op list \<Rightarrow> nat \<Rightarrow> bool" where
  "fits n [] k = True"
| "fits n (Enq x # ops) k = (k < n \<and> fits n ops (Suc k))"
| "fits n (Deq # ops) k = fits n ops (k - 1)"

text \<open>Every element enqueued has the format the queue stores.\<close>

fun ops_fmt :: "('a \<Rightarrow> bool) \<Rightarrow> 'a fifo_op list \<Rightarrow> bool" where
  "ops_fmt P [] = True"
| "ops_fmt P (Enq x # ops) = (P x \<and> ops_fmt P ops)"
| "ops_fmt P (Deq # ops) = ops_fmt P ops"

lemma ops_fmt_True [simp]: "ops_fmt (\<lambda>_. True) ops"
  by (induction "\<lambda>_ :: 'a. True" ops rule: ops_fmt.induct) auto

lemma bounded_ops_fits: "fits n ops (length xs) \<Longrightarrow> bounded_ops n ops xs = queue_ops ops xs"
  by (induction n ops xs rule: bounded_ops.induct) auto

section \<open>The interfaces\<close>

locale fifo =
  fixes inv :: "'s \<Rightarrow> bool" and contents :: "'s \<Rightarrow> 'a list" and room :: "'s \<Rightarrow> nat"
    and fmt :: "'s \<Rightarrow> 'a \<Rightarrow> bool"
    and enq :: "'a \<Rightarrow> 's \<Rightarrow> ('e, 's) outcome" and deq :: "'s \<Rightarrow> ('e, 'a option \<times> 's) outcome"
  assumes enq_room: "inv q \<Longrightarrow> fmt q x \<Longrightarrow> length (contents q) < room q \<Longrightarrow>
      \<exists>q'. enq x q = Ret q' \<and> inv q' \<and> contents q' = contents q @ [x] \<and> room q' = room q \<and> fmt q' = fmt q"
    and deq_empty: "inv q \<Longrightarrow> contents q = [] \<Longrightarrow> deq q = Ret (None, q)"
    and deq_front: "inv q \<Longrightarrow> contents q = x # xs \<Longrightarrow>
      \<exists>q'. deq q = Ret (Some x, q') \<and> inv q' \<and> contents q' = xs \<and> room q' = room q \<and> fmt q' = fmt q"
begin

lemma run_refines:
  assumes "inv q" "ops_fmt (fmt q) ops" "fits (room q) ops (length (contents q))"
  shows "\<exists>q'. run_ops enq deq ops q = Ret (fst (queue_ops ops (contents q)), q')
          \<and> inv q' \<and> contents q' = snd (queue_ops ops (contents q)) \<and> room q' = room q"
  using assms
proof (induction ops arbitrary: q)
  case (Cons op ops)
  show ?case
  proof (cases op)
    case (Enq x)
    with Cons.prems have "fmt q x" "length (contents q) < room q" by simp_all
    with Cons.prems(1) obtain q' where q': "enq x q = Ret q'" "inv q'"
      "contents q' = contents q @ [x]" "room q' = room q" "fmt q' = fmt q" using enq_room [of q x] by blast
    with Cons.IH [of q'] Cons.prems Enq show ?thesis by auto
  next
    case Deq
    show ?thesis
    proof (cases "contents q")
      case Nil
      with Cons.IH [of q] Cons.prems Deq deq_empty [of q] show ?thesis
        by (auto simp: split_beta)
    next
      case (Cons x xs)
      with Cons.prems(1) obtain q' where "deq q = Ret (Some x, q')" "inv q'" "contents q' = xs"
        "room q' = room q" "fmt q' = fmt q" using deq_front [of q x xs] by blast
      with Cons.IH [of q'] Cons.prems Deq Cons show ?thesis by (auto simp: split_beta)
    qed
  qed
qed simp

end

locale bounded_fifo = fifo +
  assumes enq_full: "inv q \<Longrightarrow> fmt q x \<Longrightarrow> length (contents q) = room q \<Longrightarrow> enq x q = Ret q"
    and length_room: "inv q \<Longrightarrow> length (contents q) \<le> room q"
begin

lemma run_bounded:
  assumes "inv q" "ops_fmt (fmt q) ops"
  shows "\<exists>q'. run_ops enq deq ops q = Ret (fst (bounded_ops (room q) ops (contents q)), q')
          \<and> inv q' \<and> contents q' = snd (bounded_ops (room q) ops (contents q)) \<and> room q' = room q"
  using assms
proof (induction ops arbitrary: q)
  case (Cons op ops)
  show ?case
  proof (cases op)
    case (Enq x)
    show ?thesis
    proof (cases "length (contents q) < room q")
      case True
      with Cons.prems Enq obtain q' where "enq x q = Ret q'" "inv q'"
        "contents q' = contents q @ [x]" "room q' = room q" "fmt q' = fmt q"
        using enq_room [of q x] by (metis ops_fmt.simps(2))
      with Cons.IH [of q'] Cons.prems Enq True show ?thesis by auto
    next
      case False
      then have "enq x q = Ret q" using enq_full length_room Cons.prems Enq by (simp add: le_antisym not_less)
      with Cons.IH [of q] Cons.prems Enq False show ?thesis by auto
    qed
  next
    case Deq
    show ?thesis
    proof (cases "contents q")
      case Nil
      with Cons.IH [of q] Cons.prems Deq deq_empty [of q] show ?thesis by (auto simp: split_beta)
    next
      case (Cons x xs)
      with Cons.prems(1) obtain q' where "deq q = Ret (Some x, q')" "inv q'" "contents q' = xs"
        "room q' = room q" "fmt q' = fmt q" using deq_front [of q x xs] by blast
      with Cons.IH [of q'] Cons.prems Deq Cons show ?thesis by (auto simp: split_beta)
    qed
  qed
qed simp

end

end
