(* ===== verification/Ring_Buffer.thy ===== *)
theory Ring_Buffer
  imports Fifo_Spec
begin

unbundle bit_operations_syntax

text \<open>
  \<open>cjunk/ringBuffer.h\<close>: the functions the macro \<open>DeclareFifo(T, N)\<close> generates, the
  byte-swapping macros and the test program.  The array length of the record is the macro
  argument \<open>N\<close>; index arithmetic is signed 32-bit and checked.
\<close>

section \<open>DeclareFifo\<close>

datatype Status = SUCCESS | FAILURE

record 'a Fifo =
  head :: int
  tail :: int
  data :: "'a list"

abbreviation fifo_N :: "'a Fifo \<Rightarrow> int" where
  "fifo_N q \<equiv> int (length (data q))"

definition Fifo_init :: "'a Fifo \<Rightarrow> 'a Fifo" where
  "Fifo_init q = q\<lparr>head := 0, tail := 0\<rparr>"

definition Fifo_isEmpty :: "'a Fifo \<Rightarrow> bool" where
  "Fifo_isEmpty q \<longleftrightarrow> head q = tail q"

definition Fifo_size :: "'a Fifo \<Rightarrow> (ub, int) outcome" where
  "Fifo_size q =
     obind (int32 (head q - tail q)) (\<lambda>d.
     obind (c_mod d (fifo_N q)) (\<lambda>r.
     obind (int32 (r + fifo_N q)) (\<lambda>s.
       c_mod s (fifo_N q))))"

definition Fifo_push :: "'a Fifo \<Rightarrow> 'a \<Rightarrow> (ub, Status \<times> 'a Fifo) outcome" where
  "Fifo_push q x =
     obind (Fifo_size q) (\<lambda>s.
     obind (int32 (s + 1)) (\<lambda>s1.
       if fifo_N q \<le> s1 then Ret (FAILURE, q)
       else obind (arr_set (data q) (head q) x) (\<lambda>d.
            obind (int32 (head q + 1)) (\<lambda>h.
            obind (c_mod h (fifo_N q)) (\<lambda>h'.
              Ret (SUCCESS, q\<lparr>data := d, head := h'\<rparr>))))))"

text \<open>\<open>out\<close> is the variable the caller passes by address; a failing pop leaves it alone.\<close>

definition Fifo_pop :: "'a Fifo \<Rightarrow> 'a \<Rightarrow> (ub, Status \<times> 'a \<times> 'a Fifo) outcome" where
  "Fifo_pop q out =
     (if Fifo_isEmpty q then Ret (FAILURE, out, q)
      else obind (arr_get (data q) (tail q)) (\<lambda>x.
           obind (int32 (tail q + 1)) (\<lambda>t.
           obind (c_mod t (fifo_N q)) (\<lambda>t'.
             Ret (SUCCESS, x, q\<lparr>tail := t'\<rparr>)))))"

section \<open>Invariant and contents\<close>

text \<open>
  Indices lie inside the array, which must be non-empty and at most \<open>2^30\<close> long: the size
  computation adds \<open>N\<close> to a remainder below \<open>N\<close>.
\<close>

definition fifo_inv :: "'a Fifo \<Rightarrow> bool" where
  "fifo_inv q \<longleftrightarrow> 0 < length (data q) \<and> length (data q) \<le> 2 ^ 30
     \<and> 0 \<le> head q \<and> head q < fifo_N q \<and> 0 \<le> tail q \<and> tail q < fifo_N q"

definition fifo_count :: "'a Fifo \<Rightarrow> nat" where
  "fifo_count q = ring_count (length (data q)) (nat (tail q)) (nat (head q))"

definition fifo_list :: "'a Fifo \<Rightarrow> 'a list" where
  "fifo_list q = ring_list (\<lambda>i. data q ! i) (length (data q)) (nat (tail q)) (fifo_count q)"

definition fifo_room :: "'a Fifo \<Rightarrow> nat" where
  "fifo_room q = length (data q) - 1"

lemma length_fifo_list [simp]: "length (fifo_list q) = fifo_count q"
  by (simp add: fifo_list_def)

lemma fifo_invE:
  assumes "fifo_inv q"
  obtains n h t where "length (data q) = n" "head q = int h" "tail q = int t" "h < n" "t < n" "n \<le> 2 ^ 30"
proof
  show "head q = int (nat (head q))" "tail q = int (nat (tail q))" using assms by (auto simp: fifo_inv_def)
  show "nat (head q) < length (data q)" "nat (tail q) < length (data q)" "length (data q) \<le> 2 ^ 30"
    using assms by (auto simp: fifo_inv_def)
qed simp

lemma Fifo_size_count:
  assumes "fifo_inv q"
  shows "Fifo_size q = Ret (int (fifo_count q))"
proof -
  from assms obtain n h t where q: "length (data q) = n" "head q = int h" "tail q = int t"
    "h < n" "t < n" "n \<le> 2 ^ 30" by (rule fifo_invE)
  have mod: "(int h - int t + int n) mod int n = int (ring_count n t h)"
  proof (cases "t \<le> h")
    case True
    then have "int h - int t + int n = int (ring_count n t h) + int n" by (simp add: ring_count_def)
    with q(4) show ?thesis using ring_count_less [OF q(5,4)] by simp
  next
    case False
    then have "int h - int t + int n = int (ring_count n t h)" using q by (simp add: ring_count_def)
    then show ?thesis using ring_count_less [OF q(5,4)] by simp
  qed
  have "int32 (int h - int t) = Ret (int h - int t)" "int32 (int h - int t + int n) = Ret (int h - int t + int n)"
    using q by (auto simp: int32_def INT_MIN_def INT_MAX_def)
  moreover have "c_mod (int h - int t) (int n) = Ret (int h - int t)" using q by (intro c_mod_small) auto
  moreover have "c_mod (int h - int t + int n) (int n) = Ret (int (ring_count n t h))"
    using q mod by (subst c_mod_nonneg) auto
  ultimately show ?thesis using q by (simp add: Fifo_size_def fifo_count_def)
qed

lemma next_index:
  assumes "i < n" "n \<le> 2 ^ 30"
  shows "int32 (int i + 1) = Ret (int (Suc i))" "c_mod (int (Suc i)) (int n) = Ret (int (Suc i mod n))"
  using assms by (auto simp: int32_def INT_MIN_def INT_MAX_def c_mod_nonneg zmod_int)

lemma Fifo_push_full:
  assumes "fifo_inv q" "fifo_count q = fifo_room q"
  shows "Fifo_push q x = Ret (FAILURE, q)"
proof -
  have "int32 (int (fifo_count q) + 1) = Ret (int (fifo_count q) + 1)"
    using assms by (auto simp: int32_def INT_MIN_def INT_MAX_def fifo_inv_def fifo_room_def)
  then show ?thesis using assms by (auto simp: Fifo_push_def Fifo_size_count fifo_room_def fifo_inv_def)
qed

lemma Fifo_push_room:
  assumes inv: "fifo_inv q" and room: "fifo_count q < fifo_room q"
  shows "\<exists>q'. Fifo_push q x = Ret (SUCCESS, q') \<and> fifo_inv q' \<and> fifo_list q' = fifo_list q @ [x]
           \<and> fifo_room q' = fifo_room q"
proof -
  from inv obtain n h t where q: "length (data q) = n" "head q = int h" "tail q = int t"
    "h < n" "t < n" "n \<le> 2 ^ 30" by (rule fifo_invE)
  define q' where "q' = q\<lparr>data := (data q)[h := x], head := int (Suc h mod n)\<rparr>"
  have cnt: "fifo_count q = ring_count n t h" using q by (simp add: fifo_count_def)
  with room q have k: "Suc (ring_count n t h) < n" by (auto simp: fifo_room_def)
  have push: "Fifo_push q x = Ret (SUCCESS, q')"
    using q k cnt next_index [OF q(4,6)]
    by (simp add: Fifo_push_def Fifo_size_count [OF inv] int32_def INT_MIN_def INT_MAX_def q'_def
        add.commute)
  moreover have "fifo_inv q'" using q inv by (auto simp: fifo_inv_def q'_def)
  moreover have "fifo_list q' = fifo_list q @ [x]"
  proof -
    have "fifo_count q' = Suc (ring_count n t h)"
      using q ring_count_push [OF q(5,4) k] by (simp add: fifo_count_def q'_def)
    moreover have "ring_list (\<lambda>i. (data q)[h := x] ! i) n t (Suc (ring_count n t h))
        = ring_list ((\<lambda>i. data q ! i)((t + ring_count n t h) mod n := x)) n t (Suc (ring_count n t h))"
      using q ring_count_end [OF q(5,4)] by (intro ring_list_cong) (auto simp: nth_list_update)
    ultimately show ?thesis
      using q k cnt ring_list_push [of "ring_count n t h" n "\<lambda>i. data q ! i" t x]
      by (simp add: fifo_list_def q'_def)
  qed
  moreover have "fifo_room q' = fifo_room q" using q by (simp add: fifo_room_def q'_def)
  ultimately show ?thesis by blast
qed

lemma fifo_list_Nil: "fifo_inv q \<Longrightarrow> fifo_list q = [] \<longleftrightarrow> Fifo_isEmpty q"
  by (elim fifo_invE) (auto simp: fifo_list_def fifo_count_def Fifo_isEmpty_def ring_count_0)

lemma Fifo_pop_front:
  assumes inv: "fifo_inv q" and xs: "fifo_list q = x # xs"
  shows "\<exists>q'. Fifo_pop q out = Ret (SUCCESS, x, q') \<and> fifo_inv q' \<and> fifo_list q' = xs
           \<and> fifo_room q' = fifo_room q"
proof -
  from inv obtain n h t where q: "length (data q) = n" "head q = int h" "tail q = int t"
    "h < n" "t < n" "n \<le> 2 ^ 30" by (rule fifo_invE)
  define q' where "q' = q\<lparr>tail := int (Suc t mod n)\<rparr>"
  have cnt: "fifo_count q = ring_count n t h" using q by (simp add: fifo_count_def)
  have ne: "t \<noteq> h" using xs q ring_count_0 [OF q(5,4)] by (auto simp: fifo_list_def cnt)
  then have pos: "0 < ring_count n t h" using ring_count_0 [OF q(5,4)] by simp
  have front: "x = data q ! t" "xs = ring_list (\<lambda>i. data q ! i) n (Suc t mod n) (ring_count n t h - 1)"
    using xs q ring_list_pop [OF q(5) pos, of "\<lambda>i. data q ! i"] by (auto simp: fifo_list_def cnt)
  have "Fifo_pop q out = Ret (SUCCESS, x, q')"
    using q ne next_index [OF q(5,6)] front by (simp add: Fifo_pop_def Fifo_isEmpty_def q'_def)
  moreover have "fifo_inv q'" using q inv by (auto simp: fifo_inv_def q'_def)
  moreover have "fifo_list q' = xs"
    using q front ring_count_pop [OF q(5,4) ne] by (simp add: fifo_list_def fifo_count_def q'_def)
  moreover have "fifo_room q' = fifo_room q" by (simp add: fifo_room_def q'_def)
  ultimately show ?thesis by blast
qed

section \<open>The ring buffer is a bounded queue\<close>

definition fifo_enq :: "'a \<Rightarrow> 'a Fifo \<Rightarrow> (ub, 'a Fifo) outcome" where
  "fifo_enq x q = omap snd (Fifo_push q x)"

definition fifo_deq :: "'a \<Rightarrow> 'a Fifo \<Rightarrow> (ub, 'a option \<times> 'a Fifo) outcome" where
  "fifo_deq out q = omap (\<lambda>(st, x, q'). (if st = SUCCESS then Some x else None, q')) (Fifo_pop q out)"

interpretation rb: bounded_fifo fifo_inv fifo_list fifo_room "\<lambda>_ _. True" fifo_enq "fifo_deq out" for out :: 'a
proof unfold_locales
  fix q :: "'a Fifo" and x
  assume "fifo_inv q" "length (fifo_list q) < fifo_room q"
  then show "\<exists>q'. fifo_enq x q = Ret q' \<and> fifo_inv q' \<and> fifo_list q' = fifo_list q @ [x]
      \<and> fifo_room q' = fifo_room q \<and> (\<lambda>_ :: 'a. True) = (\<lambda>_. True)"
    using Fifo_push_room [of q x] by (auto simp: fifo_enq_def)
next
  fix q :: "'a Fifo"
  assume "fifo_inv q" "fifo_list q = []"
  then show "fifo_deq out q = Ret (None, q)"
    by (simp add: fifo_deq_def Fifo_pop_def fifo_list_Nil)
next
  fix q :: "'a Fifo" and x xs
  assume "fifo_inv q" "fifo_list q = x # xs"
  then show "\<exists>q'. fifo_deq out q = Ret (Some x, q') \<and> fifo_inv q' \<and> fifo_list q' = xs
      \<and> fifo_room q' = fifo_room q \<and> (\<lambda>_ :: 'a. True) = (\<lambda>_. True)"
    using Fifo_pop_front [of q x xs out] by (auto simp: fifo_deq_def)
next
  fix q :: "'a Fifo" and x
  assume "fifo_inv q" "length (fifo_list q) = fifo_room q"
  then show "fifo_enq x q = Ret q" by (simp add: fifo_enq_def Fifo_push_full)
next
  fix q :: "'a Fifo"
  assume "fifo_inv q"
  then show "length (fifo_list q) \<le> fifo_room q"
    by (elim fifo_invE) (use ring_count_less in \<open>fastforce simp: fifo_count_def fifo_room_def\<close>)
qed

section \<open>Byte swapping\<close>

text \<open>Both macros on 32-bit unsigned operands; a 16-bit operand is promoted first.\<close>

definition byteswap_16 :: "32 word \<Rightarrow> 32 word" where
  "byteswap_16 x = drop_bit 8 (x AND 0xff00) OR push_bit 8 (x AND 0x00ff)"

definition byteswap_32 :: "32 word \<Rightarrow> 32 word" where
  "byteswap_32 x =
     drop_bit 24 (x AND 0xff000000) OR drop_bit 8 (x AND 0x00ff0000)
     OR push_bit 8 (x AND 0x0000ff00) OR push_bit 24 (x AND 0x000000ff)"

text \<open>The four byte masks as shifted copies of the lowest one.\<close>

lemma byte_masks:
  "(0x000000ff :: 32 word) = mask 8" "(0x0000ff00 :: 32 word) = push_bit 8 (mask 8)"
  "(0x00ff0000 :: 32 word) = push_bit 16 (mask 8)" "(0xff000000 :: 32 word) = push_bit 24 (mask 8)"
  "(0xffff :: 32 word) = mask 16"
  by (simp_all add: mask_eq_exp_minus_1)

lemma bit_byteswap_32:
  "n < 32 \<Longrightarrow> bit (byteswap_32 x) n \<longleftrightarrow>
     bit x (if n < 8 then n + 24 else if n < 16 then n + 8 else if n < 24 then n - 8 else n - 24)"
  unfolding byteswap_32_def byte_masks
  by (auto simp: bit_simps add.commute)

lemma bit_byteswap_16:
  "n < 32 \<Longrightarrow> bit (byteswap_16 x) n \<longleftrightarrow> n < 16 \<and> bit x (if n < 8 then n + 8 else n - 8)"
  unfolding byteswap_16_def byte_masks
  by (auto simp: bit_simps add.commute)

section \<open>The test program\<close>

text \<open>
  The calls of \<open>test_fifo\<close> in order, with the values it hands to its three loggers:
  a status (0 is \<open>SUCCESS\<close>), a size or a popped value.  \<open>v0\<close> is the indeterminate
  initial content of the local variable \<open>value\<close>, \<open>d\<close> that of the array.
\<close>

datatype log_entry = Log_int Status | Log_size int | Log_value int

datatype test_call = T_push int | T_size | T_pop | T_value

fun test_step :: "test_call \<Rightarrow> int \<times> int Fifo \<Rightarrow> (ub, log_entry \<times> int \<times> int Fifo) outcome" where
  "test_step (T_push x) (v, q) = omap (\<lambda>(st, q'). (Log_int st, v, q')) (Fifo_push q x)"
| "test_step T_size (v, q) = omap (\<lambda>n. (Log_size n, v, q)) (Fifo_size q)"
| "test_step T_pop (v, q) = omap (\<lambda>(st, v', q'). (Log_int st, v', q')) (Fifo_pop q v)"
| "test_step T_value (v, q) = Ret (Log_value v, v, q)"

fun test_run :: "test_call list \<Rightarrow> int \<times> int Fifo \<Rightarrow> (ub, log_entry list) outcome" where
  "test_run [] s = Ret []"
| "test_run (c # cs) s = obind (test_step c s) (\<lambda>(l, s'). omap (Cons l) (test_run cs s'))"

definition test_fifo :: "int \<Rightarrow> int Fifo \<Rightarrow> (ub, log_entry list) outcome" where
  "test_fifo v0 tx =
     test_run
       [T_push 100, T_size, T_pop, T_value, T_size, T_push 100, T_push 100, T_size,
        T_push 100, T_size, T_pop, T_pop, T_push 100, T_push 100, T_size]
       (v0, Fifo_init tx)"

section \<open>Properties of the ring buffer\<close>

text \<open>
  C4: a ring buffer of \<open>N\<close> slots (\<open>1 \<le> N \<le> 2^30\<close>), once initialised, behaves under every
  sequence of pushes and pops as a list queue that holds at most \<open>N - 1\<close> elements; no index
  leaves the array and no signed arithmetic overflows.
\<close>

theorem ring_refines_bounded_queue:
  assumes "0 < length (data q)" "length (data q) \<le> 2 ^ 30"
  shows "\<exists>q'. run_ops fifo_enq (fifo_deq out) ops (Fifo_init q)
             = Ret (fst (bounded_ops (length (data q) - 1) ops []), q')
           \<and> fifo_inv q' \<and> fifo_list q' = snd (bounded_ops (length (data q) - 1) ops [])"
proof -
  have "fifo_inv (Fifo_init q)" using assms by (simp add: Fifo_init_def fifo_inv_def)
  moreover have "fifo_list (Fifo_init q) = []" "fifo_room (Fifo_init q) = length (data q) - 1"
    by (simp_all add: Fifo_init_def fifo_list_def fifo_count_def ring_count_def fifo_room_def)
  ultimately show ?thesis using rb.run_bounded [of "Fifo_init q" ops out] by auto
qed

theorem ring_refines_bounded_queue_witness:
  "\<exists>q'. run_ops fifo_enq (fifo_deq 0) [Enq 1, Enq 2, Enq 3, Deq, Enq 4, Deq, Deq, Deq]
          (Fifo_init \<lparr>head = 9, tail = 9, data = [0, 0, 0 :: int]\<rparr>)
        = Ret ([Some 1, Some 2, Some 4, None], q')"
  using ring_refines_bounded_queue [of "\<lparr>head = 9, tail = 9, data = [0, 0, 0 :: int]\<rparr>" 0
      "[Enq 1, Enq 2, Enq 3, Deq, Enq 4, Deq, Deq, Deq]"]
  by auto

text \<open>
  C9: the status returned by a push tells whether the element was stored: it succeeds exactly
  when fewer than \<open>N - 1\<close> elements are held, appends the element then, and changes nothing
  otherwise; the size function returns the number of elements held.
\<close>

theorem ring_push_status:
  assumes "fifo_inv q"
  shows "\<exists>st q'. Fifo_push q x = Ret (st, q') \<and> fifo_inv q'
           \<and> Fifo_size q' = Ret (int (length (fifo_list q')))
           \<and> (if length (fifo_list q) < length (data q) - 1
              then st = SUCCESS \<and> fifo_list q' = fifo_list q @ [x]
              else st = FAILURE \<and> q' = q)"
proof (cases "fifo_count q < fifo_room q")
  case True
  with Fifo_push_room [OF assms True, of x] Fifo_size_count show ?thesis by (auto simp: fifo_room_def)
next
  case False
  then have "fifo_count q = fifo_room q" using rb.length_room [OF assms] by simp
  with Fifo_push_full [OF assms this, of x] False assms Fifo_size_count [OF assms] show ?thesis
    by (auto simp: fifo_room_def)
qed

theorem ring_push_status_witness:
  "fifo_inv \<lparr>head = 0, tail = 2, data = [7, 0, 5 :: int]\<rparr>
   \<and> (\<exists>q'. Fifo_push \<lparr>head = 0, tail = 2, data = [7, 0, 5 :: int]\<rparr> 8 = Ret (SUCCESS, q') \<and> fifo_list q' = [5, 8])"
proof -
  have *: "fifo_inv \<lparr>head = 0, tail = 2, data = [7, 0, 5 :: int]\<rparr>"
    "fifo_list \<lparr>head = 0, tail = 2, data = [7, 0, 5 :: int]\<rparr> = [5]"
    by (simp add: fifo_inv_def) code_simp
  then show ?thesis using ring_push_status [OF *(1), of 8] by auto
qed

text \<open>
  C10: a pop on a non-empty buffer stores the oldest element in the caller's variable and removes
  it; on an empty one it fails and leaves the variable and the buffer as they were.
\<close>

theorem ring_pop_result:
  assumes "fifo_inv q"
  shows "case fifo_list q of
      [] \<Rightarrow> Fifo_pop q out = Ret (FAILURE, out, q)
    | x # xs \<Rightarrow> \<exists>q'. Fifo_pop q out = Ret (SUCCESS, x, q') \<and> fifo_inv q' \<and> fifo_list q' = xs"
  using Fifo_pop_front [OF assms] fifo_list_Nil [OF assms]
  by (auto simp: Fifo_pop_def split: list.split)

theorem ring_pop_result_witness:
  "\<exists>q'. Fifo_pop \<lparr>head = 0, tail = 2, data = [7, 0, 5 :: int]\<rparr> 3 = Ret (SUCCESS, 5, q') \<and> fifo_list q' = []"
proof -
  have *: "fifo_inv \<lparr>head = 0, tail = 2, data = [7, 0, 5 :: int]\<rparr>"
    "fifo_list \<lparr>head = 0, tail = 2, data = [7, 0, 5 :: int]\<rparr> = [5]"
    by (simp add: fifo_inv_def) code_simp
  then show ?thesis using ring_pop_result [OF *(1), of 3] by auto
qed

text \<open>Byte \<open>i\<close> of a word, counted from the least significant one.\<close>

definition byte_of :: "32 word \<Rightarrow> nat \<Rightarrow> 32 word" where
  "byte_of x i = take_bit 8 (drop_bit (8 * i) x)"

lemma byte_of_32:
  assumes "i < 4"
  shows "byte_of (byteswap_32 x) i = byte_of x (3 - i)"
proof -
  have "i \<in> {0, 1, 2, 3}" using assms by auto
  then show ?thesis
    by (elim insertE emptyE)
      (rule bit_word_eqI; auto simp: byte_of_def bit_take_bit_iff bit_drop_bit_eq bit_byteswap_32 ac_simps)+
qed

lemma byte_of_16:
  assumes "i < 4"
  shows "byte_of (byteswap_16 x) i = (if i < 2 then byte_of x (1 - i) else 0)"
proof -
  have "i \<in> {0, 1, 2, 3}" using assms by auto
  then show ?thesis
    by (elim insertE emptyE)
      (rule bit_word_eqI; auto simp: byte_of_def bit_take_bit_iff bit_drop_bit_eq bit_byteswap_16 ac_simps)+
qed

text \<open>
  C16: on every 32-bit unsigned operand the 32-bit swap reverses the four bytes, and the 16-bit swap exchanges
  the two low bytes and clears the two others.  Applied twice, the first gives the operand back and the second
  its low half.
\<close>

theorem byteswap_involutive:
  "map (byte_of (byteswap_32 x)) [0, 1, 2, 3] = [byte_of x 3, byte_of x 2, byte_of x 1, byte_of x 0]
   \<and> map (byte_of (byteswap_16 x)) [0, 1, 2, 3] = [byte_of x 1, byte_of x 0, 0, 0]
   \<and> byteswap_32 (byteswap_32 x) = x \<and> byteswap_16 (byteswap_16 x) = x AND 0xffff"
proof (intro conjI)
  show "byteswap_32 (byteswap_32 x) = x"
    by (rule bit_word_eqI) (auto simp: bit_byteswap_32)
  show "byteswap_16 (byteswap_16 x) = x AND 0xffff"
    unfolding byte_masks(5) by (rule bit_word_eqI) (auto simp: bit_byteswap_16 bit_simps)
qed (simp_all add: byte_of_32 byte_of_16)

text \<open>
  what \<open>test_fifo\<close> logs for the three-slot buffer, whatever its memory held before: the
  third of three pushes is refused, two pops succeed, and every size is as expected.
\<close>

theorem test_fifo_log:
  "test_fifo v0 \<lparr>head = h, tail = t, data = [a, b, c]\<rparr> = Ret
     [Log_int SUCCESS, Log_size 1, Log_int SUCCESS, Log_value 100, Log_size 0,
      Log_int SUCCESS, Log_int SUCCESS, Log_size 2, Log_int FAILURE, Log_size 2,
      Log_int SUCCESS, Log_int SUCCESS, Log_int SUCCESS, Log_int SUCCESS, Log_size 2]"
  by code_simp

end
