(* ===== verification/Byte_Queue.thy ===== *)
theory Byte_Queue
  imports Fifo_Spec
begin

text \<open>
  \<open>cjunk/practice/queue.h\<close>: a queue of fixed-size elements in a byte array with 16-bit
  indices.  The file uses \<open>struct Queue\<close> without declaring it; the record has the members its
  functions assign, the counters at the width of the \<open>uint16_t\<close> locals they are copied to.
  Operands narrower than \<open>int\<close> are promoted: additions and comparisons are exact, products
  are checked for signed overflow, and results are truncated to 16 bits when stored.
\<close>

section \<open>struct Queue and its operations\<close>

record Queue =
  q_begin :: "16 word"
  q_end :: "16 word"
  pDataArray :: "8 word list"
  elementSize :: "16 word"
  elementCapacity :: "16 word"
  isFull :: bool

definition queueInitialize :: "8 word list \<Rightarrow> 16 word \<Rightarrow> 16 word \<Rightarrow> Queue" where
  "queueInitialize array esize capacity =
     \<lparr>q_begin = 0, q_end = 0, pDataArray = array, elementSize = esize, elementCapacity = capacity,
      isFull = False\<rparr>"

definition queueEnqueue :: "Queue \<Rightarrow> 8 word list \<Rightarrow> (ub, Queue) outcome" where
  "queueEnqueue self pData =
     (if isFull self then Ret self
      else let index = q_end self
           in obind (c_mod (uint (q_begin self) + uint (q_end self)) (uint (elementCapacity self))) (\<lambda>ei.
              let availableSpace = elementCapacity self - word_of_int ei
              in if availableSpace = 0 then Ret (self\<lparr>isFull := True\<rparr>)
                 else obind (c_mod (uint (q_end self) + 1) (uint (elementCapacity self))) (\<lambda>e'.
                      obind (int32 (uint index * uint (elementSize self))) (\<lambda>off.
                      obind (memcpy (pDataArray self) (nat off) pData 0 (unat (elementSize self))) (\<lambda>arr.
                        Ret (self\<lparr>q_end := word_of_int e', pDataArray := arr\<rparr>))))))"

definition queueDequeue :: "Queue \<Rightarrow> 8 word list \<Rightarrow> (ub, 8 word list \<times> Queue) outcome" where
  "queueDequeue self pData =
     (if q_begin self = q_end self then Ret (pData, self)
      else let index = q_begin self;
               availableSpace = q_end self - q_begin self
           in if availableSpace = 0 then Ret (pData, self\<lparr>isFull := False\<rparr>)
              else obind (c_mod (uint (q_begin self) + 1) (uint (elementCapacity self))) (\<lambda>b'.
                   obind (int32 (uint index * uint (elementSize self))) (\<lambda>off.
                   obind (memcpy pData 0 (pDataArray self) (nat off) (unat (elementSize self))) (\<lambda>out.
                     Ret (out, self\<lparr>q_begin := word_of_int b'\<rparr>)))))"

definition queueClear :: "Queue \<Rightarrow> Queue" where
  "queueClear self = self\<lparr>q_begin := 0, q_end := 0, isFull := False\<rparr>"

definition queueIsEmpty :: "Queue \<Rightarrow> bool" where
  "queueIsEmpty self \<longleftrightarrow> q_begin self = q_end self"

definition queueIsFull :: "Queue \<Rightarrow> bool" where
  "queueIsFull self \<longleftrightarrow> isFull self"

definition queueGetSize :: "Queue \<Rightarrow> 16 word" where
  "queueGetSize self = q_end self - q_begin self"

definition queueGetCapacity :: "Queue \<Rightarrow> 16 word" where
  "queueGetCapacity self = elementCapacity self"

text \<open>The pointer returned is an offset into the array; \<open>None\<close> is \<open>NULL\<close>.\<close>

definition queueGetData :: "Queue \<Rightarrow> 16 word \<Rightarrow> (ub, nat option) outcome" where
  "queueGetData self index =
     (if uint index \<ge> uint (q_end self) - uint (q_begin self) then Ret None
      else obind (int32 ((uint (q_begin self) + uint index) * uint (elementSize self))) (\<lambda>off.
           if nat off \<le> length (pDataArray self) then Ret (Some (nat off)) else Throw Out_of_bounds))"

definition queueSetData :: "Queue \<Rightarrow> 16 word \<Rightarrow> 8 word list \<Rightarrow> (ub, Queue) outcome" where
  "queueSetData self index pData =
     (if uint index \<ge> uint (q_end self) - uint (q_begin self) then Ret self
      else obind (int32 ((uint (q_begin self) + uint index) * uint (elementSize self))) (\<lambda>off.
           obind (memcpy (pDataArray self) (nat off) pData 0 (unat (elementSize self))) (\<lambda>arr.
             Ret (self\<lparr>pDataArray := arr\<rparr>))))"

text \<open>
  \<open>malloc n\<close> is \<open>None\<close> when it fails and otherwise a block of \<open>n\<close> bytes of arbitrary
  content.
\<close>

definition queueSetCapacity ::
  "(nat \<Rightarrow> 8 word list option) \<Rightarrow> Queue \<Rightarrow> 16 word \<Rightarrow> (ub, Queue) outcome" where
  "queueSetCapacity malloc self capacity =
     (let sz = q_end self - q_begin self
      in if sz > capacity then Ret self
         else obind (int32 (uint capacity * uint (elementSize self))) (\<lambda>n.
              let newDataArraySize = (word_of_int n :: 16 word)
              in case malloc (unat newDataArraySize) of
                   None \<Rightarrow> Ret self
                 | Some block \<Rightarrow>
                     obind (int32 (uint (elementSize self) * uint (elementCapacity self))) (\<lambda>m.
                     obind (memcpy block 0 (pDataArray self) 0 (nat m)) (\<lambda>arr.
                       Ret (self\<lparr>pDataArray := arr, elementCapacity := capacity\<rparr>)))))"

definition queueSetElementSize ::
  "(nat \<Rightarrow> 8 word list option) \<Rightarrow> Queue \<Rightarrow> 16 word \<Rightarrow> (ub, Queue) outcome" where
  "queueSetElementSize malloc self esize =
     (let sz = q_end self - q_begin self
      in if sz > elementCapacity self then Ret self
         else obind (int32 (uint (elementCapacity self) * uint esize)) (\<lambda>n.
              let newDataArraySize = (word_of_int n :: 16 word)
              in case malloc (unat newDataArraySize) of
                   None \<Rightarrow> Ret self
                 | Some block \<Rightarrow>
                     obind (int32 (uint (elementSize self) * uint (elementCapacity self))) (\<lambda>m.
                     obind (memcpy block 0 (pDataArray self) 0 (nat m)) (\<lambda>arr.
                       Ret (self\<lparr>pDataArray := arr, elementSize := esize\<rparr>)))))"

section \<open>Invariant and contents\<close>

abbreviation cap_of :: "Queue \<Rightarrow> nat" where "cap_of q \<equiv> unat (elementCapacity q)"
abbreviation esize_of :: "Queue \<Rightarrow> nat" where "esize_of q \<equiv> unat (elementSize q)"

definition bq_inv :: "Queue \<Rightarrow> bool" where
  "bq_inv q \<longleftrightarrow> \<not> isFull q \<and> q_begin q < elementCapacity q \<and> q_end q < elementCapacity q
     \<and> length (pDataArray q) = cap_of q * esize_of q \<and> int (cap_of q * esize_of q) \<le> INT_MAX"

definition slot :: "'b list \<Rightarrow> nat \<Rightarrow> nat \<Rightarrow> 'b list" where
  "slot arr es i = take es (drop (i * es) arr)"

definition bq_count :: "Queue \<Rightarrow> nat" where
  "bq_count q = ring_count (cap_of q) (unat (q_begin q)) (unat (q_end q))"

definition bq_list :: "Queue \<Rightarrow> 8 word list list" where
  "bq_list q = ring_list (slot (pDataArray q) (esize_of q)) (cap_of q) (unat (q_begin q)) (bq_count q)"

definition bq_room :: "Queue \<Rightarrow> nat" where
  "bq_room q = cap_of q - 1"

definition bq_fmt :: "Queue \<Rightarrow> 8 word list \<Rightarrow> bool" where
  "bq_fmt q x \<longleftrightarrow> length x = esize_of q"

lemma length_bq_list [simp]: "length (bq_list q) = bq_count q"
  by (simp add: bq_list_def)

lemma slot_range: "i < n \<Longrightarrow> i * es + es \<le> n * (es :: nat)"
  by (metis Suc_leI add.commute mult_Suc mult_le_mono1)

text \<open>Writing one slot changes that slot only.\<close>

lemma slot_write:
  assumes "length arr = n * es" "i < n" "j < n" "length x = es"
  shows "slot (take (i * es) arr @ x @ drop (i * es + es) arr) es j = (if i = j then x else slot arr es j)"
proof -
  let ?a = "take (i * es) arr @ x @ drop (i * es + es) arr"
  have len: "i * es + es \<le> length arr" "j * es + es \<le> length arr"
    using assms slot_range by auto
  consider "j = i" | "j < i" | "i < j" by linarith
  then show ?thesis
  proof cases
    case 1
    then show ?thesis using assms len by (simp add: slot_def)
  next
    case 2
    then have "j * es + es \<le> i * es" by (rule slot_range)
    then have "take es (drop (j * es) (take (i * es) arr)) = take es (drop (j * es) arr)"
      by (simp add: drop_take min_def)
    with 2 \<open>j * es + es \<le> i * es\<close> len show ?thesis by (auto simp: slot_def)
  next
    case 3
    then have "i * es + es \<le> j * es" by (rule slot_range)
    with 3 assms len show ?thesis by (simp add: slot_def)
  qed
qed

lemma bq_bounds:
  assumes "bq_inv q"
  shows "unat (q_begin q) < cap_of q" "unat (q_end q) < cap_of q" "0 < cap_of q" "cap_of q < 2 ^ 16"
  using assms unsigned_less [of "elementCapacity q", where 'a = nat] by (auto simp: bq_inv_def word_less_nat_alt)

lemma uint_unat16: "uint (w :: 16 word) = int (unat w)"
  by simp

lemma bq_offset:
  assumes "bq_inv q" "i < cap_of q"
  shows "int32 (int i * int (esize_of q)) = Ret (int (i * esize_of q))"
proof -
  have "int (i * esize_of q) \<le> int (cap_of q * esize_of q)"
    using assms(2) by (intro zle_int [THEN iffD2] mult_le_mono1) simp
  also have "\<dots> \<le> INT_MAX" using assms(1) by (simp only: bq_inv_def)
  finally show ?thesis by (metis int32_nat of_nat_mult)
qed

lemma unat_of_nat16: "k < 2 ^ 16 \<Longrightarrow> unat (word_of_int (int k) :: 16 word) = k"
  by (simp add: unsigned_of_nat take_bit_nat_eq_self)

lemma bq_next:
  assumes "i < n" "n < 2 ^ 16"
  shows "c_mod (int i + 1) (int n) = Ret (int (Suc i mod n))"
    "unat (word_of_int (int (Suc i mod n)) :: 16 word) = Suc i mod n"
proof -
  show "c_mod (int i + 1) (int n) = Ret (int (Suc i mod n))"
    using assms c_mod_nat [of n "Suc i"] by (simp add: add.commute)
  have "Suc i mod n < n" using assms by simp
  then show "unat (word_of_int (int (Suc i mod n)) :: 16 word) = Suc i mod n"
    using assms(2) by (intro unat_of_nat16) linarith
qed

lemma memcpy_slot:
  "length arr = n * es \<Longrightarrow> i < n \<Longrightarrow> length x = es \<Longrightarrow>
   memcpy arr (i * es) x 0 es = Ret (take (i * es) arr @ x @ drop (i * es + es) arr)"
  using slot_range [of i n es] by (simp add: memcpy_def)

text \<open>The guard on the available space never holds, so every enqueue stores and advances.\<close>

lemma Enqueue_stores:
  assumes inv: "bq_inv q" and x: "length x = esize_of q"
  shows "queueEnqueue q x = Ret (q\<lparr>q_end := word_of_int (int (Suc (unat (q_end q)) mod cap_of q)),
    pDataArray := take (unat (q_end q) * esize_of q) (pDataArray q) @ x
      @ drop (unat (q_end q) * esize_of q + esize_of q) (pDataArray q)\<rparr>)"
proof -
  note b = bq_bounds [OF inv]
  let ?e = "(unat (q_begin q) + unat (q_end q)) mod cap_of q"
  have lt: "?e < cap_of q" using b by simp
  have 1: "c_mod (int (unat (q_begin q)) + int (unat (q_end q))) (int (cap_of q)) = Ret (int ?e)"
    using c_mod_nat [OF b(3)] by (metis of_nat_add)
  have "unat (word_of_int (int ?e) :: 16 word) = ?e"
    using lt b(4) by (intro unat_of_nat16) linarith
  then have 2: "elementCapacity q - word_of_int (int ?e) \<noteq> 0"
    using lt by (metis eq_iff_diff_eq_0 less_irrefl)
  have len: "length (pDataArray q) = cap_of q * esize_of q" "\<not> isFull q" using inv by (auto simp: bq_inv_def)
  show ?thesis
    unfolding queueEnqueue_def Let_def uint_unat16 1 obind.simps bq_next [OF b(2,4)]
      bq_offset [OF inv b(2)] nat_int memcpy_slot [OF len(1) b(2) x]
    using len 2 by (simp only: if_False obind.simps)
qed

lemma Enqueue_result:
  assumes inv: "bq_inv q" and x: "length x = esize_of q"
  obtains q' where "queueEnqueue q x = Ret q'" "bq_inv q'"
    "q_begin q' = q_begin q" "unat (q_end q') = Suc (unat (q_end q)) mod cap_of q"
    "elementCapacity q' = elementCapacity q" "elementSize q' = elementSize q"
    "\<And>j. j < cap_of q \<Longrightarrow> slot (pDataArray q') (esize_of q) j
       = (if j = unat (q_end q) then x else slot (pDataArray q) (esize_of q) j)"
proof
  note b = bq_bounds [OF inv]
  have len: "length (pDataArray q) = cap_of q * esize_of q" using inv by (simp add: bq_inv_def)
  let ?q = "q\<lparr>q_end := word_of_int (int (Suc (unat (q_end q)) mod cap_of q)),
    pDataArray := take (unat (q_end q) * esize_of q) (pDataArray q) @ x
      @ drop (unat (q_end q) * esize_of q + esize_of q) (pDataArray q)\<rparr>"
  show "queueEnqueue q x = Ret ?q" by (rule Enqueue_stores [OF inv x])
  show e: "unat (q_end ?q) = Suc (unat (q_end q)) mod cap_of q" using bq_next(2) [OF b(2,4)] by simp
  then have "unat (q_end ?q) < cap_of q" using b by simp
  then show "bq_inv ?q"
    using inv len x slot_range [OF b(2), of "esize_of q"] by (auto simp: bq_inv_def word_less_nat_alt)
  show "slot (pDataArray ?q) (esize_of q) j = (if j = unat (q_end q) then x else slot (pDataArray q) (esize_of q) j)"
    if "j < cap_of q" for j
    using slot_write [OF len b(2) that x] by (auto simp: ac_simps)
qed simp_all

lemma Enqueue_room:
  assumes inv: "bq_inv q" and x: "length x = esize_of q" and room: "bq_count q < bq_room q"
  shows "\<exists>q'. queueEnqueue q x = Ret q' \<and> bq_inv q' \<and> bq_list q' = bq_list q @ [x]
           \<and> bq_room q' = bq_room q \<and> bq_fmt q' = bq_fmt q"
proof -
  note b = bq_bounds [OF inv]
  let ?c = "bq_count q"
  from inv x obtain q' where q': "queueEnqueue q x = Ret q'" "bq_inv q'"
    "q_begin q' = q_begin q" "unat (q_end q') = Suc (unat (q_end q)) mod cap_of q"
    "elementCapacity q' = elementCapacity q" "elementSize q' = elementSize q"
    and sl: "\<And>j. j < cap_of q \<Longrightarrow> slot (pDataArray q') (esize_of q) j
       = (if j = unat (q_end q) then x else slot (pDataArray q) (esize_of q) j)"
    by (rule Enqueue_result) blast
  have k: "?c < cap_of q" "Suc ?c < cap_of q" using room by (auto simp: bq_room_def)
  have e: "(unat (q_begin q) + ?c) mod cap_of q = unat (q_end q)"
    using ring_count_end [OF b(1,2)] by (simp add: bq_count_def)
  have "bq_count q' = Suc ?c"
    using ring_count_push [OF b(1,2)] k q' by (simp add: bq_count_def)
  moreover have "ring_list (slot (pDataArray q') (esize_of q)) (cap_of q) (unat (q_begin q)) (Suc ?c)
    = ring_list ((slot (pDataArray q) (esize_of q))((unat (q_begin q) + ?c) mod cap_of q := x))
        (cap_of q) (unat (q_begin q)) (Suc ?c)"
    using sl e b(3) by (intro ring_list_cong) simp
  ultimately have "bq_list q' = bq_list q @ [x]"
    using ring_list_push [OF k(1)] q' by (simp add: bq_list_def)
  with q' show ?thesis by (auto simp: bq_room_def bq_fmt_def)
qed

lemma Dequeue_front:
  assumes inv: "bq_inv q" and ne: "bq_list q = x # xs" and out: "length out = esize_of q"
  shows "\<exists>q'. queueDequeue q out = Ret (x, q') \<and> bq_inv q' \<and> bq_list q' = xs
           \<and> bq_room q' = bq_room q \<and> bq_fmt q' = bq_fmt q"
proof -
  note b = bq_bounds [OF inv]
  let ?b = "unat (q_begin q)"
  have pos: "0 < bq_count q" using ne by (metis length_bq_list length_greater_0_conv list.discI)
  then have diff: "?b \<noteq> unat (q_end q)" using ring_count_0 [OF b(1,2)] by (simp add: bq_count_def)
  then have "q_begin q \<noteq> q_end q" by auto
  have front: "x = slot (pDataArray q) (esize_of q) ?b"
    "xs = ring_list (slot (pDataArray q) (esize_of q)) (cap_of q) (Suc ?b mod cap_of q) (bq_count q - 1)"
    using ne ring_list_pop [OF b(1) pos, of "slot (pDataArray q) (esize_of q)"] by (auto simp: bq_list_def)
  have len: "length (pDataArray q) = cap_of q * esize_of q" using inv by (simp add: bq_inv_def)
  have mem: "memcpy out 0 (pDataArray q) (?b * esize_of q) (esize_of q) = Ret x"
    using out len slot_range [OF b(1), of "esize_of q"] front(1)
    by (simp add: memcpy_def slot_def)
  define q' where "q' = q\<lparr>q_begin := word_of_int (int (Suc ?b mod cap_of q))\<rparr>"
  have "queueDequeue q out = Ret (x, q')"
    unfolding queueDequeue_def Let_def uint_unat16 bq_next(1) [OF b(1,4)] obind.simps
      bq_offset [OF inv b(1)] nat_int mem q'_def
    using \<open>q_begin q \<noteq> q_end q\<close> by simp
  moreover have b': "unat (q_begin q') = Suc ?b mod cap_of q"
    using bq_next(2) [OF b(1,4)] by (simp add: q'_def)
  moreover have "bq_inv q'"
    using inv b' b by (simp add: bq_inv_def word_less_nat_alt) (simp add: q'_def)
  moreover have "bq_list q' = xs"
    using front b' ring_count_pop [OF b(1,2) diff] by (simp add: bq_list_def bq_count_def) (simp add: q'_def)
  ultimately show ?thesis by (auto simp: bq_room_def bq_fmt_def q'_def)
qed

section \<open>A queue within its room\<close>

definition bq_deq :: "Queue \<Rightarrow> (ub, 8 word list option \<times> Queue) outcome" where
  "bq_deq q =
     (if queueIsEmpty q then Ret (None, q)
      else omap (\<lambda>(x, q'). (Some x, q')) (queueDequeue q (replicate (esize_of q) 0)))"

lemma bq_list_Nil: "bq_inv q \<Longrightarrow> bq_list q = [] \<longleftrightarrow> queueIsEmpty q"
  using bq_bounds [of q] ring_count_0 [of "unat (q_begin q)" "cap_of q" "unat (q_end q)"]
  by (simp add: bq_list_def bq_count_def queueIsEmpty_def word_unat_eq_iff)

interpretation bq: fifo bq_inv bq_list bq_room bq_fmt "\<lambda>x q. queueEnqueue q x" bq_deq
proof unfold_locales
  show "\<exists>q'. queueEnqueue q x = Ret q' \<and> bq_inv q' \<and> bq_list q' = bq_list q @ [x] \<and> bq_room q' = bq_room q
      \<and> bq_fmt q' = bq_fmt q" if "bq_inv q" "bq_fmt q x" "length (bq_list q) < bq_room q" for q x
    using Enqueue_room that by (simp add: bq_fmt_def)
  show "bq_deq q = Ret (None, q)" if "bq_inv q" "bq_list q = []" for q
    using that by (simp add: bq_deq_def bq_list_Nil)
  show "\<exists>q'. bq_deq q = Ret (Some x, q') \<and> bq_inv q' \<and> bq_list q' = xs \<and> bq_room q' = bq_room q
      \<and> bq_fmt q' = bq_fmt q" if "bq_inv q" "bq_list q = x # xs" for q x xs
  proof -
    have "\<not> queueIsEmpty q" using that bq_list_Nil by (metis list.discI)
    then show ?thesis
      using Dequeue_front [OF that, of "replicate (esize_of q) 0"] by (auto simp: bq_deq_def)
  qed
qed

section \<open>Access by position and resizing\<close>

lemma unwrapped_list:
  assumes "q_begin q \<le> q_end q" "bq_inv q"
  shows "bq_count q = unat (q_end q) - unat (q_begin q)"
    "bq_list q = map (slot (pDataArray q) (esize_of q)) [unat (q_begin q)..<unat (q_end q)]"
proof -
  note b = bq_bounds [OF assms(2)]
  show c: "bq_count q = unat (q_end q) - unat (q_begin q)"
    using assms(1) by (simp add: bq_count_def ring_count_def word_le_nat_alt)
  have "(unat (q_begin q) + i) mod cap_of q = unat (q_begin q) + i"
    if "i < unat (q_end q) - unat (q_begin q)" for i
    using that b by simp
  then show "bq_list q = map (slot (pDataArray q) (esize_of q)) [unat (q_begin q)..<unat (q_end q)]"
    unfolding bq_list_def c ring_list_def by (intro nth_equalityI) auto
qed

lemma unwrapped_index:
  fixes i :: "16 word"
  assumes "q_begin q \<le> q_end q" "bq_inv q" "unat i < bq_count q"
  shows "\<not> uint (q_end q) - uint (q_begin q) \<le> uint i"
    "unat (q_begin q) + unat i < unat (q_end q)" "unat (q_begin q) + unat i < cap_of q"
    "int32 ((uint (q_begin q) + uint i) * uint (elementSize q)) = Ret (int ((unat (q_begin q) + unat i) * esize_of q))"
proof -
  note b = bq_bounds [OF assms(2)]
  show 1: "unat (q_begin q) + unat i < unat (q_end q)" using unwrapped_list(1) [OF assms(1,2)] assms(3) by simp
  then show 2: "unat (q_begin q) + unat i < cap_of q" using b by simp
  show "\<not> uint (q_end q) - uint (q_begin q) \<le> uint i" using 1 unfolding uint_unat16 by linarith
  show "int32 ((uint (q_begin q) + uint i) * uint (elementSize q)) = Ret (int ((unat (q_begin q) + unat i) * esize_of q))"
    unfolding uint_unat16 of_nat_add [symmetric] by (rule bq_offset [OF assms(2) 2])
qed

section \<open>Properties of the byte queue\<close>

text \<open>
  C5: a freshly initialised queue over an array of the right length returns, for every sequence
  of operations that never holds more than \<open>capacity - 1\<close> elements, exactly what a list queue
  returns, byte for byte, without undefined behaviour.
\<close>

theorem byte_queue_refines_list:
  assumes "0 < c" "length arr = unat c * unat es" "int (unat c * unat es) \<le> INT_MAX"
    and "ops_fmt (\<lambda>x. length x = unat es) ops" "fits (unat c - 1) ops 0"
  shows "\<exists>q'. run_ops (\<lambda>x q. queueEnqueue q x) bq_deq ops (queueInitialize arr es c)
             = Ret (fst (queue_ops ops []), q') \<and> bq_list q' = snd (queue_ops ops [])"
proof -
  let ?q = "queueInitialize arr es c"
  have inv: "bq_inv ?q" using assms(1-3) by (simp add: bq_inv_def queueInitialize_def)
  have "bq_list ?q = []" by (simp add: bq_list_def bq_count_def ring_count_def queueInitialize_def)
  moreover have "bq_room ?q = unat c - 1" "bq_fmt ?q = (\<lambda>x. length x = unat es)"
    by (auto simp: bq_room_def bq_fmt_def queueInitialize_def)
  ultimately show ?thesis using bq.run_refines [OF inv, of ops] assms(4,5) by auto
qed

theorem byte_queue_refines_list_witness:
  "\<exists>q'. run_ops (\<lambda>x q. queueEnqueue q x) bq_deq [Enq [1, 2], Enq [3, 4], Deq, Enq [5, 6], Deq, Deq, Deq]
          (queueInitialize [0, 0, 0, 0, 0, 0] 2 3) = Ret ([Some [1, 2], Some [3, 4], Some [5, 6], None], q')"
  using byte_queue_refines_list [of 3 "[0, 0, 0, 0, 0, 0]" 2
      "[Enq [1, 2], Enq [3, 4], Deq, Enq [5, 6], Deq, Deq, Deq]"]
  by (auto simp: INT_MAX_def)

text \<open>
  C34: the guard against a full queue never fires.  Enqueueing one element more than
  \<open>capacity - 1\<close> is accepted, moves the end onto the beginning, and the queue then reports
  that it is empty and not full: every element it held is lost.
\<close>

theorem byte_queue_overrun_empties:
  assumes "bq_inv q" "length x = unat (elementSize q)" "length (bq_list q) = unat (elementCapacity q) - 1"
  shows "\<exists>q'. queueEnqueue q x = Ret q' \<and> queueIsEmpty q' \<and> \<not> queueIsFull q' \<and> bq_list q' = []"
proof -
  note b = bq_bounds [OF assms(1)]
  from assms(1,2) obtain q' where q': "queueEnqueue q x = Ret q'" "bq_inv q'"
    "q_begin q' = q_begin q" "unat (q_end q') = Suc (unat (q_end q)) mod cap_of q"
    "elementCapacity q' = elementCapacity q"
    by (rule Enqueue_result) blast
  have "Suc (ring_count (cap_of q) (unat (q_begin q)) (unat (q_end q))) = cap_of q"
    using assms(3) b by (simp add: bq_count_def)
  then have "queueIsEmpty q'"
    using ring_count_overrun [OF b(1,2)] q' by (simp add: queueIsEmpty_def word_unat_eq_iff)
  with q' show ?thesis using bq_list_Nil [OF q'(2)] by (auto simp: queueIsFull_def bq_inv_def)
qed

theorem byte_queue_overrun_empties_witness:
  "\<exists>q'. queueEnqueue \<lparr>q_begin = 0, q_end = 1, pDataArray = [7, 0], elementSize = 1, elementCapacity = 2, isFull = False\<rparr> [9]
      = Ret q' \<and> queueIsEmpty q' \<and> \<not> queueIsFull q'"
  using byte_queue_overrun_empties [of "\<lparr>q_begin = 0, q_end = 1, pDataArray = [7, 0], elementSize = 1,
      elementCapacity = 2, isFull = False\<rparr>" "[9]"]
  by (auto simp: bq_inv_def INT_MAX_def bq_list_def bq_count_def ring_count_def)

text \<open>
  C38: the size function returns the number of elements exactly while the queue has not wrapped
  around; once the end is below the beginning it returns \<open>2^16 - capacity\<close> too much.
\<close>

theorem byte_queue_size:
  assumes "bq_inv q"
  shows "unat (queueGetSize q)
    = (if q_begin q \<le> q_end q then length (bq_list q)
       else length (bq_list q) + (2 ^ 16 - unat (elementCapacity q)))"
proof (cases "q_begin q \<le> q_end q")
  case True
  then show ?thesis
    using unwrapped_list(1) [OF True assms] unat_sub [OF True] by (simp add: queueGetSize_def)
next
  case False
  note b = bq_bounds [OF assms]
  have lt: "unat (q_end q) < unat (q_begin q)" using False by (simp add: not_le word_less_nat_alt)
  have "unat (q_end q - q_begin q) = 2 ^ 16 + unat (q_end q) - unat (q_begin q)"
    using lt unat_sub_if' [of "q_end q" "q_begin q"] by (simp add: not_le)
  then show ?thesis
    using False lt b by (simp add: queueGetSize_def bq_count_def ring_count_def)
qed

theorem byte_queue_size_witness:
  "unat (queueGetSize \<lparr>q_begin = 2, q_end = 1, pDataArray = [7, 0, 0], elementSize = 1, elementCapacity = 3, isFull = False\<rparr>)
   = 2 + (2 ^ 16 - 3)"
  using byte_queue_size [of "\<lparr>q_begin = 2, q_end = 1, pDataArray = [7, 0, 0], elementSize = 1,
      elementCapacity = 3, isFull = False\<rparr>"]
  by (auto simp: bq_inv_def INT_MAX_def bq_count_def ring_count_def word_le_nat_alt split: if_splits)

text \<open>
  C37: while the queue has not wrapped around, writing at a position replaces that element and no
  other, and the pointer later returned for the position addresses the bytes written.
\<close>

theorem byte_queue_set_get:
  assumes "bq_inv q" "q_begin q \<le> q_end q" "unat i < length (bq_list q)" "length x = unat (elementSize q)"
  shows "\<exists>q' off. queueSetData q i x = Ret q' \<and> bq_list q' = (bq_list q)[unat i := x]
           \<and> queueGetData q' i = Ret (Some off) \<and> take (unat (elementSize q)) (drop off (pDataArray q')) = x"
proof -
  note b = bq_bounds [OF assms(1)]
  let ?k = "unat (q_begin q) + unat i"
  have i: "unat i < bq_count q" using assms(3) by simp
  note u = unwrapped_index [OF assms(2,1) i]
  have len: "length (pDataArray q) = cap_of q * esize_of q" using assms(1) by (simp add: bq_inv_def)
  define q' where "q' = q\<lparr>pDataArray := take (?k * esize_of q) (pDataArray q) @ x
      @ drop (?k * esize_of q + esize_of q) (pDataArray q)\<rparr>"
  have set: "queueSetData q i x = Ret q'"
    unfolding queueSetData_def u(4) obind.simps nat_int memcpy_slot [OF len u(3) assms(4)] q'_def
    using u(1) by simp
  have r: "?k * esize_of q + esize_of q \<le> length (pDataArray q)" using slot_range [OF u(3)] len by simp
  have inv': "bq_inv q'" using assms(1,4) r by (auto simp: bq_inv_def q'_def)
  have sl: "slot (pDataArray q') (esize_of q) j = (if ?k = j then x else slot (pDataArray q) (esize_of q) j)"
    if "j < cap_of q" for j
    using slot_write [OF len u(3) that assms(4)] by (simp add: q'_def)
  have "bq_list q' = (bq_list q)[unat i := x]"
  proof (rule nth_equalityI)
    show "length (bq_list q') = length ((bq_list q)[unat i := x])" by (simp add: bq_count_def q'_def)
    fix j assume "j < length (bq_list q')"
    then have j: "unat (q_begin q) + j < unat (q_end q)"
      using unwrapped_list(1) [OF assms(2,1)] by (simp add: bq_count_def q'_def)
    with b sl show "bq_list q' ! j = (bq_list q)[unat i := x] ! j"
      using unwrapped_list(2) [OF assms(2,1)] unwrapped_list(2) [of q'] inv' assms(2) i
      by (auto simp: q'_def nth_list_update)
  qed
  moreover have "queueGetData q' i = Ret (Some (?k * esize_of q))"
  proof -
    have "?k * esize_of q \<le> length (pDataArray q')" using u(3) inv' by (simp add: bq_inv_def q'_def)
    moreover have "int32 ((uint (q_begin q') + uint i) * uint (elementSize q')) = Ret (int (?k * esize_of q))"
      "\<not> uint (q_end q') - uint (q_begin q') \<le> uint i"
      using u(1,4) by (simp_all add: q'_def del: of_nat_unat of_nat_mult of_nat_add)
    ultimately show ?thesis by (simp add: queueGetData_def del: of_nat_unat of_nat_mult of_nat_add)
  qed
  moreover have "take (esize_of q) (drop (?k * esize_of q) (pDataArray q')) = x"
    using sl [OF u(3)] by (simp add: slot_def)
  ultimately show ?thesis using set by blast
qed

theorem byte_queue_set_get_witness:
  "\<exists>q'. queueSetData \<lparr>q_begin = 1, q_end = 2, pDataArray = [7, 8, 9], elementSize = 1, elementCapacity = 3, isFull = False\<rparr> 0 [5]
     = Ret q' \<and> bq_list q' = [[5]]"
proof -
  let ?q = "\<lparr>q_begin = 1, q_end = 2, pDataArray = [7, 8, 9], elementSize = 1, elementCapacity = 3, isFull = False\<rparr>"
  have "bq_inv ?q" by (simp add: bq_inv_def INT_MAX_def)
  moreover have "bq_list ?q = [[8]]" by code_simp
  ultimately show ?thesis using byte_queue_set_get [of ?q 0 "[5]"] by auto
qed

text \<open>The copy that \<open>queueSetCapacity\<close> makes when the new size in bytes fits 16 bits.\<close>

lemma set_capacity_copies:
  assumes "bq_inv q" "queueGetSize q \<le> c" "unat c * esize_of q < 2 ^ 16" "malloc (unat c * esize_of q) = Some block"
  shows "queueSetCapacity malloc q c = obind (memcpy block 0 (pDataArray q) 0 (esize_of q * cap_of q))
    (\<lambda>arr. Ret (q\<lparr>pDataArray := arr, elementCapacity := c\<rparr>))"
proof -
  have "int (unat c * esize_of q) < int (2 ^ 16)" using assms(3) by (simp only: of_nat_less_iff)
  then have "int (unat c * esize_of q) \<le> INT_MAX" by (simp add: INT_MAX_def)
  from int32_nat [OF this] have n: "int32 (uint c * uint (elementSize q)) = Ret (int (unat c * esize_of q))"
    unfolding uint_unat16 of_nat_mult .
  have m: "int32 (uint (elementSize q) * uint (elementCapacity q)) = Ret (int (esize_of q * cap_of q))"
    using assms(1) int32_nat [of "esize_of q * cap_of q"] unfolding uint_unat16 of_nat_mult [symmetric]
    by (simp only: bq_inv_def mult.commute)
  have a: "malloc (unat (word_of_int (int (unat c * esize_of q)) :: 16 word)) = Some block"
    unfolding unat_of_nat16 [OF assms(3)] by (rule assms(4))
  show ?thesis
    using assms(2) unfolding queueSetCapacity_def Let_def n obind.simps a option.case m nat_int
    by (auto simp: queueGetSize_def)
qed

text \<open>Elements that have not wrapped around are the same in a longer array.\<close>

lemma bq_list_grow:
  assumes "bq_inv q" "q_begin q \<le> q_end q" "cap_of q \<le> unat c"
  shows "bq_list (q\<lparr>pDataArray := pDataArray q @ rest, elementCapacity := c\<rparr>) = bq_list q"
    (is "bq_list ?q' = _")
proof -
  note b = bq_bounds [OF assms(1)]
  have len: "length (pDataArray q) = esize_of q * cap_of q" using assms(1) by (simp add: bq_inv_def mult.commute)
  have le: "unat (q_begin q) \<le> unat (q_end q)" using assms(2) by (simp add: word_le_nat_alt)
  have "bq_count ?q' = bq_count q" using le by (simp add: bq_count_def ring_count_def)
  moreover have "slot (pDataArray ?q') (esize_of q) j = slot (pDataArray q) (esize_of q) j" if "j < cap_of q" for j
    using slot_range [OF that, of "esize_of q"] len by (simp add: slot_def mult.commute)
  moreover have "(unat (q_begin q) + i) mod cap_of q = unat (q_begin q) + i"
    "(unat (q_begin q) + i) mod unat c = unat (q_begin q) + i" "unat (q_begin q) + i < cap_of q"
    if "i < bq_count q" for i
    using that le b assms(3) unfolding bq_count_def by (auto simp: ring_count_def)
  ultimately show ?thesis by (simp add: bq_list_def ring_list_def)
qed

text \<open>
  growing the capacity of a queue that has not wrapped around keeps its elements, provided the
  new size in bytes still fits 16 bits; asking for fewer bytes than the array has makes the copy
  of the old array overrun the new one.
\<close>

theorem byte_queue_set_capacity:
  assumes "bq_inv q" "0 < elementSize q" "q_begin q \<le> q_end q" "queueGetSize q \<le> c" "unat c * unat (elementSize q) < 2 ^ 16"
    and "malloc (unat c * unat (elementSize q)) = Some block" "length block = unat c * unat (elementSize q)"
  shows "if unat (elementCapacity q) * unat (elementSize q) \<le> unat c * unat (elementSize q)
    then \<exists>q'. queueSetCapacity malloc q c = Ret q' \<and> queueGetCapacity q' = c \<and> bq_list q' = bq_list q
    else queueSetCapacity malloc q c = Throw Out_of_bounds"
proof -
  let ?es = "esize_of q" let ?old = "esize_of q * cap_of q"
  note copy = set_capacity_copies [of q c malloc block, OF assms(1,4,5,6)]
  have len: "length (pDataArray q) = ?old" using assms(1) by (simp add: bq_inv_def mult.commute)
  show ?thesis
  proof (cases "?old \<le> unat c * ?es")
    case True
    have "0 < ?es" using assms(2) by (simp add: word_less_nat_alt)
    with True have "cap_of q \<le> unat c" by (simp add: mult.commute)
    from bq_list_grow [OF assms(1,3) this] show ?thesis
      using True len assms(7) by (auto simp: copy memcpy_def mult.commute queueGetCapacity_def)
  next
    case False
    then show ?thesis using assms(7) by (simp add: copy memcpy_def mult.commute)
  qed
qed

theorem byte_queue_set_capacity_witness:
  "\<exists>q'. queueSetCapacity (\<lambda>n. Some (replicate n 0))
          \<lparr>q_begin = 1, q_end = 2, pDataArray = [7, 8, 9], elementSize = 1, elementCapacity = 3, isFull = False\<rparr> 5
        = Ret q' \<and> bq_list q' = [[8]]"
proof -
  let ?q = "\<lparr>q_begin = 1, q_end = 2, pDataArray = [7, 8, 9], elementSize = 1, elementCapacity = 3, isFull = False\<rparr>"
  have "bq_inv ?q" by (simp add: bq_inv_def INT_MAX_def)
  moreover have "bq_list ?q = [[8]]" by code_simp
  ultimately show ?thesis
    using byte_queue_set_capacity [of ?q 5 "\<lambda>n. Some (replicate n 0)"]
    by (auto simp: queueGetSize_def word_le_nat_alt)
qed

end
