(* ===== verification/Circular_Queue.thy ===== *)
theory Circular_Queue
  imports Machine
begin

text \<open>
  \<open>cjunk/practice/circularqueue.cc\<close>: the semaphore-guarded queue, shared by one producer and
  one consumer thread.  Every atomic access of \<open>push\<close>, \<open>try_push\<close> and \<open>pop\<close> is a step
  of its own, so that the threads interleave freely.  \<open>pop\<close> ends with
  \<open>m_sem_full.post()\<close>, which is not a member of \<open>std::counting_semaphore\<close>: what it does to
  the count is the parameter \<open>post\<close>.
\<close>

section \<open>State\<close>

text \<open>Where each thread stands, with the locals that are live there.\<close>

datatype 'a prod_pc =
    P_idle
  | P_acquired 'a
  | P_slot 'a nat
  | P_written

datatype 'a cons_pc =
    C_idle
  | C_acquired
  | C_slot nat
  | C_item 'a
  | C_released 'a
  | C_tail 'a "32 word"
  | C_tail_done 'a
  | C_head 'a "32 word"
  | C_head_done 'a

text \<open>
  The members of \<open>CircularQueue<T, N>\<close> (\<open>N\<close> is the length of \<open>m_data\<close>), the two
  threads, and the history: the items stored, in the order of their slots, the items that
  \<open>pop\<close> has returned, and those \<open>try_push\<close> refused.
\<close>

record 'a cq =
  m_head :: "32 word"
  m_tail :: "32 word"
  m_data :: "'a list"
  m_sem_empty :: nat
  m_sem_full :: nat
  producer :: "'a prod_pc"
  consumer :: "'a cons_pc"
  produced :: "'a list"
  consumed :: "'a list"
  refused :: "'a list"

abbreviation cq_N :: "'a cq \<Rightarrow> nat" where
  "cq_N q \<equiv> length (m_data q)"

definition CircularQueue :: "'a list \<Rightarrow> 'a cq" where
  "CircularQueue d =
     \<lparr>m_head = 0, m_tail = 0, m_data = d, m_sem_empty = 0, m_sem_full = length d,
      producer = P_idle, consumer = C_idle, produced = [], consumed = [], refused = []\<rparr>"

section \<open>Steps\<close>

datatype 'a cq_action = Push 'a | Try_push 'a | Try_spurious 'a | Prod | Cons

definition sem_acquire_full :: "'a \<Rightarrow> 'a cq \<Rightarrow> 'a cq option" where
  "sem_acquire_full x q =
     (if m_sem_full q = 0 then None
      else Some (q\<lparr>m_sem_full := m_sem_full q - 1, producer := P_acquired x\<rparr>))"

text \<open>The producer: a call of \<open>push\<close> or \<open>try_push\<close>, then the steps of its body.\<close>

fun push_step :: "'a cq \<Rightarrow> 'a cq option" where
  "push_step q =
     (case producer q of
        P_idle \<Rightarrow> None
      | P_acquired x \<Rightarrow>
          Some (q\<lparr>m_head := m_head q + 1, producer := P_slot x (unat (m_head q) mod cq_N q),
                   produced := produced q @ [x]\<rparr>)
      | P_slot x i \<Rightarrow> Some (q\<lparr>m_data := (m_data q)[i := x], producer := P_written\<rparr>)
      | P_written \<Rightarrow> Some (q\<lparr>m_sem_empty := m_sem_empty q + 1, producer := P_idle\<rparr>))"

definition cas :: "32 word \<Rightarrow> 32 word \<Rightarrow> 32 word \<Rightarrow> 32 word" where
  "cas var expected desired = (if var = expected then desired else var)"

definition reduce_index :: "32 word \<Rightarrow> nat \<Rightarrow> 32 word" where
  "reduce_index expected n = of_nat (unat expected mod n)"

text \<open>The consumer: one call of \<open>pop\<close> after another.\<close>

fun pop_step :: "(nat \<Rightarrow> nat) \<Rightarrow> 'a cq \<Rightarrow> 'a cq option" where
  "pop_step post q =
     (case consumer q of
        C_idle \<Rightarrow>
          if m_sem_empty q = 0 then None
          else Some (q\<lparr>m_sem_empty := m_sem_empty q - 1, consumer := C_acquired\<rparr>)
      | C_acquired \<Rightarrow>
          Some (q\<lparr>m_tail := m_tail q + 1, consumer := C_slot (unat (m_tail q) mod cq_N q)\<rparr>)
      | C_slot i \<Rightarrow> Some (q\<lparr>consumer := C_item (m_data q ! i)\<rparr>)
      | C_item x \<Rightarrow> Some (q\<lparr>m_sem_full := m_sem_full q + 1, consumer := C_released x\<rparr>)
      | C_released x \<Rightarrow> Some (q\<lparr>consumer := C_tail x (m_tail q)\<rparr>)
      | C_tail x e \<Rightarrow>
          Some (q\<lparr>m_tail := cas (m_tail q) e (reduce_index e (cq_N q)), consumer := C_tail_done x\<rparr>)
      | C_tail_done x \<Rightarrow> Some (q\<lparr>consumer := C_head x (m_head q)\<rparr>)
      | C_head x e \<Rightarrow>
          Some (q\<lparr>m_head := cas (m_head q) e (reduce_index e (cq_N q)), consumer := C_head_done x\<rparr>)
      | C_head_done x \<Rightarrow>
          Some (q\<lparr>m_sem_full := post (m_sem_full q), consumer := C_idle, consumed := consumed q @ [x]\<rparr>))"

fun cq_step :: "(nat \<Rightarrow> nat) \<Rightarrow> 'a cq_action \<Rightarrow> 'a cq \<Rightarrow> 'a cq option" where
  "cq_step post (Push x) q = (if producer q = P_idle then sem_acquire_full x q else None)"
| "cq_step post (Try_push x) q =
     (if producer q = P_idle
      then case sem_acquire_full x q of None \<Rightarrow> Some (q\<lparr>refused := refused q @ [x]\<rparr>) | Some q' \<Rightarrow> Some q'
      else None)"
| "cq_step post (Try_spurious x) q =
     (if producer q = P_idle then Some (q\<lparr>refused := refused q @ [x]\<rparr>) else None)"
| "cq_step post Prod q = push_step q"
| "cq_step post Cons q = pop_step post q"

text \<open>
  \<open>try_acquire\<close> may fail although the count is positive (\<open>Try_spurious\<close>); \<open>acquire\<close>
  blocks while it is zero, which is a step that is not enabled.
\<close>

inductive cq_reachable :: "(nat \<Rightarrow> nat) \<Rightarrow> 'a list \<Rightarrow> 'a cq \<Rightarrow> bool" for post d where
  cq_init: "cq_reachable post d (CircularQueue d)"
| cq_next: "cq_reachable post d q \<Longrightarrow> cq_step post a q = Some q' \<Longrightarrow> cq_reachable post d q'"

fun cq_run :: "(nat \<Rightarrow> nat) \<Rightarrow> 'a cq_action list \<Rightarrow> 'a cq \<Rightarrow> 'a cq option" where
  "cq_run post [] q = Some q"
| "cq_run post (a # as) q = (case cq_step post a q of None \<Rightarrow> None | Some q' \<Rightarrow> cq_run post as q')"

lemma cq_run_reachable:
  "cq_reachable post d q \<Longrightarrow> cq_run post as q = Some q' \<Longrightarrow> cq_reachable post d q'"
  by (induction as arbitrary: q) (auto split: option.splits intro: cq_next)

section \<open>The invariant\<close>

definition writing :: "'a cq \<Rightarrow> nat" where
  "writing q = (case producer q of P_slot _ _ \<Rightarrow> 1 | _ \<Rightarrow> 0)"

definition unreleased :: "'a cq \<Rightarrow> nat" where
  "unreleased q = (case producer q of P_slot _ _ \<Rightarrow> 1 | P_written \<Rightarrow> 1 | _ \<Rightarrow> 0)"

definition holding :: "'a cq \<Rightarrow> nat" where
  "holding q = (case producer q of P_acquired _ \<Rightarrow> 1 | _ \<Rightarrow> 0)"

definition claiming :: "'a cq \<Rightarrow> nat" where
  "claiming q = (case consumer q of C_acquired \<Rightarrow> 1 | _ \<Rightarrow> 0)"

definition reading :: "'a cq \<Rightarrow> nat" where
  "reading q = (case consumer q of C_slot _ \<Rightarrow> 1 | _ \<Rightarrow> 0)"

definition occupying :: "'a cq \<Rightarrow> nat" where
  "occupying q = (case consumer q of C_slot _ \<Rightarrow> 1 | C_item _ \<Rightarrow> 1 | _ \<Rightarrow> 0)"

definition in_pop :: "'a cq \<Rightarrow> nat" where
  "in_pop q = (case consumer q of C_idle \<Rightarrow> 0 | C_acquired \<Rightarrow> 0 | _ \<Rightarrow> 1)"

text \<open>The number of slots the consumer has claimed with \<open>m_tail++\<close>.\<close>

definition taken :: "'a cq \<Rightarrow> nat" where
  "taken q = length (consumed q) + in_pop q"

fun item_of :: "'a cons_pc \<Rightarrow> 'a option" where
  "item_of (C_item x) = Some x"
| "item_of (C_released x) = Some x"
| "item_of (C_tail x e) = Some x"
| "item_of (C_tail_done x) = Some x"
| "item_of (C_head x e) = Some x"
| "item_of (C_head_done x) = Some x"
| "item_of _ = None"

lemmas cq_counts = writing_def unreleased_def holding_def claiming_def reading_def occupying_def
  in_pop_def taken_def

text \<open>
  A slot is in use from the moment \<open>push\<close> has passed the semaphore until \<open>pop\<close> has copied the item out.
  An execution is paced when no more than \<open>N\<close> slots are ever in use, whatever \<open>post\<close> does to the count.
\<close>

definition cq_room :: "'a cq \<Rightarrow> bool" where
  "cq_room q \<longleftrightarrow> length (produced q) + holding q + occupying q \<le> cq_N q + taken q"

inductive cq_paced :: "(nat \<Rightarrow> nat) \<Rightarrow> 'a list \<Rightarrow> 'a cq \<Rightarrow> bool" for post d where
  paced_init: "cq_paced post d (CircularQueue d)"
| paced_next: "cq_paced post d q \<Longrightarrow> cq_step post a q = Some q' \<Longrightarrow> cq_room q' \<Longrightarrow> cq_paced post d q'"

definition cq_inv :: "nat \<Rightarrow> 'a cq \<Rightarrow> bool" where
  "cq_inv n q \<longleftrightarrow>
     cq_N q = n
     \<and> unat (m_head q) \<le> length (produced q)
     \<and> unat (m_tail q) \<le> taken q
     \<and> unat (m_head q) mod n = length (produced q) mod n
     \<and> unat (m_tail q) mod n = taken q mod n
     \<and> m_sem_empty q + taken q + claiming q + unreleased q = length (produced q)
     \<and> cq_room q
     \<and> (\<forall>i. taken q \<le> i + reading q \<longrightarrow> i + writing q < length (produced q) \<longrightarrow> m_data q ! (i mod n) = produced q ! i)
     \<and> (\<forall>x i. producer q = P_slot x i \<longrightarrow>
          produced q \<noteq> [] \<and> i = (length (produced q) - 1) mod n \<and> x = last (produced q))
     \<and> (\<forall>i. consumer q = C_slot i \<longrightarrow> i = (taken q - 1) mod n)
     \<and> (\<forall>x. item_of (consumer q) = Some x \<longrightarrow> x = produced q ! (taken q - 1))
     \<and> consumed q = take (length (consumed q)) (produced q)"

text \<open>Slots of the window in use are distinct.\<close>

lemma window_distinct: "j < k \<Longrightarrow> k - j < n \<Longrightarrow> j mod n \<noteq> k mod (n :: nat)"
  by (metis dvd_imp_le leD less_imp_le mod_eq_dvd_iff_nat zero_less_diff)

text \<open>The counters may wrap around where \<open>N\<close> divides \<open>2^32\<close>, and must not otherwise.\<close>

definition no_wrap :: "nat \<Rightarrow> nat \<Rightarrow> bool" where
  "no_wrap n items \<longleftrightarrow> n dvd 2 ^ 32 \<or> items < 2 ^ 32"

lemma inc_mod:
  assumes "no_wrap n (Suc k)" "unat (h :: 32 word) mod n = k mod n" "unat h \<le> k"
  shows "unat (h + 1) mod n = Suc k mod n \<and> unat (h + 1) \<le> Suc k"
proof -
  have h: "unat (h + 1) = Suc (unat h) mod 2 ^ 32" by (simp add: unat_word_ariths)
  moreover have "unat (h + 1) mod n = Suc (unat h) mod n"
    using assms(1,3) h by (auto simp: no_wrap_def mod_mod_cancel)
  moreover have "unat (h + 1) \<le> Suc (unat h)" unfolding h by (rule mod_less_eq_dividend)
  ultimately show ?thesis using assms(2,3) by (metis le_trans mod_Suc_eq Suc_le_mono)
qed

lemma unat_reduce_index: "unat (reduce_index e n) = unat e mod n"
proof -
  have "unat e < 2 ^ 32" using unsigned_less [of e, where 'a = nat] by simp
  then have "unat e mod n < 2 ^ 32" using mod_less_eq_dividend [of "unat e" n] by linarith
  then show ?thesis by (simp add: reduce_index_def unsigned_of_nat take_bit_nat_eq_self)
qed

lemma cas_mod: "unat (cas v e (reduce_index e n)) mod n = unat v mod n"
  by (simp add: cas_def unat_reduce_index)

lemma cas_le: "unat (cas v e (reduce_index e n)) \<le> unat v"
  by (simp add: cas_def unat_reduce_index)

lemma cq_inv_bounds:
  assumes "cq_inv n q"
  shows "taken q + claiming q + unreleased q \<le> length (produced q)"
    "length (produced q) + holding q + occupying q \<le> n + taken q"
    "length (consumed q) \<le> length (produced q)"
  using assms by (auto simp: cq_inv_def cq_room_def taken_def)

lemma acquire_full_inv:
  assumes "cq_inv n q" "producer q = P_idle" "sem_acquire_full x q = Some q'" "cq_room q'"
  shows "cq_inv n q'"
  using assms by (auto simp: sem_acquire_full_def cq_inv_def cq_counts split: if_splits)

lemma push_step_inv:
  assumes inv: "cq_inv n q" and n: "0 < n" and step: "push_step q = Some q'"
    and room: "cq_room q'" and wrap: "no_wrap n (length (produced q'))"
  shows "cq_inv n q'"
proof (cases "producer q")
  case P_idle
  with step show ?thesis by simp
next
  case (P_acquired x)
  note b = cq_inv_bounds [OF inv]
  have q': "q' = q\<lparr>m_head := m_head q + 1, producer := P_slot x (unat (m_head q) mod cq_N q),
      produced := produced q @ [x]\<rparr>"
    using step P_acquired by simp
  have "unat (m_head q + 1) mod n = Suc (length (produced q)) mod n \<and> unat (m_head q + 1) \<le> Suc (length (produced q))"
    using inv wrap by (intro inc_mod) (simp_all add: cq_inv_def q')
  then show ?thesis
    using inv P_acquired b room unfolding q' cq_inv_def
    by (auto simp: cq_counts nth_append split: cons_pc.splits)
next
  case (P_slot x i)
  note b = cq_inv_bounds [OF inv]
  let ?L = "length (produced q)"
  have x: "produced q \<noteq> []" "i = (?L - 1) mod n" "x = produced q ! (?L - 1)"
    using inv P_slot by (auto simp: cq_inv_def last_conv_nth)
  have q': "q' = q\<lparr>m_data := (m_data q)[i := x], producer := P_written\<rparr>"
    using step P_slot by simp
  have "(m_data q)[i := x] ! (j mod n) = produced q ! j" if j: "taken q \<le> j + reading q" "j < ?L" for j
  proof (cases "j = ?L - 1")
    case True
    then show ?thesis using x inv n by (simp add: cq_inv_def)
  next
    case False
    have "reading q \<le> occupying q" by (simp add: cq_counts split: cons_pc.split)
    with False j b(2) have "j < ?L - 1" "?L - 1 - j < n" by linarith+
    then have "j mod n \<noteq> i" unfolding x(2) by (rule window_distinct)
    moreover have "m_data q ! (j mod n) = produced q ! j"
      using inv j False P_slot by (simp add: cq_inv_def writing_def)
    ultimately show ?thesis by simp
  qed
  then show ?thesis
    using inv P_slot room unfolding q' cq_inv_def by (auto simp: cq_counts)
next
  case P_written
  with step inv room show ?thesis by (auto simp: cq_inv_def cq_counts)
qed

lemma pop_step_inv:
  assumes inv: "cq_inv n q" and step: "pop_step post q = Some q'"
    and room: "cq_room q'" and wrap: "no_wrap n (length (produced q'))"
  shows "cq_inv n q'"
proof (cases "consumer q")
  case C_acquired
  then have "Suc (taken q) \<le> length (produced q)" "produced q' = produced q"
    using cq_inv_bounds(1) [OF inv] step by (auto simp: claiming_def)
  then have "no_wrap n (Suc (taken q))" using wrap by (auto simp: no_wrap_def)
  then have "unat (m_tail q + 1) mod n = Suc (taken q) mod n \<and> unat (m_tail q + 1) \<le> Suc (taken q)"
    using inv by (intro inc_mod) (simp_all add: cq_inv_def)
  with C_acquired step inv room show ?thesis
    by (auto simp: cq_inv_def cq_counts)
next
  case (C_slot i)
  note b = cq_inv_bounds [OF inv]
  have i: "i = (taken q - 1) mod n" "taken q = Suc (length (consumed q))"
    using inv C_slot by (simp_all add: cq_inv_def cq_counts)
  have "writing q \<le> unreleased q" by (simp add: cq_counts split: prod_pc.split)
  then have "m_data q ! i = produced q ! (taken q - 1)"
    using inv b(1) i C_slot by (simp add: cq_inv_def reading_def)
  with C_slot step inv room show ?thesis by (auto simp: cq_inv_def cq_counts)
next
  case (C_tail x e)
  with step inv room cas_mod [of "m_tail q" e n] cas_le [of "m_tail q" e n] show ?thesis
    by (auto simp: cq_inv_def cq_counts)
next
  case (C_head x e)
  with step inv room cas_mod [of "m_head q" e n] cas_le [of "m_head q" e n] show ?thesis
    by (auto simp: cq_inv_def cq_counts)
next
  case (C_head_done x)
  note b = cq_inv_bounds [OF inv]
  have t: "taken q = Suc (length (consumed q))" using C_head_done by (simp add: cq_counts)
  have "x = produced q ! length (consumed q)" using inv C_head_done t by (simp add: cq_inv_def)
  then have "consumed q @ [x] = take (Suc (length (consumed q))) (produced q)"
    using inv b(1) t by (simp add: cq_inv_def take_Suc_conv_app_nth)
  with C_head_done step inv room show ?thesis by (auto simp: cq_inv_def cq_counts)
qed (use step inv room in \<open>auto simp: cq_inv_def cq_counts split: if_splits\<close>)

lemma cq_step_inv:
  assumes "cq_inv n q" "0 < n" "cq_step post a q = Some q'" "cq_room q'" "no_wrap n (length (produced q'))"
  shows "cq_inv n q'"
proof (cases a)
  case (Push x)
  with assms acquire_full_inv show ?thesis by (auto split: if_splits)
next
  case (Try_push x)
  with assms acquire_full_inv [of n q x] show ?thesis
    by (auto simp: cq_inv_def cq_counts split: if_splits option.splits)
next
  case (Try_spurious x)
  with assms show ?thesis by (auto simp: cq_inv_def cq_counts split: if_splits)
qed (use assms push_step_inv pop_step_inv in \<open>auto simp del: push_step.simps pop_step.simps\<close>)

lemma cq_init_inv: "0 < length d \<Longrightarrow> cq_inv (length d) (CircularQueue d)"
  by (simp add: CircularQueue_def cq_inv_def cq_room_def cq_counts)

lemma produced_mono: "cq_step post a q = Some q' \<Longrightarrow> length (produced q) \<le> length (produced q')"
  by (cases a) (auto simp: sem_acquire_full_def split: if_splits option.splits prod_pc.splits cons_pc.splits)

lemma cq_paced_inv:
  "cq_paced post d q \<Longrightarrow> 0 < length d \<Longrightarrow> no_wrap (length d) (length (produced q)) \<Longrightarrow> cq_inv (length d) q"
proof (induction rule: cq_paced.induct)
  case (paced_next q a q')
  have "no_wrap (length d) (length (produced q))"
    using paced_next.prems(2) produced_mono [OF paced_next.hyps(2)] by (auto simp: no_wrap_def)
  then show ?case using paced_next cq_step_inv [of "length d" q post a q'] by blast
qed (rule cq_init_inv)

section \<open>What the semaphores count\<close>

text \<open>\<open>post\<close> raises the count by \<open>r\<close>: by nothing, or by one as the POSIX function of that name does.\<close>

definition sem_inv :: "nat \<Rightarrow> nat \<Rightarrow> 'a cq \<Rightarrow> bool" where
  "sem_inv r n q \<longleftrightarrow> cq_N q = n
     \<and> m_sem_empty q + taken q + claiming q + unreleased q = length (produced q)
     \<and> m_sem_full q + length (produced q) + holding q + occupying q = n + taken q + r * length (consumed q)"

lemma sem_step_inv:
  assumes "sem_inv r n q" "cq_step (\<lambda>k. k + r) a q = Some q'"
  shows "sem_inv r n q'"
proof (cases a)
  case Prod
  then show ?thesis using assms by (cases "producer q") (auto simp: sem_inv_def cq_counts)
next
  case Cons
  then show ?thesis using assms by (cases "consumer q") (auto simp: sem_inv_def cq_counts split: if_splits)
qed (use assms in \<open>auto simp: sem_inv_def sem_acquire_full_def cq_counts split: if_splits option.splits\<close>)

lemma sem_reachable_inv: "cq_reachable (\<lambda>k. k + r) d q \<Longrightarrow> sem_inv r (length d) q"
proof (induction rule: cq_reachable.induct)
  case (cq_next q a q')
  then show ?case by (blast intro: sem_step_inv)
qed (simp add: CircularQueue_def sem_inv_def cq_counts)

lemma reachable_paced: "cq_reachable (\<lambda>k. k + 0) d q \<Longrightarrow> cq_paced (\<lambda>k. k + 0) d q"
proof (induction rule: cq_reachable.induct)
  case (cq_next q a q')
  then have "cq_reachable (\<lambda>k. k + 0) d q'" by (blast intro: cq_reachable.cq_next)
  then have "cq_room q'" using sem_reachable_inv [of 0 d q'] by (auto simp: sem_inv_def cq_room_def)
  with cq_next show ?case by (blast intro: paced_next)
qed (rule paced_init)

section \<open>Properties of the circular queue\<close>

text \<open>
  C6: whatever \<open>post\<close> does to the count, with one producer and one consumer every interleaving of the atomic
  steps in which no more than \<open>N\<close> slots are ever in use returns the items in the order they were stored, none
  lost and none twice; for a capacity that divides \<open>2^32\<close> without end, for any other while fewer than \<open>2^32\<close>
  items were stored.  If \<open>post\<close> leaves the count alone, the semaphores allow no other execution.
\<close>

theorem circular_queue_fifo:
  assumes "cq_paced post d q" "0 < length d" "length d dvd 2 ^ 32 \<or> length (produced q) < 2 ^ 32"
  shows "consumed q = take (length (consumed q)) (produced q)
    \<and> (\<forall>q'. cq_reachable (\<lambda>k. k + 0) d q' \<longrightarrow> cq_paced (\<lambda>k. k + 0) d q')"
proof -
  have "cq_inv (length d) q" using cq_paced_inv [OF assms(1,2)] assms(3) by (simp add: no_wrap_def)
  then show ?thesis using reachable_paced by (auto simp: cq_inv_def)
qed

abbreviation one_push :: "'a \<Rightarrow> 'a cq_action list" where
  "one_push x \<equiv> [Push x, Prod, Prod, Prod]"

abbreviation one_pop :: "'a cq_action list" where
  "one_pop \<equiv> replicate 9 Cons"

fun cq_paced_run :: "(nat \<Rightarrow> nat) \<Rightarrow> 'a cq_action list \<Rightarrow> 'a cq \<Rightarrow> 'a cq option" where
  "cq_paced_run post [] q = Some q"
| "cq_paced_run post (a # as) q =
     (case cq_step post a q of None \<Rightarrow> None | Some q' \<Rightarrow> if cq_room q' then cq_paced_run post as q' else None)"

lemma cq_paced_run: "cq_paced post d q \<Longrightarrow> cq_paced_run post as q = Some q' \<Longrightarrow> cq_paced post d q'"
  by (induction as arbitrary: q) (auto split: option.splits if_splits intro: paced_next)

text \<open>A queue of ten items, as in \<open>test_queue\<close>, whose \<open>post\<close> raises the count, with interleaved calls.\<close>

abbreviation demo_actions :: "nat cq_action list" where
  "demo_actions \<equiv> one_push 5 @ [Cons, Push 6, Cons, Prod, Cons, Prod] @ replicate 6 Cons"

theorem circular_queue_fifo_witness:
  "\<exists>q. cq_paced Suc (replicate 10 (0 :: nat)) q \<and> produced q = [5, 6] \<and> consumed q = [5]
       \<and> consumed q = take (length (consumed q)) (produced q)"
proof -
  have "map_option (\<lambda>q. (produced q, consumed q))
      (cq_paced_run Suc demo_actions (CircularQueue (replicate 10 0))) = Some ([5, 6], [5])"
    by code_simp
  then obtain q where "cq_paced_run Suc demo_actions (CircularQueue (replicate 10 0)) = Some q"
    and pc: "produced q = [5, 6]" "consumed q = [5]"
    by (auto simp del: cq_paced_run.simps)
  then have paced: "cq_paced Suc (replicate 10 0) q" using cq_paced_run paced_init by blast
  show ?thesis using circular_queue_fifo [OF paced] paced pc by auto
qed

text \<open>
  C11: whether \<open>post\<close> leaves the count alone (\<open>r = 0\<close>) or raises it (\<open>r = 1\<close>, or by any \<open>r\<close>), no
  interleaving deadlocks: in every reachable state the producer can go on or start a push, or the consumer can go
  on or start a pop.  When both threads are between calls, the two counts add up to the capacity and
  \<open>r\<close> more for every item returned: each pop of a queue whose \<open>post\<close> raises the count adds a slot that does
  not exist.
\<close>

theorem circular_queue_no_deadlock:
  assumes "cq_reachable (\<lambda>k. k + r) d q" "0 < length d"
  shows "(cq_step (\<lambda>k. k + r) (Push x) q \<noteq> None \<or> cq_step (\<lambda>k. k + r) Prod q \<noteq> None
      \<or> cq_step (\<lambda>k. k + r) Cons q \<noteq> None)
    \<and> (producer q = P_idle \<and> consumer q = C_idle \<longrightarrow>
        m_sem_full q + m_sem_empty q = length d + r * length (consumed q))"
proof -
  have inv: "sem_inv r (length d) q" by (rule sem_reachable_inv [OF assms(1)])
  have sum: "m_sem_full q + m_sem_empty q = length d + r * length (consumed q)"
    if "producer q = P_idle" "consumer q = C_idle"
    using inv that by (auto simp: sem_inv_def cq_counts)
  show ?thesis
  proof (cases "producer q = P_idle \<and> consumer q = C_idle")
    case True
    with sum assms(2) show ?thesis by (auto simp: sem_acquire_full_def)
  next
    case False
    then show ?thesis by (auto split: prod_pc.split cons_pc.split)
  qed
qed

theorem circular_queue_no_deadlock_witness:
  "\<exists>q. cq_reachable (\<lambda>k. k + 1) (replicate 10 (0 :: nat)) q \<and> m_sem_full q + m_sem_empty q = 11"
proof -
  have "map_option (\<lambda>q. (length (consumed q), producer q, consumer q))
      (cq_run (\<lambda>k. k + 1) (one_push 1 @ one_pop) (CircularQueue (replicate 10 (0 :: nat)))) = Some (1, P_idle, C_idle)"
    by code_simp
  then obtain q where run: "cq_run (\<lambda>k. k + 1) (one_push 1 @ one_pop) (CircularQueue (replicate 10 (0 :: nat))) = Some q"
    and rest: "length (consumed q) = 1" "producer q = P_idle" "consumer q = C_idle"
    by (auto simp del: cq_run.simps)
  have r: "cq_reachable (\<lambda>k. k + 1) (replicate 10 0) q" using cq_run_reachable [OF cq_init run] .
  show ?thesis using circular_queue_no_deadlock [OF r, of 7] r rest by auto
qed

text \<open>
  if \<open>post\<close> raises the count as \<open>release\<close> does, each pop frees two slots: in the queue of ten, after one push
  and one pop eleven more pushes succeed, the last overwrites an item that is still stored, and the next pop
  returns it in place of the lost one.
\<close>

theorem circular_queue_double_release:
  "\<exists>q. cq_reachable Suc (replicate 10 (0 :: nat)) q \<and> produced q = [1..<13] \<and> consumed q = [1, 12]"
proof -
  let ?as = "one_push 1 @ one_pop @ concat (map one_push [2..<13]) @ one_pop"
  have "map_option (\<lambda>q. (produced q, consumed q)) (cq_run Suc ?as (CircularQueue (replicate 10 (0 :: nat))))
    = Some ([1..<13], [1, 12])"
    by code_simp
  then obtain q where "cq_run Suc ?as (CircularQueue (replicate 10 (0 :: nat))) = Some q"
    "produced q = [1..<13]" "consumed q = [1, 12]"
    by (auto simp del: cq_run.simps)
  then show ?thesis using cq_run_reachable cq_init by blast
qed

end
