(* ===== verification/Raii.thy ===== *)
theory Raii
  imports Prelude
begin

text \<open>
  The contract of a class that owns a resource: its destructor gives back exactly what its constructor
  took.  Nested scopes of such objects are run once here, for every class that keeps the contract.
\<close>

fun scopes ::
  "nat \<Rightarrow> ('s \<Rightarrow> ('e, 'o \<times> 's) outcome) \<Rightarrow> ('o \<Rightarrow> 's \<Rightarrow> ('e, unit \<times> 's) outcome) \<Rightarrow> 's \<Rightarrow> ('e, 's) outcome" where
  "scopes 0 ctor dtor s = Ret s"
| "scopes (Suc n) ctor dtor s =
     obind (ctor s) (\<lambda>(x, s1).
     obind (scopes n ctor dtor s1) (\<lambda>s2.
     obind (dtor x s2) (\<lambda>(_, s3). Ret s3)))"

locale raii =
  fixes ctor :: "'s \<Rightarrow> ('e, 'o \<times> 's) outcome"
    and dtor :: "'o \<Rightarrow> 's \<Rightarrow> ('e, unit \<times> 's) outcome"
    and owned :: "'s \<Rightarrow> 'r"
    and failures :: "'e set"
  assumes ctor_fails: "ctor s = Throw e \<Longrightarrow> e \<in> failures"
    and ctor_ends: "ctor s \<noteq> Diverge"
    and dtor_restores: "ctor s = Ret (x, s1) \<Longrightarrow> owned s2 = owned s1 \<Longrightarrow>
      (\<exists>s3. dtor x s2 = Ret ((), s3) \<and> owned s3 = owned s) \<or> (\<exists>e \<in> failures. dtor x s2 = Throw e)"
begin

lemma scopes_restore:
  "(\<exists>s'. scopes n ctor dtor s = Ret s' \<and> owned s' = owned s) \<or> (\<exists>e \<in> failures. scopes n ctor dtor s = Throw e)"
proof (induction n arbitrary: s)
  case (Suc n)
  show ?case
  proof (cases "ctor s")
    case (Ret y)
    obtain x s1 where y: "y = (x, s1)" by (cases y)
    from Suc [of s1] show ?thesis
    proof
      assume "\<exists>s'. scopes n ctor dtor s1 = Ret s' \<and> owned s' = owned s1"
      then obtain s2 where s2: "scopes n ctor dtor s1 = Ret s2" "owned s2 = owned s1" by blast
      from dtor_restores [OF Ret [unfolded y] s2(2)] show ?thesis using Ret y s2(1) by auto
    qed (use Ret y in auto)
  qed (use ctor_fails ctor_ends in auto)
qed simp

lemma scopes_return:
  assumes "\<And>s. \<exists>x s1. ctor s = Ret (x, s1)"
    and "\<And>s x s1 s2 e. ctor s = Ret (x, s1) \<Longrightarrow> owned s2 = owned s1 \<Longrightarrow> dtor x s2 \<noteq> Throw e"
  shows "\<exists>s'. scopes n ctor dtor s = Ret s' \<and> owned s' = owned s"
proof (induction n arbitrary: s)
  case (Suc n)
  from assms(1) obtain x s1 where c: "ctor s = Ret (x, s1)" by blast
  from Suc [of s1] obtain s2 where s2: "scopes n ctor dtor s1 = Ret s2" "owned s2 = owned s1" by blast
  from dtor_restores [OF c s2(2)] assms(2) [OF c s2(2)] show ?case using c s2(1) by auto
qed simp

end

end
