(* ===== verification/Descriptors.thy ===== *)
theory Descriptors
  imports Raii Cxx_Lib
begin

text \<open>
  \<open>cjunk/practice/sendFile.cc\<close>: the classes that own file descriptors, and \<open>main\<close>.  A
  program step works on the descriptor table of the process.  \<open>exit(1)\<close> after a message to
  \<open>std::cerr\<close> is \<open>Throw\<close> with that message; the reason text that \<open>strerror\<close> appends
  is left out.  Whether a system call succeeds is the parameter \<open>ok\<close>, indexed by the number of calls made
  before; \<open>close\<close> also fails on a descriptor that is not open, and a new descriptor is the lowest free number.
\<close>

section \<open>The process\<close>

record proc =
  open_fds :: "nat list"
  calls :: nat

type_synonym 'a prog = "proc \<Rightarrow> (string, 'a \<times> proc) outcome"

definition lowest_free :: "nat list \<Rightarrow> nat" where
  "lowest_free fds = hd (filter (\<lambda>n. n \<notin> set fds) [0..<Suc (length fds)])"

text \<open>A call that may fail: message when it does.\<close>

definition sys_check :: "(nat \<Rightarrow> bool) \<Rightarrow> string \<Rightarrow> unit prog" where
  "sys_check ok msg p =
     (if ok (calls p) then Ret ((), p\<lparr>calls := calls p + 1\<rparr>) else Throw msg)"

definition sys_new_fd :: "(nat \<Rightarrow> bool) \<Rightarrow> string \<Rightarrow> nat prog" where
  "sys_new_fd ok msg p =
     obind (sys_check ok msg p) (\<lambda>(_, p').
       let fd = lowest_free (open_fds p')
       in Ret (fd, p'\<lparr>open_fds := fd # open_fds p'\<rparr>))"

definition close_fd :: "(nat \<Rightarrow> bool) \<Rightarrow> nat \<Rightarrow> unit prog" where
  "close_fd ok fd p =
     (if fd \<in> set (open_fds p) \<and> ok (calls p)
      then Ret ((), p\<lparr>calls := calls p + 1, open_fds := removeAll fd (open_fds p)\<rparr>)
      else Throw ''close() failed: '')"

section \<open>Socket, Server and Client\<close>

record Socket = sock :: nat

definition Socket_ctor :: "(nat \<Rightarrow> bool) \<Rightarrow> Socket prog" where
  "Socket_ctor ok p = omap (\<lambda>(fd, p'). (\<lparr>sock = fd\<rparr>, p')) (sys_new_fd ok ''socket() failed: '' p)"

definition Socket_dtor :: "(nat \<Rightarrow> bool) \<Rightarrow> Socket \<Rightarrow> unit prog" where
  "Socket_dtor ok s = close_fd ok (sock s)"

definition Server_ctor :: "(nat \<Rightarrow> bool) \<Rightarrow> Socket prog" where
  "Server_ctor ok p =
     obind (Socket_ctor ok p) (\<lambda>(s, p1).
     obind (sys_check ok ''bind() failed: '' p1) (\<lambda>(_, p2). Ret (s, p2)))"

text \<open>The body of the destructor runs first, then the destructor of the member.\<close>

definition Server_dtor :: "(nat \<Rightarrow> bool) \<Rightarrow> Socket \<Rightarrow> unit prog" where
  "Server_dtor ok s p = obind (close_fd ok (sock s) p) (\<lambda>(_, p1). Socket_dtor ok s p1)"

definition Server_Listen :: "(nat \<Rightarrow> bool) \<Rightarrow> Socket \<Rightarrow> unit prog" where
  "Server_Listen ok s p = sys_check ok ''listen() failed: '' p"

definition Server_Accept :: "(nat \<Rightarrow> bool) \<Rightarrow> Socket \<Rightarrow> nat prog" where
  "Server_Accept ok s p = sys_new_fd ok ''accept() failed: '' p"

definition Client_ctor :: "(nat \<Rightarrow> bool) \<Rightarrow> Socket prog" where
  "Client_ctor ok p =
     obind (Socket_ctor ok p) (\<lambda>(s, p1).
     obind (sys_check ok ''connect() failed: '' p1) (\<lambda>(_, p2). Ret (s, p2)))"

definition Client_dtor :: "(nat \<Rightarrow> bool) \<Rightarrow> Socket \<Rightarrow> unit prog" where
  "Client_dtor ok s p = obind (close_fd ok (sock s) p) (\<lambda>(_, p1). Socket_dtor ok s p1)"

section \<open>File, FileDescriptor and their vectors\<close>

text \<open>
  Both classes declare a destructor and no copy operation, so a copy holds the same descriptor.
  The objects are represented by their descriptors.
\<close>

definition File_ctor :: "(nat \<Rightarrow> bool) \<Rightarrow> nat prog" where
  "File_ctor ok p = sys_new_fd ok ''open() failed: '' p"

definition File_dtor :: "(nat \<Rightarrow> bool) \<Rightarrow> nat \<Rightarrow> unit prog" where
  "File_dtor ok fd = close_fd ok fd"

definition FileDescriptor_dtor :: "(nat \<Rightarrow> bool) \<Rightarrow> nat \<Rightarrow> unit prog" where
  "FileDescriptor_dtor ok fd = close_fd ok fd"

fun destroy_all :: "(nat \<Rightarrow> bool) \<Rightarrow> nat list \<Rightarrow> unit prog" where
  "destroy_all ok [] p = Ret ((), p)"
| "destroy_all ok (fd # fds) p = obind (close_fd ok fd p) (\<lambda>(_, p'). destroy_all ok fds p')"

text \<open>
  \<open>push_back\<close> copies its argument; when the vector has no spare capacity
  (\<open>grows (size)\<close>) the old elements are copied over and destroyed.
\<close>

definition push_back :: "(nat \<Rightarrow> bool) \<Rightarrow> (nat \<Rightarrow> bool) \<Rightarrow> nat list \<Rightarrow> nat \<Rightarrow> nat list prog" where
  "push_back ok grows v fd p =
     obind (if grows (length v) then destroy_all ok v p else Ret ((), p)) (\<lambda>(_, p'). Ret (v @ [fd], p'))"

definition FileDescriptorVector_Add :: "(nat \<Rightarrow> bool) \<Rightarrow> (nat \<Rightarrow> bool) \<Rightarrow> nat list \<Rightarrow> nat \<Rightarrow> nat list prog" where
  "FileDescriptorVector_Add ok grows v fd p =
     obind (push_back ok grows v fd p) (\<lambda>(v', p1).
     obind (FileDescriptor_dtor ok fd p1) (\<lambda>(_, p2). Ret (v', p2)))"

definition FileVector_Add :: "(nat \<Rightarrow> bool) \<Rightarrow> (nat \<Rightarrow> bool) \<Rightarrow> nat list \<Rightarrow> nat list prog" where
  "FileVector_Add ok grows v p =
     obind (File_ctor ok p) (\<lambda>(fd, p1).
     obind (push_back ok grows v fd p1) (\<lambda>(v', p2).
     obind (File_dtor ok fd p2) (\<lambda>(_, p3). Ret (v', p3))))"

text \<open>The destructors close every element and then destroy the elements themselves.\<close>

definition FileVector_dtor :: "(nat \<Rightarrow> bool) \<Rightarrow> nat list \<Rightarrow> unit prog" where
  "FileVector_dtor ok v p = obind (destroy_all ok v p) (\<lambda>(_, p1). destroy_all ok v p1)"

definition FileDescriptorVector_dtor :: "(nat \<Rightarrow> bool) \<Rightarrow> nat list \<Rightarrow> unit prog" where
  "FileDescriptorVector_dtor ok v p = obind (destroy_all ok v p) (\<lambda>(_, p1). destroy_all ok v p1)"

section \<open>main\<close>

text \<open>The message headers: address and length of each part, and the fields checked afterwards.\<close>

record msghdr =
  msg_name :: "nat option"
  msg_namelen :: nat
  msg_iov :: "(nat \<times> nat) list"
  msg_controllen :: nat
  msg_flags :: nat

definition make_msg :: "nat \<Rightarrow> msghdr" where
  "make_msg n =
     \<lparr>msg_name = None, msg_namelen = 0, msg_iov = map (\<lambda>i. (i, 4)) [0..<n], msg_controllen = 0,
      msg_flags = 0\<rparr>"

fun check_parts :: "nat \<Rightarrow> (nat \<times> nat) list \<Rightarrow> (string, unit) outcome" where
  "check_parts i [] = Ret ()"
| "check_parts i ((base, len) # iov) =
     (if len \<noteq> 4 then Throw ''msg_iovlen != sizeof(i)''
      else if base \<noteq> i
      then Throw ''msg_iovbase != reinterpret_cast<void*>(static_cast<uintptr_t>(i))''
      else check_parts (Suc i) iov)"

definition check_reply :: "msghdr \<Rightarrow> (string, unit) outcome" where
  "check_reply m =
     obind (check_parts 0 (take 10 (msg_iov m))) (\<lambda>_.
       if msg_controllen m \<noteq> 0 then Throw ''msg_controllen != 0''
       else if msg_flags m \<noteq> 0 then Throw ''msg_flags != 0''
       else if msg_namelen m \<noteq> 0 then Throw ''msg_namelen != 0''
       else if msg_name m \<noteq> None then Throw ''msg_name != nullptr''
       else if length (msg_iov m) \<noteq> 10 then Throw ''msg_iovlen != 10''
       else Ret ())"

fun add_files :: "(nat \<Rightarrow> bool) \<Rightarrow> (nat \<Rightarrow> bool) \<Rightarrow> nat \<Rightarrow> nat \<Rightarrow> nat list \<times> nat list \<Rightarrow> (nat list \<times> nat list) prog" where
  "add_files ok grows i 0 (files, fds) p = Ret ((files, fds), p)"
| "add_files ok grows i (Suc n) (files, fds) p =
     obind (FileVector_Add ok grows files p) (\<lambda>(files', p1).
     obind (FileDescriptorVector_Add ok grows fds (files' ! i) p1) (\<lambda>(fds', p2).
       add_files ok grows (Suc i) n (files', fds') p2))"

text \<open>
  \<open>recv\<close> is what the kernel writes into the header it is given; it fills in the name length,
  the control length and the flags.
\<close>

definition sendFile_main :: "(nat \<Rightarrow> bool) \<Rightarrow> (nat \<Rightarrow> bool) \<Rightarrow> (msghdr \<Rightarrow> msghdr) \<Rightarrow> string prog" where
  "sendFile_main ok grows recv p0 =
     obind (Server_ctor ok p0) (\<lambda>(server, p1).
     obind (Server_Listen ok server p1) (\<lambda>(_, p2).
     obind (Server_Accept ok server p2) (\<lambda>(client, p3).
     obind (add_files ok grows 0 10 ([], []) p3) (\<lambda>((files, fds), p4).
     obind (sys_check ok ''sendmsg() failed: '' p4) (\<lambda>(_, p5).
     obind (sys_check ok ''recvmsg() failed: '' p5) (\<lambda>(_, p6).
     let msg2 = recv (make_msg 10)
     in obind (check_reply msg2) (\<lambda>_.
        let status = ''status: '' @ nat_to_string (length (msg_iov msg2))
        in obind (FileDescriptorVector_dtor ok fds p6) (\<lambda>(_, p7).
           obind (FileVector_dtor ok files p7) (\<lambda>(_, p8).
           obind (Server_dtor ok server p8) (\<lambda>(_, p9). Ret (status, p9)))))))))))"

section \<open>Lemmas\<close>

lemma lowest_free_exists: "\<exists>n \<le> length fds. n \<notin> set fds"
proof (rule ccontr)
  assume "\<not> ?thesis"
  then have "{0..length fds} \<subseteq> set fds" by auto
  then have "card {0..length fds} \<le> card (set fds)" by (intro card_mono) auto
  also have "\<dots> \<le> length fds" by (rule card_length)
  finally show False by simp
qed

lemma lowest_free_fresh: "lowest_free fds \<notin> set fds"
proof -
  have "filter (\<lambda>n. n \<notin> set fds) [0..<Suc (length fds)] \<noteq> []"
    using lowest_free_exists [of fds] by (auto simp: filter_empty_conv simp del: upt_Suc)
  from hd_in_set [OF this] show ?thesis by (simp add: lowest_free_def del: upt_Suc)
qed

lemma sys_new_fd_Ret:
  "sys_new_fd ok msg p = Ret (fd, p') \<longleftrightarrow>
     ok (calls p) \<and> fd = lowest_free (open_fds p) \<and> p' = p\<lparr>calls := calls p + 1, open_fds := fd # open_fds p\<rparr>"
  by (auto simp: sys_new_fd_def sys_check_def Let_def)

lemma close_twice: "obind (close_fd ok fd p) (\<lambda>(_, p1). close_fd ok fd p1) = Throw ''close() failed: ''"
  by (simp add: close_fd_def)

lemma removeAll_fresh: "fd \<notin> set fds \<Longrightarrow> removeAll fd (fd # fds) = fds"
  by simp

lemma FileVector_Add_first:
  "FileVector_Add ok grows [] p =
     (if \<not> ok (calls p) then Throw ''open() failed: ''
      else if \<not> ok (Suc (calls p)) then Throw ''close() failed: ''
      else Ret ([lowest_free (open_fds p)], p\<lparr>calls := Suc (Suc (calls p))\<rparr>))"
  using lowest_free_fresh [of "open_fds p"]
  by (auto simp: FileVector_Add_def File_ctor_def sys_new_fd_def sys_check_def push_back_def File_dtor_def
      close_fd_def Let_def)

lemma check_parts_Ret:
  "check_parts i iov = Ret () \<longleftrightarrow> iov = map (\<lambda>j. (j, 4)) [i..<i + length iov]"
proof (induction i iov rule: check_parts.induct)
  case (2 i base len iov)
  have "[i..<i + length ((base, len) # iov)] = i # [Suc i..<Suc i + length iov]"
    by (subst upt_conv_Cons) simp_all
  with 2 show ?case by (auto simp del: upt_Suc)
qed simp

section \<open>Properties of the descriptor owners\<close>

lemma new_fd_close:
  assumes "sys_new_fd ok msg p = Ret (fd, p1)" "open_fds p2 = open_fds p1"
  shows "(\<exists>p3. close_fd ok fd p2 = Ret ((), p3) \<and> open_fds p3 = open_fds p)
    \<or> \<not> ok (calls p2) \<and> close_fd ok fd p2 = Throw ''close() failed: ''"
  using assms lowest_free_fresh [of "open_fds p"]
  by (auto simp: sys_new_fd_def sys_check_def close_fd_def Let_def split: if_splits)

lemma new_fd_result: "sys_new_fd ok msg p = (if ok (calls p) then Ret (lowest_free (open_fds p),
    p\<lparr>calls := calls p + 1, open_fds := lowest_free (open_fds p) # open_fds p\<rparr>) else Throw msg)"
  by (simp add: sys_new_fd_def sys_check_def Let_def)

lemma Socket_scope:
  assumes "Socket_ctor ok p = Ret (x, p1)" "open_fds p2 = open_fds p1"
  shows "(\<exists>p3. Socket_dtor ok x p2 = Ret ((), p3) \<and> open_fds p3 = open_fds p)
    \<or> \<not> ok (calls p2) \<and> Socket_dtor ok x p2 = Throw ''close() failed: ''"
  using assms new_fd_close [of ok "''socket() failed: ''" p "sock x" p1 p2]
  by (auto simp: Socket_ctor_def Socket_dtor_def outcome_iff)

lemma File_scope:
  assumes "File_ctor ok p = Ret (x, p1)" "open_fds p2 = open_fds p1"
  shows "(\<exists>p3. File_dtor ok x p2 = Ret ((), p3) \<and> open_fds p3 = open_fds p)
    \<or> \<not> ok (calls p2) \<and> File_dtor ok x p2 = Throw ''close() failed: ''"
  using assms new_fd_close [of ok "''open() failed: ''" p x p1 p2] by (simp add: File_ctor_def File_dtor_def)

interpretation socket_owner: raii "Socket_ctor ok" "Socket_dtor ok" open_fds
  "{''socket() failed: '', ''close() failed: ''}" for ok
proof unfold_locales
  show "(\<exists>s3. Socket_dtor ok x s2 = Ret ((), s3) \<and> open_fds s3 = open_fds s)
      \<or> (\<exists>e \<in> {''socket() failed: '', ''close() failed: ''}. Socket_dtor ok x s2 = Throw e)"
    if "Socket_ctor ok s = Ret (x, s1)" "open_fds s2 = open_fds s1" for s x s1 s2
    using Socket_scope [OF that] by blast
qed (auto simp: Socket_ctor_def new_fd_result split: if_splits)

interpretation file_owner: raii "File_ctor ok" "File_dtor ok" open_fds
  "{''open() failed: '', ''close() failed: ''}" for ok
proof unfold_locales
  show "(\<exists>s3. File_dtor ok x s2 = Ret ((), s3) \<and> open_fds s3 = open_fds s)
      \<or> (\<exists>e \<in> {''open() failed: '', ''close() failed: ''}. File_dtor ok x s2 = Throw e)"
    if "File_ctor ok s = Ret (x, s1)" "open_fds s2 = open_fds s1" for s x s1 s2
    using File_scope [OF that] by blast
qed (auto simp: File_ctor_def new_fd_result split: if_splits)

text \<open>
  C18: objects that are the only owners of their descriptors give them back: any number of nested scopes of
  a \<open>Socket\<close> or of a \<open>File\<close> ends with the descriptors open that were open before, or, only if a system call
  fails, in \<open>exit(1)\<close> with the message of the failed constructor or of the failed \<open>close\<close>; no scope closes a
  descriptor that is not open.
\<close>

theorem single_owner_restores:
  "((\<exists>p'. scopes n (Socket_ctor ok) (Socket_dtor ok) p = Ret p' \<and> open_fds p' = open_fds p)
      \<or> (\<exists>k. \<not> ok k) \<and> (\<exists>e \<in> {''socket() failed: '', ''close() failed: ''}.
          scopes n (Socket_ctor ok) (Socket_dtor ok) p = Throw e))
   \<and> ((\<exists>p'. scopes n (File_ctor ok) (File_dtor ok) p = Ret p' \<and> open_fds p' = open_fds p)
      \<or> (\<exists>k. \<not> ok k) \<and> (\<exists>e \<in> {''open() failed: '', ''close() failed: ''}.
          scopes n (File_ctor ok) (File_dtor ok) p = Throw e))"
proof (cases "\<exists>k. \<not> ok k")
  case True
  then show ?thesis using socket_owner.scopes_restore [of n ok p] file_owner.scopes_restore [of n ok p] by blast
next
  case False
  have "\<exists>p'. scopes n (Socket_ctor ok) (Socket_dtor ok) p = Ret p' \<and> open_fds p' = open_fds p"
  proof (rule socket_owner.scopes_return)
    show "Socket_dtor ok x s2 \<noteq> Throw e" if "Socket_ctor ok s = Ret (x, s1)" "open_fds s2 = open_fds s1" for s x s1 s2 e
      using Socket_scope [OF that] False by auto
  qed (use False in \<open>simp add: Socket_ctor_def new_fd_result\<close>)
  moreover have "\<exists>p'. scopes n (File_ctor ok) (File_dtor ok) p = Ret p' \<and> open_fds p' = open_fds p"
  proof (rule file_owner.scopes_return)
    show "File_dtor ok x s2 \<noteq> Throw e" if "File_ctor ok s = Ret (x, s1)" "open_fds s2 = open_fds s1" for s x s1 s2 e
      using File_scope [OF that] False by auto
  qed (use False in \<open>simp add: File_ctor_def new_fd_result\<close>)
  ultimately show ?thesis by blast
qed

theorem single_owner_restores_witness:
  "\<exists>p'. scopes 3 (Socket_ctor (\<lambda>_. True)) (Socket_dtor (\<lambda>_. True)) \<lparr>open_fds = [0, 1, 2], calls = 0\<rparr> = Ret p'
     \<and> open_fds p' = [0, 1, 2]"
  using single_owner_restores [of 3 "\<lambda>_. True" "\<lparr>open_fds = [0, 1, 2], calls = 0\<rparr>"] by auto

text \<open>
  a \<open>Server\<close> or \<open>Client\<close> is never destroyed cleanly: its destructor closes the socket
  that its member then closes again, so the process ends with \<open>exit(1)\<close> in every state.
\<close>

theorem server_double_close:
  "Server_dtor ok s p = Throw ''close() failed: '' \<and> Client_dtor ok s p = Throw ''close() failed: ''"
  by (simp add: Server_dtor_def Client_dtor_def Socket_dtor_def close_twice)

text \<open>
  a file added to an empty \<open>FileVector\<close> is closed again when \<open>Add\<close> returns: the stored
  copy holds a descriptor that is not open, and adding it to a \<open>FileDescriptorVector\<close> ends the
  process.
\<close>

theorem file_vector_dangling:
  assumes "FileVector_Add ok grows [] p = Ret (files, p1)"
  shows "files ! 0 \<notin> set (open_fds p1) \<and> open_fds p1 = open_fds p
    \<and> FileDescriptorVector_Add ok grows [] (files ! 0) p1 = Throw ''close() failed: ''"
  using assms lowest_free_fresh [of "open_fds p"]
  by (auto simp: FileVector_Add_first FileDescriptorVector_Add_def push_back_def FileDescriptor_dtor_def
      close_fd_def split: if_splits)

theorem file_vector_dangling_witness:
  "\<exists>files p1. FileVector_Add (\<lambda>_. True) (\<lambda>_. True) [] \<lparr>open_fds = [0, 1, 2], calls = 0\<rparr> = Ret (files, p1)
     \<and> files ! 0 \<notin> set (open_fds p1)"
proof -
  have *: "FileVector_Add (\<lambda>_. True) (\<lambda>_. True) [] \<lparr>open_fds = [0, 1, 2], calls = 0\<rparr>
      = Ret ([3], \<lparr>open_fds = [0, 1, 2], calls = 2\<rparr>)"
    by code_simp
  show ?thesis using file_vector_dangling [OF *] * by blast
qed

text \<open>
  C35: \<open>main\<close> never returns and never sends its message: whatever the system calls do, the
  process ends with \<open>exit(1)\<close>, and if they all succeed the reason is a failing \<open>close\<close>.
\<close>

theorem sendFile_main_exits:
  "throws (sendFile_main ok grows recv p)
   \<and> ((\<forall>n. ok n) \<longrightarrow> sendFile_main ok grows recv p = Throw ''close() failed: '')"
proof -
  have 10: "(10 :: nat) = Suc 9" by simp
  have "add_files ok grows 0 10 ([], []) q = Throw (if ok (calls q) then ''close() failed: '' else ''open() failed: '')" for q
    unfolding 10 add_files.simps FileVector_Add_first
    using lowest_free_fresh [of "open_fds q"]
    by (simp add: FileDescriptorVector_Add_def push_back_def FileDescriptor_dtor_def close_fd_def)
  then show ?thesis
    by (auto simp: sendFile_main_def Server_ctor_def Socket_ctor_def Server_Listen_def Server_Accept_def
        sys_new_fd_def sys_check_def Let_def)
qed

theorem sendFile_main_exits_witness:
  "sendFile_main (\<lambda>_. True) (\<lambda>_. True) id \<lparr>open_fds = [0, 1, 2], calls = 0\<rparr> = Throw ''close() failed: ''"
  using sendFile_main_exits [of "\<lambda>_. True" "\<lambda>_. True" id "\<lparr>open_fds = [0, 1, 2], calls = 0\<rparr>"] by simp

text \<open>
  the checks \<open>main\<close> makes on the received header accept it exactly when the kernel has left
  the ten parts, the name and the flags as they were sent.
\<close>

theorem check_reply_accepts:
  "check_reply m = Ret () \<longleftrightarrow> m = make_msg 10"
proof
  assume "check_reply m = Ret ()"
  then have c: "check_parts 0 (take 10 (msg_iov m)) = Ret ()" "msg_controllen m = 0" "msg_flags m = 0"
    "msg_namelen m = 0" "msg_name m = None" "length (msg_iov m) = 10"
    by (auto simp: check_reply_def outcome_iff split: if_splits)
  then have "msg_iov m = map (\<lambda>i. (i, 4)) [0..<10]" by (simp add: check_parts_Ret del: upt_Suc)
  with c show "m = make_msg 10" by (simp add: make_msg_def)
next
  assume "m = make_msg 10"
  moreover have "check_parts 0 (map (\<lambda>i. (i, 4)) [0..<10]) = Ret ()" by (simp add: check_parts_Ret del: upt_Suc)
  ultimately show "check_reply m = Ret ()" by (simp add: check_reply_def make_msg_def del: upt_Suc)
qed

end
