(* ===== verification/Chain_Promise.thy ===== *)
theory Chain_Promise
  imports Main
begin

text \<open>
  \<open>class ChainablePromise\<close> of \<open>cjunk/practice/chainablePromise.cc\<close>.  A functor is a function
  that also emits events (what its body prints); a promise owns its functor and copies of its
  children.  The tracing output of the class itself is left out.
\<close>

type_synonym ('e, 'a) Runnable = "'a \<Rightarrow> 'e list \<times> 'a"

datatype ('e, 'a) ChainablePromise =
  Promise (m_functor: "('e, 'a) Runnable") (m_children: "('e, 'a) ChainablePromise list")

definition Promise_default :: "('e, 'a) ChainablePromise" where
  "Promise_default = Promise (\<lambda>arg. ([], arg)) []"

definition Promise_of :: "('e, 'a) Runnable \<Rightarrow> ('e, 'a) ChainablePromise" where
  "Promise_of functor = Promise functor []"

text \<open>Both overloads of \<open>then\<close>: the changed object and the promise returned to the caller.\<close>

definition then_promise ::
  "('e, 'a) ChainablePromise \<Rightarrow> ('e, 'a) ChainablePromise \<Rightarrow> ('e, 'a) ChainablePromise \<times> ('e, 'a) ChainablePromise" where
  "then_promise this promise = (Promise (m_functor this) (m_children this @ [promise]), promise)"

definition then_run ::
  "('e, 'a) ChainablePromise \<Rightarrow> ('e, 'a) Runnable \<Rightarrow> ('e, 'a) ChainablePromise \<times> ('e, 'a) ChainablePromise" where
  "then_run this onSuccess =
     (let promise = Promise_of onSuccess
      in (Promise (m_functor this) (m_children this @ [promise]), promise))"

text \<open>The call operator: the functor, then every child on its result, in order.\<close>

fun invoke :: "('e, 'a) ChainablePromise \<Rightarrow> 'a \<Rightarrow> 'e list" where
  "invoke (Promise f children) arg =
     (let (out, result) = f arg in out @ concat (map (\<lambda>child. invoke child result) children))"

definition runAsync :: "('e, 'a) ChainablePromise \<Rightarrow> 'a \<Rightarrow> 'e list \<times> 'a" where
  "runAsync this arg = m_functor this arg"

text \<open>
  The test: a callback is attached to the promise that the first \<open>then\<close> returned, which is a
  temporary; the promise called afterwards is \<open>p\<close>.
\<close>

definition test_then :: "int list" where
  "test_then =
     (let p = Promise_default;
          (p1, tmp) = then_run p (\<lambda>i. ([], i + 1));
          (tmp1, _) = then_run tmp (\<lambda>t. ([t], 0))
      in invoke p1 1)"

section \<open>Properties\<close>

text \<open>
  calling a promise runs its functor once and then each attached callback once, in the order of
  attachment, on the functor's result.
\<close>

theorem invoke_runs_children:
  "invoke (fst (then_run p g)) arg = invoke p arg @ fst (g (snd (m_functor p arg)))
   \<and> invoke (fst (then_promise p c)) arg = invoke p arg @ invoke c (snd (m_functor p arg))"
  by (cases p) (simp add: then_run_def then_promise_def Promise_of_def split_beta Let_def)

text \<open>
  callbacks do not chain: what is attached to the promise that \<open>then\<close> returned never reaches
  the promise it was called on, and the second callback of \<open>test_then\<close> does not run.
\<close>

theorem then_does_not_chain:
  "invoke (fst (then_run p g)) arg = invoke p arg @ fst (g (snd (m_functor p arg)))
   \<and> fst (g (snd (m_functor p arg))) @ fst (h (snd (g (snd (m_functor p arg)))))
       = invoke (fst (then_run (snd (then_run p g)) h)) (snd (m_functor p arg))
   \<and> test_then = []"
  by (cases p) (simp add: then_run_def Promise_of_def Promise_default_def test_then_def split_beta Let_def)

end
