(* ===== verification/Immutable_List.thy ===== *)
theory Immutable_List
  imports Cxx_Lib
begin

text \<open>
  \<open>cjunk/practice/functional.cc\<close>: immutable lists, the lazily mapped list and the four iterators
  over a list.  \<open>std::array::at\<close> throws \<open>std::out_of_range\<close>; its index is converted from
  \<open>int\<close> to an unsigned type, so a negative one is out of range.
\<close>

section \<open>ImmutableList and ImmutableMap\<close>

definition at :: "'a list \<Rightarrow> int \<Rightarrow> (std_exception, 'a) outcome" where
  "at xs i = (if 0 \<le> i \<and> i < int (length xs) then Ret (xs ! nat i) else Throw (out_of_range ''array::at''))"

definition ImmutableList_index :: "'a list \<Rightarrow> int \<Rightarrow> (std_exception, 'a) outcome" where
  "ImmutableList_index list i = at list i"

definition ImmutableMap_index :: "'a list \<Rightarrow> ('a \<Rightarrow> 'b) \<Rightarrow> int \<Rightarrow> (std_exception, 'b) outcome" where
  "ImmutableMap_index from f i = omap f (ImmutableList_index from i)"

section \<open>Iterators\<close>

record 'a iter =
  it_list :: "'a list"
  it_pos :: int

definition ImmutableListIterator :: "'a list \<Rightarrow> 'a iter" where
  "ImmutableListIterator list = \<lparr>it_list = list, it_pos = 0\<rparr>"

definition Iterator_deref :: "'a iter \<Rightarrow> (std_exception, 'a) outcome" where
  "Iterator_deref it = at (it_list it) (it_pos it)"

definition Iterator_inc :: "'a iter \<Rightarrow> 'a iter" where
  "Iterator_inc it = it\<lparr>it_pos := it_pos it + 1\<rparr>"

definition Iterator_eq :: "'a iter \<Rightarrow> 'a iter \<Rightarrow> bool" where
  "Iterator_eq it rhs \<longleftrightarrow> it_pos it = it_pos rhs"

definition Iterator_neq :: "'a iter \<Rightarrow> 'a iter \<Rightarrow> bool" where
  "Iterator_neq it rhs \<longleftrightarrow> it_pos it \<noteq> it_pos rhs"

definition ImmutableListReverseIterator :: "'a list \<Rightarrow> 'a iter" where
  "ImmutableListReverseIterator list = \<lparr>it_list = list, it_pos = int (length list) - 1\<rparr>"

definition ReverseIterator_deref :: "'a iter \<Rightarrow> (std_exception, 'a) outcome" where
  "ReverseIterator_deref it = at (it_list it) (it_pos it)"

definition ReverseIterator_inc :: "'a iter \<Rightarrow> 'a iter" where
  "ReverseIterator_inc it = it\<lparr>it_pos := it_pos it - 1\<rparr>"

definition ReverseIterator_eq :: "'a iter \<Rightarrow> 'a iter \<Rightarrow> bool" where
  "ReverseIterator_eq it rhs \<longleftrightarrow> it_pos it = it_pos rhs"

definition ReverseIterator_neq :: "'a iter \<Rightarrow> 'a iter \<Rightarrow> bool" where
  "ReverseIterator_neq it rhs \<longleftrightarrow> it_pos it \<noteq> it_pos rhs"

text \<open>The filters store their predicate next to the list and the position.\<close>

record 'a filter_iter = "'a iter" +
  it_predicate :: "'a \<Rightarrow> bool"

definition Filter :: "'a list \<Rightarrow> ('a \<Rightarrow> bool) \<Rightarrow> 'a filter_iter" where
  "Filter list p = \<lparr>it_list = list, it_pos = 0, it_predicate = p\<rparr>"

definition Filter_deref :: "'a filter_iter \<Rightarrow> (std_exception, 'a) outcome" where
  "Filter_deref it = at (it_list it) (it_pos it)"

definition Filter_inc :: "'a filter_iter \<Rightarrow> 'a filter_iter" where
  "Filter_inc it = it\<lparr>it_pos := it_pos it + 1\<rparr>"

definition Filter_eq :: "'a filter_iter \<Rightarrow> 'a filter_iter \<Rightarrow> bool" where
  "Filter_eq it rhs \<longleftrightarrow> it_pos it = it_pos rhs"

definition Filter_neq :: "'a filter_iter \<Rightarrow> 'a filter_iter \<Rightarrow> bool" where
  "Filter_neq it rhs \<longleftrightarrow> it_pos it \<noteq> it_pos rhs"

definition FilterReverse :: "'a list \<Rightarrow> ('a \<Rightarrow> bool) \<Rightarrow> 'a filter_iter" where
  "FilterReverse list p = \<lparr>it_list = list, it_pos = int (length list) - 1, it_predicate = p\<rparr>"

definition FilterReverse_deref :: "'a filter_iter \<Rightarrow> (std_exception, 'a) outcome" where
  "FilterReverse_deref it = at (it_list it) (it_pos it)"

definition FilterReverse_inc :: "'a filter_iter \<Rightarrow> 'a filter_iter" where
  "FilterReverse_inc it = it\<lparr>it_pos := it_pos it - 1\<rparr>"

definition FilterReverse_eq :: "'a filter_iter \<Rightarrow> 'a filter_iter \<Rightarrow> bool" where
  "FilterReverse_eq it rhs \<longleftrightarrow> it_pos it = it_pos rhs"

definition FilterReverse_neq :: "'a filter_iter \<Rightarrow> 'a filter_iter \<Rightarrow> bool" where
  "FilterReverse_neq it rhs \<longleftrightarrow> it_pos it \<noteq> it_pos rhs"

text \<open>The test of the mapped list prints its elements by index.\<close>

fun print_map :: "'a list \<Rightarrow> ('a \<Rightarrow> int) \<Rightarrow> int list \<Rightarrow> (std_exception, string list) outcome" where
  "print_map list f [] = Ret []"
| "print_map list f (i # is) =
     obind (ImmutableMap_index list f i) (\<lambda>v. omap (Cons (to_string v)) (print_map list f is))"

definition test_map :: "(std_exception, string list) outcome" where
  "test_map = print_map [1, 2, 3, 4, 5] (\<lambda>i :: int. i * 2) [0, 1, 2, 3, 4]"

section \<open>Traversal\<close>

text \<open>Reading \<open>n\<close> elements, advancing after each.\<close>

fun traverse :: "('i \<Rightarrow> ('e, 'a) outcome) \<Rightarrow> ('i \<Rightarrow> 'i) \<Rightarrow> nat \<Rightarrow> 'i \<Rightarrow> ('e, 'a list) outcome" where
  "traverse deref inc 0 it = Ret []"
| "traverse deref inc (Suc n) it =
     obind (deref it) (\<lambda>x. omap (Cons x) (traverse deref inc n (inc it)))"

text \<open>
  What an iterator over a sequence promises: \<open>remains it\<close> is what is still to be read.
\<close>

locale iterator =
  fixes deref :: "'i \<Rightarrow> (std_exception, 'a) outcome" and inc :: "'i \<Rightarrow> 'i" and remains :: "'i \<Rightarrow> 'a list"
  assumes deref_remains: "remains it = x # xs \<Longrightarrow> deref it = Ret x"
    and inc_remains: "remains it = x # xs \<Longrightarrow> remains (inc it) = xs"
    and deref_end: "remains it = [] \<Longrightarrow> throws (deref it)"
begin

lemma traverse_remains: "traverse deref inc (length (remains it)) it = Ret (remains it)"
proof (induction "remains it" arbitrary: it)
  case Nil
  then show ?case by (metis list.size(3) traverse.simps(1))
next
  case (Cons x xs)
  then have r: "remains it = x # xs" by simp
  with Cons.hyps(1) [of "inc it"] inc_remains [OF r] deref_remains [OF r] show ?case by simp
qed

lemma traverse_too_far: "length (remains it) < n \<Longrightarrow> throws (traverse deref inc n it)"
proof (induction n arbitrary: it)
  case (Suc n)
  show ?case
  proof (cases "remains it")
    case Nil
    show ?thesis using deref_end [OF Nil] by (cases "deref it") auto
  next
    case (Cons x xs)
    with Suc inc_remains [OF Cons] deref_remains [OF Cons] have "throws (traverse deref inc n (inc it))" by simp
    with deref_remains [OF Cons] show ?thesis by (cases "traverse deref inc n (inc it)") auto
  qed
qed simp

end

definition ahead :: "('a, 'z) iter_scheme \<Rightarrow> 'a list" where
  "ahead it = (if it_pos it < 0 then [] else drop (nat (it_pos it)) (it_list it))"

definition behind :: "('a, 'z) iter_scheme \<Rightarrow> 'a list" where
  "behind it = (if it_pos it < int (length (it_list it)) then rev (take (nat (it_pos it + 1)) (it_list it)) else [])"

lemma ahead_Cons:
  "ahead it = x # xs \<longleftrightarrow> 0 \<le> it_pos it \<and> nat (it_pos it) < length (it_list it)
     \<and> it_list it ! nat (it_pos it) = x \<and> drop (Suc (nat (it_pos it))) (it_list it) = xs"
  by (auto simp: ahead_def drop_eq_Cons_conv)

lemma at_ahead: "ahead it = x # xs \<Longrightarrow> at (it_list it) (it_pos it) = Ret x"
  by (auto simp: ahead_Cons at_def)

lemma ahead_inc:
  assumes "ahead it = x # xs"
  shows "ahead (it\<lparr>it_pos := it_pos it + 1\<rparr>) = xs"
  using assms unfolding ahead_Cons by (simp add: ahead_def nat_add_distrib)

lemma at_ahead_end: "ahead it = [] \<Longrightarrow> throws (at (it_list it) (it_pos it))"
  by (auto simp: ahead_def at_def split: if_splits)

lemma behind_Cons:
  assumes "behind it = x # xs"
  shows "at (it_list it) (it_pos it) = Ret x" "behind (it\<lparr>it_pos := it_pos it - 1\<rparr>) = xs"
proof -
  let ?p = "it_pos it" let ?l = "it_list it"
  from assms have lt: "?p < int (length ?l)" and r: "rev (take (nat (?p + 1)) ?l) = x # xs"
    by (auto simp: behind_def split: if_splits)
  then have p: "0 \<le> ?p" by (cases "?p < 0") auto
  then have "nat (?p + 1) = Suc (nat ?p)" by simp
  moreover have "nat ?p < length ?l" using lt p by simp
  ultimately have "rev (take (nat (?p + 1)) ?l) = ?l ! nat ?p # rev (take (nat ?p) ?l)"
    by (simp add: take_Suc_conv_app_nth)
  with r have "x = ?l ! nat ?p" "xs = rev (take (nat ?p) ?l)" by simp_all
  then show "at ?l ?p = Ret x" "behind (it\<lparr>it_pos := ?p - 1\<rparr>) = xs"
    using p lt by (auto simp: at_def behind_def)
qed

lemma at_behind_end: "behind it = [] \<Longrightarrow> throws (at (it_list it) (it_pos it))"
  by (auto simp: behind_def at_def split: if_splits)

interpretation fwd: iterator Iterator_deref Iterator_inc ahead
  by unfold_locales
    (simp_all add: Iterator_deref_def Iterator_inc_def at_ahead at_ahead_end ahead_inc)

interpretation bwd: iterator ReverseIterator_deref ReverseIterator_inc behind
  by unfold_locales
    (simp_all add: ReverseIterator_deref_def ReverseIterator_inc_def behind_Cons at_behind_end)

interpretation flt: iterator Filter_deref Filter_inc ahead
  by unfold_locales
    (simp_all add: Filter_deref_def Filter_inc_def at_ahead at_ahead_end ahead_inc)

interpretation fltr: iterator FilterReverse_deref FilterReverse_inc behind
  by unfold_locales
    (simp_all add: FilterReverse_deref_def FilterReverse_inc_def behind_Cons at_behind_end)

lemma test_map_prints: "test_map = Ret [''2'', ''4'', ''6'', ''8'', ''10'']"
  by code_simp

section \<open>Properties\<close>

text \<open>
  reading as many elements as the list has, the forward iterator returns the list and the
  reverse iterator its reversal; reading one more throws \<open>std::out_of_range\<close>.
\<close>

theorem iterators_traverse:
  "traverse Iterator_deref Iterator_inc (length l) (ImmutableListIterator l) = Ret l
   \<and> traverse ReverseIterator_deref ReverseIterator_inc (length l) (ImmutableListReverseIterator l) = Ret (rev l)
   \<and> throws (traverse Iterator_deref Iterator_inc (Suc (length l)) (ImmutableListIterator l))
   \<and> throws (traverse ReverseIterator_deref ReverseIterator_inc (Suc (length l)) (ImmutableListReverseIterator l))"
proof -
  have "ahead (ImmutableListIterator l) = l" "behind (ImmutableListReverseIterator l) = rev l"
    by (simp_all add: ahead_def behind_def ImmutableListIterator_def ImmutableListReverseIterator_def)
  then show ?thesis
    using fwd.traverse_remains [of "ImmutableListIterator l"] bwd.traverse_remains [of "ImmutableListReverseIterator l"]
      fwd.traverse_too_far [of "ImmutableListIterator l"] bwd.traverse_too_far [of "ImmutableListReverseIterator l"]
    by (simp del: traverse.simps)
qed

text \<open>
  the filters never apply their predicate: they visit every element, in the order of the list
  and in reverse.
\<close>

theorem filters_visit_everything:
  "traverse Filter_deref Filter_inc (length l) (Filter l p) = Ret l
   \<and> traverse FilterReverse_deref FilterReverse_inc (length l) (FilterReverse l p) = Ret (rev l)"
proof -
  have "ahead (Filter l p) = l" "behind (FilterReverse l p) = rev l"
    by (simp_all add: ahead_def behind_def Filter_def FilterReverse_def)
  then show ?thesis
    using flt.traverse_remains [of "Filter l p"] fltr.traverse_remains [of "FilterReverse l p"] by simp
qed

end
