(* ===== verification/Max_Profit.thy ===== *)
theory Max_Profit
  imports Machine
begin

text \<open>
  \<open>Solution::maxProfit\<close> of \<open>cjunk/practice/financialAnalysis.cc\<close>: one pass over the prices
  with the least price so far, against the greatest difference of a later and an earlier price.
\<close>

fun profit_loop :: "int list \<Rightarrow> int \<Rightarrow> int \<Rightarrow> (ub, int) outcome" where
  "profit_loop [] min_price max_profit = Ret max_profit"
| "profit_loop (p # prices) min_price max_profit =
     (if p < min_price then profit_loop prices p max_profit
      else obind (int32 (p - min_price)) (\<lambda>d. profit_loop prices min_price (max max_profit d)))"

definition maxProfit :: "int list \<Rightarrow> (ub, int) outcome" where
  "maxProfit prices = (case prices of [] \<Rightarrow> Ret 0 | p # ps \<Rightarrow> profit_loop ps p 0)"

definition finance_main :: "(ub, int) outcome" where
  "finance_main = maxProfit [7, 1, 5, 3, 6, 4]"

section \<open>The loop\<close>

definition in_price_range :: "int \<Rightarrow> bool" where
  "in_price_range p \<longleftrightarrow> 0 \<le> p \<and> p \<le> INT_MAX"

lemma int32_gain: "in_price_range p \<Longrightarrow> in_price_range m \<Longrightarrow> m \<le> p \<Longrightarrow> int32 (p - m) = Ret (p - m)"
  by (rule int32_Ret) (auto simp: in_price_range_def INT_MIN_def)

text \<open>What the loop returns bounds every gain and is one of them.\<close>

definition best_gain :: "int list \<Rightarrow> int \<Rightarrow> int \<Rightarrow> int \<Rightarrow> bool" where
  "best_gain ps m mx r \<longleftrightarrow>
     mx \<le> r \<and> (\<forall>q \<in> set ps. q - m \<le> r) \<and> (\<forall>i j. i < j \<and> j < length ps \<longrightarrow> ps ! j - ps ! i \<le> r)
     \<and> (r = mx \<or> (\<exists>q \<in> set ps. r = q - m) \<or> (\<exists>i j. i < j \<and> j < length ps \<and> r = ps ! j - ps ! i))"

lemma best_gain_lower:
  assumes "best_gain ps p mx r" "p < m" "0 \<le> mx"
  shows "best_gain (p # ps) m mx r"
proof -
  have "(p # ps) ! j - (p # ps) ! i \<le> r" if "i < j" "j < length (p # ps)" for i j
    using assms that by (cases j; cases i) (auto simp: best_gain_def)
  moreover have "\<forall>q \<in> set (p # ps). q - m \<le> r" using assms by (force simp: best_gain_def)
  moreover have "r = mx \<or> (\<exists>i j. i < j \<and> j < length (p # ps) \<and> r = (p # ps) ! j - (p # ps) ! i)"
  proof -
    consider "r = mx" | q where "q \<in> set ps" "r = q - p"
      | i j where "i < j" "j < length ps" "r = ps ! j - ps ! i"
      using assms(1) by (auto simp: best_gain_def)
    then show ?thesis
    proof cases
      case 2
      then obtain k where "k < length ps" "r = ps ! k - p" by (auto simp: in_set_conv_nth)
      then show ?thesis by (intro disjI2 exI [of _ 0] exI [of _ "Suc k"]) simp
    next
      case 3
      then show ?thesis by (intro disjI2 exI [of _ "Suc i"] exI [of _ "Suc j"]) simp
    qed simp
  qed
  ultimately show ?thesis using assms(1) by (auto simp: best_gain_def)
qed

lemma best_gain_keep:
  assumes "best_gain ps m (max mx (p - m)) r" "m \<le> p"
  shows "best_gain (p # ps) m mx r"
proof -
  have "(p # ps) ! j - (p # ps) ! i \<le> r" if ij: "i < j" "j < length (p # ps)" for i j
  proof (cases i)
    case 0
    with ij obtain k where "j = Suc k" "k < length ps" by (cases j) auto
    moreover from this have "ps ! k - m \<le> r" using assms(1) by (auto simp: best_gain_def)
    ultimately show ?thesis using 0 assms(2) by simp
  next
    case (Suc i')
    with ij assms(1) show ?thesis by (cases j) (auto simp: best_gain_def)
  qed
  moreover have "r = mx \<or> (\<exists>q \<in> set (p # ps). r = q - m)
      \<or> (\<exists>i j. i < j \<and> j < length (p # ps) \<and> r = (p # ps) ! j - (p # ps) ! i)"
  proof -
    consider "r = mx" | "r = p - m" | "\<exists>q \<in> set ps. r = q - m"
      | i j where "i < j" "j < length ps" "r = ps ! j - ps ! i"
      using assms(1) by (auto simp: best_gain_def max_def split: if_splits)
    then show ?thesis
    proof cases
      case 4
      then show ?thesis by (intro disjI2 exI [of _ "Suc i"] exI [of _ "Suc j"]) simp
    qed auto
  qed
  ultimately show ?thesis using assms(1) by (auto simp: best_gain_def)
qed

lemma profit_loop_best:
  assumes "\<forall>p \<in> set ps. in_price_range p" "in_price_range m" "0 \<le> mx"
  shows "\<exists>r. profit_loop ps m mx = Ret r \<and> best_gain ps m mx r"
  using assms
proof (induction ps arbitrary: m mx)
  case (Cons p ps)
  show ?case
  proof (cases "p < m")
    case True
    obtain r where "profit_loop ps p mx = Ret r" "best_gain ps p mx r"
      using Cons.IH [of p mx] Cons.prems by auto
    with True Cons.prems(3) show ?thesis by (auto intro: best_gain_lower)
  next
    case False
    obtain r where "profit_loop ps m (max mx (p - m)) = Ret r" "best_gain ps m (max mx (p - m)) r"
      using Cons.IH [of m "max mx (p - m)"] Cons.prems by (auto simp: max.coboundedI1)
    with False Cons.prems int32_gain [of p m] show ?thesis by (auto intro: best_gain_keep)
  qed
qed (simp add: best_gain_def)

section \<open>Properties\<close>

text \<open>
  C19: for prices in the range of a non-negative \<open>int\<close> the one-pass computation returns, without
  overflow, the greatest gain of buying once and selling later: no pair of days gains more, and the
  result is zero or the gain of some pair.
\<close>

theorem maxProfit_optimal:
  assumes "\<forall>p \<in> set prices. in_price_range p"
  shows "\<exists>r. maxProfit prices = Ret r
    \<and> (\<forall>i j. i < j \<and> j < length prices \<longrightarrow> prices ! j - prices ! i \<le> r) \<and> 0 \<le> r
    \<and> (r = 0 \<or> (\<exists>i j. i < j \<and> j < length prices \<and> r = prices ! j - prices ! i))"
proof (cases prices)
  case (Cons p ps)
  then obtain r where r: "profit_loop ps p 0 = Ret r" "best_gain ps p 0 r"
    using profit_loop_best [of ps p 0] assms by auto
  then have "best_gain (p # ps) p 0 r" by (intro best_gain_keep) simp_all
  moreover have "\<exists>i j. i < j \<and> j < length prices \<and> r = prices ! j - prices ! i"
    if "q \<in> set ps" "r = q - p" for q
  proof -
    from that obtain k where "k < length ps" "r = ps ! k - p" by (auto simp: in_set_conv_nth)
    then show ?thesis using Cons by (intro exI [of _ 0] exI [of _ "Suc k"]) simp
  qed
  ultimately show ?thesis using r Cons by (auto simp: best_gain_def maxProfit_def)
qed (simp add: maxProfit_def)

theorem maxProfit_optimal_witness:
  "\<exists>r. maxProfit [7, 1, 5, 3, 6, 4] = Ret r \<and> 5 \<le> r"
proof -
  have "\<forall>p \<in> set [7, 1, 5, 3, 6, 4]. in_price_range p" by (simp add: in_price_range_def INT_MAX_def)
  from maxProfit_optimal [OF this] obtain r where "maxProfit [7, 1, 5, 3, 6, 4] = Ret r"
    "\<forall>i j. i < j \<and> j < length [7, 1, 5, 3, 6, 4 :: int] \<longrightarrow> [7, 1, 5, 3, 6, 4] ! j - [7, 1, 5, 3, 6, 4] ! i \<le> r"
    by blast
  from this(1) this(2) [rule_format, of 1 4] show ?thesis by simp
qed

text \<open>
  prices of opposite sign can overflow the difference: the least \<open>int\<close> followed by the greatest
  is undefined behaviour; and \<open>main\<close> prints 5.
\<close>

theorem maxProfit_overflow:
  "maxProfit [INT_MIN, INT_MAX] = Throw Signed_overflow \<and> finance_main = Ret 5"
  by (simp add: maxProfit_def finance_main_def int32_def INT_MIN_def INT_MAX_def)

end
