(* ===== verification/Particle_Filter.thy ===== *)
theory Particle_Filter
  imports Complex_Main Machine Cxx_Lib
begin

text \<open>
  \<open>cjunk/practice/geoParticleFilter.cc\<close>: the particle, its motion and weight update, the
  normalisation and resampling of weights, and the filter loop with its futures.  The mathematical
  functions are the fields of a record, and the landmark map (a type the file does not define) is
  a partial function from identifiers to positions.  A draw of the random generator is an argument.
\<close>

section \<open>Model, observation and particle\<close>

record 'r cmath =
  f_sqrt :: "'r \<Rightarrow> 'r"
  f_exp :: "'r \<Rightarrow> 'r"
  f_sin :: "'r \<Rightarrow> 'r"
  f_cos :: "'r \<Rightarrow> 'r"
  f_atan :: "'r \<Rightarrow> 'r"
  f_atan2 :: "'r \<Rightarrow> 'r \<Rightarrow> 'r"
  f_pi :: 'r

record 'r Model =
  dt :: 'r
  std_pos :: "'r \<times> 'r"
  std_landmark :: "'r \<times> 'r"

record 'r LandmarkObs =
  landmark_id :: int
  obs_dx :: 'r
  obs_dy :: 'r

record 'r Particle =
  p_x :: 'r
  p_y :: 'r
  p_theta :: 'r
  p_weight :: 'r

datatype filter_error = Std std_exception | Undef ub | Future_no_state

definition Particle_ctor :: "'r::linordered_field Particle" where
  "Particle_ctor = \<lparr>p_x = 0, p_y = 0, p_theta = 0, p_weight = 1\<rparr>"

text \<open>One factor of the weight: \<open>1 / (sqrt(2 pi s) * exp(-(d) / (2 s)))\<close>.\<close>

definition gauss_factor :: "'r::linordered_field cmath \<Rightarrow> 'r \<Rightarrow> 'r \<Rightarrow> 'r" where
  "gauss_factor M s d = 1 / (f_sqrt M (2 * f_pi M * s) * f_exp M (- d / (2 * s)))"

definition observe ::
  "'r::linordered_field cmath \<Rightarrow> 'r Model \<Rightarrow> (int \<Rightarrow> ('r \<times> 'r) option) \<Rightarrow> 'r Particle \<Rightarrow> 'r LandmarkObs \<Rightarrow>
   (filter_error, 'r Particle) outcome" where
  "observe M model map_landmarks p ob =
     (case map_landmarks (landmark_id ob) of
        None \<Rightarrow> Throw (Std (out_of_range ''map::at''))
      | Some (landmark_x, landmark_y) \<Rightarrow>
          let distance = f_sqrt M ((p_x p - landmark_x) * (p_x p - landmark_x)
                           + (p_y p - landmark_y) * (p_y p - landmark_y));
              bearing = f_atan2 M (landmark_y - p_y p) (landmark_x - p_x p) - p_theta p;
              s1 = fst (std_landmark model) * snd (std_landmark model);
              s2 = fst (std_pos model) * snd (std_pos model);
              s3 = f_atan M (snd (std_pos model) / fst (std_pos model));
              w1 = p_weight p * gauss_factor M s1 (obs_dx ob * obs_dx ob + obs_dy ob * obs_dy ob);
              w2 = w1 * gauss_factor M s2 (distance * distance);
              w3 = w2 * gauss_factor M s3 (bearing * bearing)
          in Ret (p\<lparr>p_weight := w3\<rparr>))"

fun observe_all ::
  "'r::linordered_field cmath \<Rightarrow> 'r Model \<Rightarrow> (int \<Rightarrow> ('r \<times> 'r) option) \<Rightarrow> 'r Particle \<Rightarrow> 'r LandmarkObs list \<Rightarrow>
   (filter_error, 'r Particle) outcome" where
  "observe_all M model lm p [] = Ret p"
| "observe_all M model lm p (ob # obs) = obind (observe M model lm p ob) (\<lambda>p'. observe_all M model lm p' obs)"

definition Particle_update ::
  "'r::linordered_field cmath \<Rightarrow> 'r Model \<Rightarrow> 'r LandmarkObs list \<Rightarrow> (int \<Rightarrow> ('r \<times> 'r) option) \<Rightarrow> 'r Particle \<Rightarrow>
   (filter_error, 'r Particle) outcome" where
  "Particle_update M model observations map_landmarks p =
     (let x' = p_x p + dt model * f_cos M (p_theta p);
          y' = p_y p + dt model * f_sin M (p_theta p);
          t' = p_theta p + dt model * (2 / 10 * f_sin M (10 * p_theta p) + 1 / 10)
      in observe_all M model map_landmarks \<lparr>p_x = x', p_y = y', p_theta = t', p_weight = 1\<rparr> observations)"

section \<open>Normalisation and resampling\<close>

text \<open>
  The arithmetic of \<open>double\<close> that decides which particles are drawn, with its rounding: zero, addition, division and
  the comparison \<open>>\<close>.  No law is assumed of it.
\<close>

record 'r fp =
  fp_zero :: 'r
  fp_add :: "'r \<Rightarrow> 'r \<Rightarrow> 'r"
  fp_div :: "'r \<Rightarrow> 'r \<Rightarrow> 'r"
  fp_greater :: "'r \<Rightarrow> 'r \<Rightarrow> bool"

definition pf_normalize :: "'r fp \<Rightarrow> 'r list \<Rightarrow> 'r list" where
  "pf_normalize A weights = (let s = foldl (fp_add A) (fp_zero A) weights in map (\<lambda>w. fp_div A w s) weights)"

fun cumulative_loop :: "'r fp \<Rightarrow> 'r list \<Rightarrow> 'r list \<Rightarrow> 'r list" where
  "cumulative_loop A cum [] = cum"
| "cumulative_loop A cum (w # ws) = cumulative_loop A (cum @ [fp_add A (last cum) w]) ws"

function search_index :: "'r fp \<Rightarrow> 'r list \<Rightarrow> 'r \<Rightarrow> nat \<Rightarrow> (filter_error, nat) outcome" where
  "search_index A cum r index =
     (if index < length cum
      then if fp_greater A r (cum ! index) then search_index A cum r (index + 1) else Ret index
      else Throw (Undef Out_of_bounds))"
  by pat_completeness auto
termination
  by (relation "measure (\<lambda>(A, cum, r, index). length cum - index)") auto

declare search_index.simps [simp del]

fun draw_particles :: "'r fp \<Rightarrow> 'p list \<Rightarrow> 'r list \<Rightarrow> 'r list \<Rightarrow> (filter_error, 'p list) outcome" where
  "draw_particles A particles cum [] = Ret []"
| "draw_particles A particles cum (r # rs) =
     obind (search_index A cum r 0) (\<lambda>index.
       if index < length particles
       then omap (Cons (particles ! index)) (draw_particles A particles cum rs)
       else Throw (Undef Out_of_bounds))"

text \<open>\<open>rs\<close> holds the draws of the uniform distribution, one per particle.\<close>

definition resample :: "'r fp \<Rightarrow> 'r list \<Rightarrow> 'p list \<Rightarrow> 'r list \<Rightarrow> (filter_error, 'p list) outcome" where
  "resample A rs particles weights =
     (case weights of
        [] \<Rightarrow> Throw (Undef Out_of_bounds)
      | w # ws \<Rightarrow> draw_particles A particles (cumulative_loop A [w] ws) (take (length particles) rs))"

section \<open>The filter loop\<close>

text \<open>
  The futures of all rounds stay in one vector, each with what its task returned or threw.  \<open>get\<close> hands
  that on and leaves the future without state (\<open>None\<close>); a second \<open>get\<close> on it fails.  The tasks of a round each
  update their own particle.
\<close>

type_synonym 'p future = "(filter_error, 'p) outcome option"

fun get_futures :: "nat \<Rightarrow> 'p future list \<Rightarrow> (filter_error, 'p future list) outcome" where
  "get_futures 0 futures = Ret futures"
| "get_futures (Suc n) [] = Throw (Undef Out_of_bounds)"
| "get_futures (Suc n) (None # futures) = Throw Future_no_state"
| "get_futures (Suc n) (Some result # futures) = obind result (\<lambda>_. omap (Cons None) (get_futures n futures))"

fun update_all :: "('p \<Rightarrow> (filter_error, 'p) outcome) \<Rightarrow> 'p list \<Rightarrow> (filter_error, 'p list) outcome" where
  "update_all upd [] = Ret []"
| "update_all upd (p # ps) = obind (upd p) (\<lambda>p'. omap (Cons p') (update_all upd ps))"

text \<open>
  Each round prints the weights, the normalised weights and a resampled population, which is not
  assigned to anything.  \<open>draws i\<close> are the random numbers of round \<open>i\<close>.
\<close>

fun pf_rounds ::
  "'r fp \<Rightarrow> ('r Particle \<Rightarrow> (filter_error, 'r Particle) outcome) \<Rightarrow> (nat \<Rightarrow> 'r list) \<Rightarrow> nat \<Rightarrow> nat \<Rightarrow>
   'r Particle list \<Rightarrow> 'r Particle future list \<Rightarrow>
   (filter_error, ('r list \<times> 'r list \<times> 'r Particle list) list) outcome" where
  "pf_rounds A upd draws i 0 particles futures = Ret []"
| "pf_rounds A upd draws i (Suc n) particles futures =
     obind (get_futures (length particles) (futures @ map (\<lambda>p. Some (upd p)) particles)) (\<lambda>futures'.
     obind (update_all upd particles) (\<lambda>particles'.
     let weights = map p_weight particles'
     in obind (resample A (draws i) particles' (pf_normalize A weights)) (\<lambda>resampled.
        omap (Cons (weights, pf_normalize A weights, resampled)) (pf_rounds A upd draws (Suc i) n particles' futures'))))"

definition run_pf ::
  "'r::linordered_field cmath \<Rightarrow> 'r fp \<Rightarrow> (nat \<Rightarrow> 'r list) \<Rightarrow> 'r LandmarkObs list \<Rightarrow> (int \<Rightarrow> ('r \<times> 'r) option) \<Rightarrow> 'r Model \<Rightarrow>
   nat \<Rightarrow> nat \<Rightarrow> (filter_error, ('r list \<times> 'r list \<times> 'r Particle list) list) outcome" where
  "run_pf M A draws observations map_landmarks model num_particles num_iterations =
     pf_rounds A (Particle_update M model observations map_landmarks) draws 0 num_iterations
       (replicate num_particles Particle_ctor) []"

text \<open>
  The test: four landmarks at the corners of the unit square, observed at distance zero, 100 particles
  and 10 rounds.  The model takes a number and two arrays where the call gives four numbers; it is an argument here.
\<close>

definition test_landmarks :: "int \<Rightarrow> ('r::linordered_field \<times> 'r) option" where
  "test_landmarks = map_of [(0, (0, 0)), (1, (1, 0)), (2, (0, 1)), (3, (1, 1))]"

definition test_observations :: "'r::linordered_field LandmarkObs list" where
  "test_observations = map (\<lambda>i. \<lparr>landmark_id = i, obs_dx = 0, obs_dy = 0\<rparr>) [0, 1, 2, 3]"

definition test_particle_filter ::
  "'r::linordered_field cmath \<Rightarrow> 'r fp \<Rightarrow> (nat \<Rightarrow> 'r list) \<Rightarrow> 'r Model
    \<Rightarrow> (filter_error, ('r list \<times> 'r list \<times> 'r Particle list) list) outcome" where
  "test_particle_filter M A draws model = run_pf M A draws test_observations test_landmarks model 100 10"

section \<open>Lemmas\<close>

text \<open>The sum, rounded at each step, of the weights up to index \<open>j\<close>.\<close>

definition cumulative_weight :: "'r fp \<Rightarrow> 'r list \<Rightarrow> nat \<Rightarrow> 'r" where
  "cumulative_weight A ws j = foldl (fp_add A) (hd ws) (take j (tl ws))"

lemma cumulative_loop_nth:
  assumes "cum \<noteq> []" "j < length cum + length ws"
  shows "cumulative_loop A cum ws ! j
    = (if j < length cum then cum ! j else foldl (fp_add A) (last cum) (take (Suc j - length cum) ws))"
  using assms
proof (induction ws arbitrary: cum)
  case (Cons w ws)
  consider "j < length cum" | "j = length cum" | "length cum < j" by linarith
  then show ?case
  proof cases
    case 3
    then obtain d where "j = Suc (length cum + d)" using less_iff_Suc_add by auto
    with Cons show ?thesis by simp
  qed (use Cons in \<open>simp_all add: nth_append\<close>)
qed simp

lemma cumulative_loop_length: "length (cumulative_loop A cum ws) = length cum + length ws"
  by (induction ws arbitrary: cum) simp_all

lemma cumulative_loop_weights:
  assumes "j < length (w # ws)"
  shows "cumulative_loop A [w] ws ! j = cumulative_weight A (w # ws) j"
  using cumulative_loop_nth [of "[w]" j ws A] assms by (cases j) (simp_all add: cumulative_weight_def)

text \<open>The search returns the first index whose cumulative weight the draw does not exceed.\<close>

lemma search_index_first:
  assumes "i \<le> j" "j < length cum" "\<not> fp_greater A r (cum ! j)" "\<forall>k. i \<le> k \<and> k < j \<longrightarrow> fp_greater A r (cum ! k)"
  shows "search_index A cum r i = Ret j"
  using assms
proof (induction A cum r i rule: search_index.induct)
  case (1 A cum r i)
  then show ?case by (cases "i = j"; subst search_index.simps) auto
qed

lemma search_index_none:
  "\<forall>k < length cum. fp_greater A r (cum ! k) \<Longrightarrow> search_index A cum r i = Throw (Undef Out_of_bounds)"
proof (induction A cum r i rule: search_index.induct)
  case (1 A cum r i)
  show ?case
  proof (cases "i < length cum")
    case True
    then have "fp_greater A r (cum ! i)" using 1 by blast
    then show ?thesis using True 1 by (subst search_index.simps) simp
  qed (subst search_index.simps, simp)
qed

lemma search_index_cases:
  "(\<exists>j < length cum. \<not> fp_greater A r (cum ! j) \<and> (\<forall>k < j. fp_greater A r (cum ! k)) \<and> search_index A cum r 0 = Ret j)
   \<or> (\<forall>k < length cum. fp_greater A r (cum ! k)) \<and> search_index A cum r 0 = Throw (Undef Out_of_bounds)"
proof (cases "\<forall>k < length cum. fp_greater A r (cum ! k)")
  case True
  then show ?thesis using search_index_none [OF True, of 0] by (intro disjI2 conjI)
next
  case False
  let ?P = "\<lambda>j. j < length cum \<and> \<not> fp_greater A r (cum ! j)"
  obtain j where j: "?P j" "\<And>k. k < j \<Longrightarrow> \<not> ?P k" using False exists_least_iff [of ?P] by blast
  then have "\<forall>k < j. fp_greater A r (cum ! k)" by (meson less_trans)
  with j show ?thesis using search_index_first [of 0 j cum A r] by blast
qed

text \<open>Drawing returns when every draw finds its index, and leaves the array otherwise.\<close>

definition found_at :: "'r fp \<Rightarrow> nat \<Rightarrow> (nat \<Rightarrow> 'r) \<Rightarrow> 'r \<Rightarrow> nat \<Rightarrow> bool" where
  "found_at A n cum r j \<longleftrightarrow> j < n \<and> \<not> fp_greater A r (cum j) \<and> (\<forall>k < j. fp_greater A r (cum k))"

lemma draw_particles_cases:
  assumes "length cum = length particles"
  shows "(\<exists>qs. draw_particles A particles cum rs = Ret qs
        \<and> list_all2 (\<lambda>q r. \<exists>j. found_at A (length particles) ((!) cum) r j \<and> q = particles ! j) qs rs)
    \<or> (\<exists>r \<in> set rs. \<forall>k < length particles. fp_greater A r (cum ! k))
      \<and> draw_particles A particles cum rs = Throw (Undef Out_of_bounds)"
proof (induction rs)
  case (Cons r rs)
  from search_index_cases [of cum A r] show ?case
  proof
    assume "\<exists>j < length cum. \<not> fp_greater A r (cum ! j) \<and> (\<forall>k < j. fp_greater A r (cum ! k)) \<and> search_index A cum r 0 = Ret j"
    then obtain j where j: "found_at A (length particles) ((!) cum) r j" "search_index A cum r 0 = Ret j"
      using assms by (auto simp: found_at_def)
    then have step: "draw_particles A particles cum (r # rs) = omap (Cons (particles ! j)) (draw_particles A particles cum rs)"
      by (simp add: found_at_def)
    from Cons.IH show ?thesis
    proof
      assume "\<exists>qs. draw_particles A particles cum rs = Ret qs
        \<and> list_all2 (\<lambda>q r. \<exists>j. found_at A (length particles) ((!) cum) r j \<and> q = particles ! j) qs rs"
      then obtain qs where "draw_particles A particles cum rs = Ret qs"
        "list_all2 (\<lambda>q r. \<exists>j. found_at A (length particles) ((!) cum) r j \<and> q = particles ! j) qs rs"
        by blast
      with step j(1) show ?thesis by (intro disjI1 exI [of _ "particles ! j # qs"]) auto
    qed (use step in auto)
  qed (use assms(1) in auto)
qed simp

lemma get_futures_first: "get_futures (length ps) (map (\<lambda>p. Some (upd p)) ps) = Ret fs \<Longrightarrow> fs = replicate (length ps) None"
  by (induction ps arbitrary: fs) (auto simp: outcome_iff)

lemma get_futures_again: "0 < n \<Longrightarrow> get_futures n (replicate n None @ fs) = Throw Future_no_state"
  by (cases n) simp_all

lemma update_all_length: "update_all upd ps = Ret ps' \<Longrightarrow> length ps' = length ps"
  by (induction ps arbitrary: ps') (auto simp: outcome_iff)

section \<open>Properties\<close>

text \<open>
  C29: resampling, with as many weights as particles and one draw per particle, whatever the arithmetic of
  \<open>double\<close> rounds to: if each draw is at most one of the cumulative weights, the result has one particle
  per draw, the first whose cumulative weight the draw does not exceed.  If a draw exceeds all of them,
  as it can when the rounded weights end below one, the search reads beyond the end of the array.
\<close>

theorem resample_inverse_cdf:
  assumes "length weights = length particles" "particles \<noteq> []" "length rs = length particles"
    and "cum = cumulative_weight A weights"
  shows "((\<forall>r \<in> set rs. \<exists>j < length particles. \<not> fp_greater A r (cum j)) \<longrightarrow>
      (\<exists>qs. resample A rs particles weights = Ret qs
        \<and> list_all2 (\<lambda>q r. \<exists>j < length particles. q = particles ! j \<and> \<not> fp_greater A r (cum j)
            \<and> (\<forall>k < j. fp_greater A r (cum k))) qs rs))
    \<and> ((\<exists>r \<in> set rs. \<forall>j < length particles. fp_greater A r (cum j)) \<longrightarrow>
        resample A rs particles weights = Throw (Undef Out_of_bounds))"
proof -
  obtain w ws where w: "weights = w # ws" using assms(1,2) by (cases weights) auto
  define c where "c = cumulative_loop A [w] ws"
  have len: "length c = length particles" using assms(1) w by (simp add: c_def cumulative_loop_length)
  have nth: "c ! j = cum j" if "j < length particles" for j
    using cumulative_loop_weights [of j w ws A] assms(1) w that by (simp add: c_def assms(4))
  have res: "resample A rs particles weights = draw_particles A particles c rs"
    using assms(3) w by (simp add: resample_def c_def)
  have same: "found_at A (length particles) ((!) c) r j = found_at A (length particles) cum r j" for r j
    by (auto simp: found_at_def nth)
  have cases: "(\<exists>qs. resample A rs particles weights = Ret qs
        \<and> list_all2 (\<lambda>q r. \<exists>j. found_at A (length particles) cum r j \<and> q = particles ! j) qs rs)
    \<or> (\<exists>r \<in> set rs. \<forall>k < length particles. fp_greater A r (cum k))
      \<and> resample A rs particles weights = Throw (Undef Out_of_bounds)"
    using draw_particles_cases [OF len, of A rs] unfolding res same by (simp add: nth cong: imp_cong)
  show ?thesis
  proof (intro conjI impI)
    assume "\<forall>r \<in> set rs. \<exists>j < length particles. \<not> fp_greater A r (cum j)"
    then obtain qs where "resample A rs particles weights = Ret qs"
      "list_all2 (\<lambda>q r. \<exists>j. found_at A (length particles) cum r j \<and> q = particles ! j) qs rs"
      using cases by blast
    then show "\<exists>qs. resample A rs particles weights = Ret qs
        \<and> list_all2 (\<lambda>q r. \<exists>j < length particles. q = particles ! j \<and> \<not> fp_greater A r (cum j)
            \<and> (\<forall>k < j. fp_greater A r (cum k))) qs rs"
      by (intro exI [of _ qs]) (auto simp: found_at_def elim!: list_all2_mono)
  next
    assume "\<exists>r \<in> set rs. \<forall>j < length particles. fp_greater A r (cum j)"
    then obtain r where r: "r \<in> set rs" "\<forall>j < length particles. fp_greater A r (cum j)" by blast
    have "\<not> list_all2 (\<lambda>q r. \<exists>j. found_at A (length particles) cum r j \<and> q = particles ! j) qs rs" for qs
      using r by (auto simp: list_all2_conv_all_nth in_set_conv_nth found_at_def)
    with cases show "resample A rs particles weights = Throw (Undef Out_of_bounds)" by blast
  qed
qed

text \<open>Numbers with four decimals, cut off after three: three weights of a third add up to 0.999.\<close>

definition cut_fp :: "nat fp" where
  "cut_fp = \<lparr>fp_zero = 0, fp_add = (+), fp_div = (\<lambda>a b. a * 1000 div b * 10), fp_greater = (>)\<rparr>"

theorem resample_inverse_cdf_witness:
  "pf_normalize cut_fp [1, 1, 1] = [3330, 3330, 3330]
   \<and> resample cut_fp [100, 4000, 9995] [''a'', ''b'', ''c''] (pf_normalize cut_fp [1, 1, 1]) = Throw (Undef Out_of_bounds)
   \<and> (\<exists>qs. resample cut_fp [100, 4000, 9985] [''a'', ''b'', ''c''] [3330, 3330, 3330] = Ret qs)"
proof -
  have n: "pf_normalize cut_fp [1, 1, 1] = [3330, 3330, 3330]" by (simp add: pf_normalize_def cut_fp_def)
  have c: "cumulative_weight cut_fp [3330, 3330, 3330] 0 = 3330" "cumulative_weight cut_fp [3330, 3330, 3330] 1 = 6660"
    "cumulative_weight cut_fp [3330, 3330, 3330] 2 = 9990"
    by (simp_all add: cumulative_weight_def cut_fp_def)
  let ?rs = "[100, 4000, 9995] :: nat list" and ?qs = "[100, 4000, 9985] :: nat list" and ?ps = "[''a'', ''b'', ''c'']"
  have g: "fp_greater cut_fp = (>)" by (simp add: cut_fp_def)
  have "cumulative_weight cut_fp [3330, 3330, 3330] j < 9995" if "j < length ?ps" for j
    using c that by (auto simp: less_Suc_eq numeral_2_eq_2)
  then have over: "\<exists>r \<in> set ?rs. \<forall>j < length ?ps. fp_greater cut_fp r (cumulative_weight cut_fp [3330, 3330, 3330] j)"
    unfolding g by (intro bexI [of _ 9995]) auto
  have under: "\<forall>r \<in> set ?qs. \<exists>j < length ?ps. \<not> fp_greater cut_fp r (cumulative_weight cut_fp [3330, 3330, 3330] j)"
    unfolding g using c(3) by (intro ballI exI [of _ 2]) auto
  note res = resample_inverse_cdf [of "[3330, 3330, 3330]" ?ps _ _ cut_fp, OF _ _ _ refl]
  have "resample cut_fp ?rs ?ps [3330, 3330, 3330] = Throw (Undef Out_of_bounds)"
    by (rule res [THEN conjunct2, THEN mp, OF _ _ _ over]) simp_all
  moreover have "\<exists>qs. resample cut_fp ?qs ?ps [3330, 3330, 3330] = Ret qs"
    using res [THEN conjunct1, THEN mp, OF _ _ _ under] by auto
  ultimately show ?thesis using n by simp
qed

text \<open>What the first round decides for a run of several.\<close>

lemma pf_rounds_second:
  assumes "particles \<noteq> []"
  shows "pf_rounds A upd draws i (Suc (Suc n)) particles []
    = (case pf_rounds A upd draws i 1 particles [] of Ret out \<Rightarrow> Throw Future_no_state | other \<Rightarrow> other)"
proof -
  have second: "pf_rounds A upd draws (Suc i) (Suc n) ps (replicate (length particles) None) = Throw Future_no_state"
    if "length ps = length particles" for ps
    using assms that by (simp add: get_futures_again)
  show ?thesis
  proof (cases "get_futures (length particles) (map (\<lambda>p. Some (upd p)) particles)")
    case (Ret fs)
    then have fs: "fs = replicate (length particles) None" by (rule get_futures_first)
    show ?thesis
    proof (cases "update_all upd particles")
      case ps: (Ret ps)
      show ?thesis
        using Ret ps second [OF update_all_length [OF ps]] fs
        by (cases "resample A (draws i) ps (pf_normalize A (map p_weight ps))")
          (simp_all add: Let_def del: pf_rounds.simps(2), simp_all add: Let_def)
    qed (use Ret in \<open>simp_all add: Let_def\<close>)
  qed (simp_all add: Let_def)
qed

lemma run_pf_rounds:
  assumes "0 < num_particles" "2 \<le> num_iterations"
  shows "run_pf M A draws observations lm model num_particles num_iterations
    = (case run_pf M A draws observations lm model num_particles 1 of Ret out \<Rightarrow> Throw Future_no_state | other \<Rightarrow> other)"
proof -
  obtain n where "num_iterations = Suc (Suc n)" using assms(2) by (metis add_2_eq_Suc le_iff_add)
  then show ?thesis using pf_rounds_second [of "replicate num_particles Particle_ctor"] assms(1) by (simp add: run_pf_def)
qed

text \<open>The test asks for ten rounds, so that it cannot end normally, whatever is drawn.\<close>

lemma test_particle_filter_fails: "test_particle_filter M A draws model \<noteq> Ret out"
  by (simp add: test_particle_filter_def run_pf_rounds split: outcome.split)

text \<open>
  C33: with at least one particle the filter never completes two rounds, whatever the arithmetic, the draws and the
  observations: it ends as its first round does if that throws or is undefined, and otherwise in the first
  \<open>get\<close> of the second round, which asks a future of the first for its result again.
\<close>

theorem run_pf_second_round_fails:
  assumes "0 < num_particles" "2 \<le> num_iterations"
  shows "run_pf M A draws observations lm model num_particles num_iterations
    = (case run_pf M A draws observations lm model num_particles 1 of Ret out \<Rightarrow> Throw Future_no_state | other \<Rightarrow> other)"
  by (rule run_pf_rounds [OF assms])

definition demo_math :: "rat cmath" where
  "demo_math = \<lparr>f_sqrt = id, f_exp = id, f_sin = id, f_cos = id, f_atan = id, f_atan2 = (\<lambda>a b. a), f_pi = 3\<rparr>"

definition rat_fp :: "rat fp" where
  "rat_fp = \<lparr>fp_zero = 0, fp_add = (+), fp_div = (/), fp_greater = (>)\<rparr>"

theorem run_pf_second_round_fails_witness:
  "run_pf demo_math rat_fp (\<lambda>_. [0]) [] (\<lambda>_. None) \<lparr>dt = 1, std_pos = (1, 1), std_landmark = (1, 1)\<rparr> 1 2
    = Throw Future_no_state"
proof -
  let ?run = "run_pf demo_math rat_fp (\<lambda>_. [0]) [] (\<lambda>_. None) \<lparr>dt = 1, std_pos = (1, 1), std_landmark = (1, 1)\<rparr> 1"
  have "\<exists>out. ?run 1 = Ret out"
    by (simp add: run_pf_def Particle_update_def Particle_ctor_def resample_def pf_normalize_def rat_fp_def Let_def
        search_index.simps)
  then show ?thesis using run_pf_second_round_fails [of 1 2 demo_math rat_fp "\<lambda>_. [0]" "[]" "\<lambda>_. None"] by auto
qed

end
