(* ===== verification/Perceptron_Net.thy ===== *)
theory Perceptron_Net
  imports Complex_Main Machine
begin

text \<open>
  \<open>cjunk/practice/perceptron.cc\<close>: perceptrons, layers and networks.  \<open>double\<close> is an ordered
  field, \<open>exp\<close> the argument \<open>E\<close>; random weights are arguments of the constructors.
  Indexing a vector outside its range is undefined and throws.
\<close>

record 'r Perceptron =
  weights :: "'r list"
  bias :: 'r

type_synonym 'r Layer = "'r Perceptron list"
type_synonym 'r Network = "'r Layer list"

definition vec_at :: "'a list \<Rightarrow> nat \<Rightarrow> (ub, 'a) outcome" where
  "vec_at xs i = (if i < length xs then Ret (xs ! i) else Throw Out_of_bounds)"

definition Perceptron_ctor :: "(nat \<Rightarrow> 'r) \<Rightarrow> nat \<Rightarrow> 'r \<Rightarrow> 'r Perceptron" where
  "Perceptron_ctor dis inputs b = \<lparr>weights = map dis [0..<inputs], bias = b\<rparr>"

definition sigmoid :: "('r::linordered_field \<Rightarrow> 'r) \<Rightarrow> 'r \<Rightarrow> 'r" where
  "sigmoid E x = 1 / (1 + E (- x))"

fun weighted_sum :: "'r::linordered_field list \<Rightarrow> nat \<Rightarrow> 'r list \<Rightarrow> 'r \<Rightarrow> (ub, 'r) outcome" where
  "weighted_sum ws i [] s = Ret s"
| "weighted_sum ws i (x # xs) s = obind (vec_at ws i) (\<lambda>w. weighted_sum ws (Suc i) xs (s + x * w))"

definition Perceptron_run :: "('r::linordered_field \<Rightarrow> 'r) \<Rightarrow> 'r Perceptron \<Rightarrow> 'r list \<Rightarrow> (ub, 'r) outcome" where
  "Perceptron_run E p x = omap (\<lambda>s. sigmoid E (s + bias p)) (weighted_sum (weights p) 0 x 0)"

definition Perceptron_set_weights :: "'r Perceptron \<Rightarrow> 'r list \<Rightarrow> 'r Perceptron" where
  "Perceptron_set_weights p w = p\<lparr>weights := w\<rparr>"

definition Layer_ctor :: "(nat \<Rightarrow> nat \<Rightarrow> 'r::linordered_field) \<Rightarrow> nat \<Rightarrow> nat \<Rightarrow> 'r Layer" where
  "Layer_ctor dis inputs outputs = map (\<lambda>k. Perceptron_ctor (dis k) inputs 1) [0..<outputs]"

fun Layer_run :: "('r::linordered_field \<Rightarrow> 'r) \<Rightarrow> 'r Layer \<Rightarrow> 'r list \<Rightarrow> (ub, 'r list) outcome" where
  "Layer_run E [] x = Ret []"
| "Layer_run E (p # ps) x = obind (Perceptron_run E p x) (\<lambda>y. omap (Cons y) (Layer_run E ps x))"

fun set_from :: "('p \<Rightarrow> 'w \<Rightarrow> (ub, 'p) outcome) \<Rightarrow> 'p list \<Rightarrow> 'w list \<Rightarrow> nat \<Rightarrow> (ub, 'p list) outcome" where
  "set_from upd [] w i = Ret []"
| "set_from upd (p # ps) w i =
     obind (vec_at w i) (\<lambda>wi. obind (upd p wi) (\<lambda>p'. omap (Cons p') (set_from upd ps w (Suc i))))"

definition Layer_set_weights :: "'r Layer \<Rightarrow> 'r list list \<Rightarrow> (ub, 'r Layer) outcome" where
  "Layer_set_weights ps w = set_from (\<lambda>p wi. Ret (Perceptron_set_weights p wi)) ps w 0"

definition Network_ctor :: "(nat \<Rightarrow> nat \<Rightarrow> nat \<Rightarrow> 'r::linordered_field) \<Rightarrow> nat \<Rightarrow> nat \<Rightarrow> nat \<Rightarrow> 'r Network" where
  "Network_ctor dis inputs outputs hidden =
     map (\<lambda>l. Layer_ctor (dis l) inputs inputs) [0..<hidden] @ [Layer_ctor (dis hidden) inputs outputs]"

fun run_layers :: "('r::linordered_field \<Rightarrow> 'r) \<Rightarrow> 'r Network \<Rightarrow> 'r list \<Rightarrow> (ub, 'r list) outcome" where
  "run_layers E [] out = Ret out"
| "run_layers E (l # ls) out = obind (Layer_run E l out) (run_layers E ls)"

text \<open>The local \<open>output\<close> starts empty; the parameter \<open>x\<close> is not used.\<close>

definition Network_run :: "('r::linordered_field \<Rightarrow> 'r) \<Rightarrow> 'r Network \<Rightarrow> 'r list \<Rightarrow> (ub, 'r list) outcome" where
  "Network_run E net x = run_layers E net []"

definition Network_set_weights :: "'r Network \<Rightarrow> 'r list list list \<Rightarrow> (ub, 'r Network) outcome" where
  "Network_set_weights net w = set_from Layer_set_weights net w 0"

section \<open>Lemmas\<close>

definition dot :: "'r::linordered_field list \<Rightarrow> 'r list \<Rightarrow> 'r" where
  "dot xs ws = sum_list (map2 (*) xs ws)"

lemma weighted_sum_dot:
  "i + length xs \<le> length ws \<Longrightarrow> weighted_sum ws i xs s = Ret (s + dot xs (drop i ws))"
proof (induction xs arbitrary: i s)
  case (Cons x xs)
  then have "drop i ws = ws ! i # drop (Suc i) ws" by (simp add: Cons_nth_drop_Suc)
  with Cons show ?case by (simp add: vec_at_def dot_def add.assoc)
qed (simp add: dot_def)

lemma weighted_sum_short:
  "i \<le> length ws \<Longrightarrow> length ws < i + length xs \<Longrightarrow> weighted_sum ws i xs s = Throw Out_of_bounds"
proof (induction xs arbitrary: i s)
  case (Cons x xs)
  then show ?case by (cases "i < length ws") (simp_all add: vec_at_def)
qed simp

lemma Layer_run_all:
  "\<forall>p \<in> set ps. length xs \<le> length (weights p) \<Longrightarrow>
   Layer_run E ps xs = Ret (map (\<lambda>p. sigmoid E (dot xs (weights p) + bias p)) ps)"
  by (induction ps) (simp_all add: Perceptron_run_def weighted_sum_dot)

lemma weights_Layer_ctor: "p \<in> set (Layer_ctor dis inputs outputs) \<Longrightarrow> length (weights p) = inputs"
  by (auto simp: Layer_ctor_def Perceptron_ctor_def)

lemma length_Layer_ctor: "length (Layer_ctor dis inputs outputs) = outputs"
  by (simp add: Layer_ctor_def)

lemma run_layers_append: "run_layers E (ls @ ms) out = obind (run_layers E ls out) (run_layers E ms)"
proof (induction ls arbitrary: out)
  case (Cons l ls)
  then show ?case by (cases "Layer_run E l out") simp_all
qed simp

lemma run_hidden:
  "length xs \<le> inputs \<Longrightarrow> \<exists>ys. run_layers E (map (\<lambda>l. Layer_ctor (dis l) inputs inputs) ks) xs = Ret ys \<and> length ys \<le> inputs"
proof (induction ks arbitrary: xs)
  case (Cons k ks)
  then show ?case
    by (simp add: Layer_run_all weights_Layer_ctor length_Layer_ctor)
qed simp

section \<open>Properties\<close>

text \<open>
  a perceptron with at least as many weights as inputs returns the sigmoid of the weighted sum
  plus bias; with fewer weights it reads outside its weight vector.
\<close>

theorem perceptron_run_dot:
  "Perceptron_run E p x =
     (if length x \<le> length (weights p) then Ret (sigmoid E (dot x (weights p) + bias p))
      else Throw Out_of_bounds)"
  by (simp add: Perceptron_run_def weighted_sum_dot weighted_sum_short)

text \<open>
  a network built by its constructor runs without leaving a vector and returns as many values as
  it has outputs, but its result does not depend on the input given to it.
\<close>

theorem network_ignores_input:
  "Network_run E net x = Network_run E net y
   \<and> (\<exists>ys. Network_run E (Network_ctor dis inputs outputs hidden) x = Ret ys \<and> length ys = outputs)"
proof
  obtain ys where ys: "run_layers E (map (\<lambda>l. Layer_ctor (dis l) inputs inputs) [0..<hidden]) [] = Ret ys"
    "length ys \<le> inputs"
    using run_hidden [of "[]" inputs E dis "[0..<hidden]"] by auto
  then show "\<exists>ys. Network_run E (Network_ctor dis inputs outputs hidden) x = Ret ys \<and> length ys = outputs"
    by (simp add: Network_run_def Network_ctor_def run_layers_append Layer_run_all weights_Layer_ctor
        length_Layer_ctor)
qed (simp add: Network_run_def)

text \<open>
  setting the weights of a network and running its first layer uses exactly the weights given,
  provided there is a row for every perceptron; a missing row is an access outside the vector.
\<close>

theorem layer_set_weights_rows:
  "Layer_set_weights ps w =
     (if length ps \<le> length w then Ret (map2 (\<lambda>p wi. p\<lparr>weights := wi\<rparr>) ps w) else Throw Out_of_bounds)"
proof -
  have "set_from (\<lambda>p wi. Ret (Perceptron_set_weights p wi)) ps w i
      = (if i + length ps \<le> length w then Ret (map2 (\<lambda>p wi. p\<lparr>weights := wi\<rparr>) ps (drop i w)) else Throw Out_of_bounds)"
    if "i \<le> length w" for i
    using that
  proof (induction ps arbitrary: i)
    case (Cons p ps)
    show ?case
    proof (cases "i < length w")
      case True
      then have "drop i w = w ! i # drop (Suc i) w" by (simp add: Cons_nth_drop_Suc)
      with True Cons show ?thesis by (simp add: vec_at_def Perceptron_set_weights_def)
    qed (use Cons.prems in \<open>simp add: vec_at_def\<close>)
  qed simp
  from this [of 0] show ?thesis by (simp add: Layer_set_weights_def)
qed

end
