(* ===== verification/Cumulative.thy ===== *)
theory Cumulative
  imports Complex_Main Machine
begin

text \<open>
  Normalised weights and their cumulative sums, which the ant colony builds before drawing an index.
  \<open>double\<close> arithmetic is that of an ordered field, without rounding.
\<close>

fun cumulate :: "'r::linordered_field \<Rightarrow> 'r list \<Rightarrow> 'r list" where
  "cumulate acc [] = []"
| "cumulate acc (w # ws) = (acc + w) # cumulate (acc + w) ws"

definition normalized :: "'r::linordered_field list \<Rightarrow> 'r list" where
  "normalized ws = map (\<lambda>w. w / sum_list ws) ws"

lemma length_cumulate [simp]: "length (cumulate acc ws) = length ws"
  by (induction ws arbitrary: acc) auto

end
