(* ===== verification/Ant_Colony.thy ===== *)
theory Ant_Colony
  imports Cumulative "HOL-Library.Multiset"
begin

text \<open>
  \<open>cjunk/practice/antColonyOptimization.cc\<close>: the travelling-salesman model and the search of one
  ant.  The random draws are arguments, one triple per iteration: the path that \<open>get_path\<close>
  returns and the two uniform draws; what \<open>std::random_shuffle\<close> does is a function on lists.  \<open>sqrt\<close> and \<open>pow\<close> are arguments too;
  arithmetic is that of an ordered field.
\<close>

section \<open>class Model\<close>

type_synonym 'r coords = "('r \<times> 'r) list"

definition get_distance2 :: "('r::linordered_field \<Rightarrow> 'r) \<Rightarrow> 'r coords \<Rightarrow> nat \<Rightarrow> nat \<Rightarrow> (ub, 'r) outcome" where
  "get_distance2 sqrtf c i j =
     (if i < length c \<and> j < length c
      then Ret (sqrtf ((fst (c ! i) - fst (c ! j)) ^ 2 + (snd (c ! i) - snd (c ! j)) ^ 2))
      else Throw Out_of_bounds)"

fun distance_loop :: "('r::linordered_field \<Rightarrow> 'r) \<Rightarrow> 'r coords \<Rightarrow> nat list \<Rightarrow> 'r \<Rightarrow> (ub, 'r) outcome" where
  "distance_loop sqrtf c (a # b # path) d =
     obind (get_distance2 sqrtf c a b) (\<lambda>e. distance_loop sqrtf c (b # path) (d + e))"
| "distance_loop sqrtf c path d = Ret d"

text \<open>On an empty path the bound \<open>size() - 1\<close> wraps around and the loop leaves the vector.\<close>

definition get_distance :: "('r::linordered_field \<Rightarrow> 'r) \<Rightarrow> 'r coords \<Rightarrow> nat list \<Rightarrow> (ub, 'r) outcome" where
  "get_distance sqrtf c path = (if path = [] then Throw Out_of_bounds else distance_loop sqrtf c path 0)"

fun visibility_loop :: "('r::linordered_field \<Rightarrow> 'r) \<Rightarrow> 'r coords \<Rightarrow> nat \<Rightarrow> nat list \<Rightarrow> 'r \<Rightarrow> (ub, 'r) outcome" where
  "visibility_loop sqrtf c i [] v = Ret v"
| "visibility_loop sqrtf c i (j # js) v =
     (if i \<noteq> j then obind (get_distance2 sqrtf c i j) (\<lambda>d. visibility_loop sqrtf c i js (v + 1 / d))
      else visibility_loop sqrtf c i js v)"

definition get_visibility :: "('r::linordered_field \<Rightarrow> 'r) \<Rightarrow> 'r coords \<Rightarrow> nat \<Rightarrow> (ub, 'r) outcome" where
  "get_visibility sqrtf c i = visibility_loop sqrtf c i [0..<length c] 0"

definition get_path :: "(nat list \<Rightarrow> nat list) \<Rightarrow> 'r coords \<Rightarrow> nat list" where
  "get_path shuffle c = shuffle [0..<length c]"

section \<open>One ant\<close>

record 'r aco =
  alpha :: 'r
  beta :: 'r
  rho :: 'r
  q0 :: 'r

record 'r ant_state =
  path :: "nat list"
  pheromone :: "'r list"
  best_distance :: "'r option"

text \<open>
  \<open>None\<close> is the initial \<open>numeric_limits<double>::max()\<close>, which every distance is below: the
  distances are numbers of a field, so that the infinite ones and those that are no number, which a
  comparison of \<open>double\<close> would not find below it, are excluded.
\<close>

definition shorter :: "'r::linordered_field \<Rightarrow> 'r option \<Rightarrow> bool" where
  "shorter d best = (case best of None \<Rightarrow> True | Some b \<Rightarrow> d < b)"

definition keep_best :: "('r::linordered_field \<Rightarrow> 'r) \<Rightarrow> 'r coords \<Rightarrow> nat list \<Rightarrow> 'r ant_state \<Rightarrow> (ub, 'r ant_state) outcome" where
  "keep_best sqrtf c next_path s =
     omap (\<lambda>next_distance.
       if shorter next_distance (best_distance s)
       then s\<lparr>path := next_path, best_distance := Some next_distance\<rparr> else s)
     (get_distance sqrtf c next_path)"

definition update_pheromone :: "('r::linordered_field \<Rightarrow> 'r) \<Rightarrow> 'r aco \<Rightarrow> 'r coords \<Rightarrow> 'r ant_state \<Rightarrow> (ub, 'r ant_state) outcome" where
  "update_pheromone sqrtf P c s =
     obind (if length (path s) > 1 then get_distance sqrtf c (path s) else Ret 1) (\<lambda>d.
       let n = length (path s); delta = replicate (n - 1) (1 / d) @ [0]
       in if n = 0 \<or> length (pheromone s) < n then Throw Out_of_bounds
          else Ret (s\<lparr>pheromone := map2 (\<lambda>p dl. (1 - rho P) * p + dl) (pheromone s) delta
                       @ drop n (pheromone s)\<rparr>))"

fun desirability :: "('r::linordered_field \<Rightarrow> 'r) \<Rightarrow> ('r \<Rightarrow> 'r \<Rightarrow> 'r) \<Rightarrow> 'r aco \<Rightarrow> 'r coords \<Rightarrow> 'r list \<Rightarrow> nat list \<Rightarrow> (ub, 'r list) outcome" where
  "desirability sqrtf powf P c ph [] = Ret []"
| "desirability sqrtf powf P c ph (j # js) =
     obind (get_visibility sqrtf c j) (\<lambda>v.
       if j < length ph
       then omap (Cons (powf (ph ! j) (alpha P) * powf v (beta P))) (desirability sqrtf powf P c ph js)
       else Throw Out_of_bounds)"

text \<open>The first index whose cumulative probability exceeds the draw, or 0 if there is none.\<close>

fun pick_next :: "'r::linordered_field \<Rightarrow> 'r list \<Rightarrow> nat \<Rightarrow> nat" where
  "pick_next r [] j = 0"
| "pick_next r (cp # cps) j = (if r < cp then j else pick_next r cps (Suc j))"

definition swap :: "'a list \<Rightarrow> nat \<Rightarrow> nat \<Rightarrow> (ub, 'a list) outcome" where
  "swap xs i j =
     (if i < length xs \<and> j < length xs then Ret (xs[i := xs ! j, j := xs ! i]) else Throw Out_of_bounds)"

definition move_ant :: "'r::linordered_field aco \<Rightarrow> 'r list \<Rightarrow> 'r \<Rightarrow> 'r \<Rightarrow> 'r ant_state \<Rightarrow> (ub, 'r ant_state) outcome" where
  "move_ant P cp r r2 s =
     (let nxt = pick_next r cp 0
      in obind (if nxt \<noteq> length (path s) - 1 then swap (path s) nxt (nxt + 1) else Ret (path s)) (\<lambda>p1.
         obind (if q0 P > 0 \<and> r2 < q0 P then swap p1 0 1 else Ret p1) (\<lambda>p2.
           Ret (s\<lparr>path := p2\<rparr>))))"

definition ant_iteration ::
  "('r::linordered_field \<Rightarrow> 'r) \<Rightarrow> ('r \<Rightarrow> 'r \<Rightarrow> 'r) \<Rightarrow> 'r aco \<Rightarrow> 'r coords \<Rightarrow> nat list \<times> 'r \<times> 'r \<Rightarrow> 'r ant_state \<Rightarrow>
   (ub, 'r ant_state) outcome" where
  "ant_iteration sqrtf powf P c rnd s0 =
     (case rnd of (next_path, r, r2) \<Rightarrow>
       obind (keep_best sqrtf c next_path s0) (\<lambda>s1.
       obind (update_pheromone sqrtf P c s1) (\<lambda>s2.
       obind (desirability sqrtf powf P c (pheromone s2) [0..<length (path s2)]) (\<lambda>pr.
         move_ant P (cumulate 0 (normalized pr)) r r2 s2))))"

fun ant_loop ::
  "('r::linordered_field \<Rightarrow> 'r) \<Rightarrow> ('r \<Rightarrow> 'r \<Rightarrow> 'r) \<Rightarrow> 'r aco \<Rightarrow> 'r coords \<Rightarrow> (nat list \<times> 'r \<times> 'r) list \<Rightarrow> 'r ant_state \<Rightarrow>
   (ub, 'r ant_state) outcome" where
  "ant_loop sqrtf powf P c [] s = Ret s"
| "ant_loop sqrtf powf P c (rnd # rnds) s =
     obind (ant_iteration sqrtf powf P c rnd s) (ant_loop sqrtf powf P c rnds)"

definition ant ::
  "('r::linordered_field \<Rightarrow> 'r) \<Rightarrow> ('r \<Rightarrow> 'r \<Rightarrow> 'r) \<Rightarrow> 'r aco \<Rightarrow> 'r coords \<Rightarrow> nat list \<Rightarrow> (nat list \<times> 'r \<times> 'r) list \<Rightarrow>
   (ub, nat list) outcome" where
  "ant sqrtf powf P c first_path rnds =
     omap path (ant_loop sqrtf powf P c rnds
       \<lparr>path = first_path, pheromone = replicate (length first_path) 1, best_distance = None\<rparr>)"

section \<open>The colony\<close>

text \<open>
  \<open>run\<close> starts all ants, each with its own random source, waits for them and drops the paths they
  return.
\<close>

fun aco_run ::
  "('r::linordered_field \<Rightarrow> 'r) \<Rightarrow> ('r \<Rightarrow> 'r \<Rightarrow> 'r) \<Rightarrow> 'r aco \<Rightarrow> 'r coords \<Rightarrow>
   ((nat list \<Rightarrow> nat list) \<times> ((nat list \<Rightarrow> nat list) \<times> 'r \<times> 'r) list) list \<Rightarrow> (ub, unit) outcome" where
  "aco_run sqrtf powf P c [] = Ret ()"
| "aco_run sqrtf powf P c ((shuffle, draws) # ants) =
     obind (ant sqrtf powf P c (get_path shuffle c) (map (\<lambda>(sh, r, r2). (get_path sh c, r, r2)) draws))
       (\<lambda>_. aco_run sqrtf powf P c ants)"

section \<open>Lemmas\<close>

text \<open>A tour visits every city once.\<close>

definition tour :: "nat \<Rightarrow> nat list \<Rightarrow> bool" where
  "tour n p \<longleftrightarrow> mset p = mset [0..<n]"

lemma tour_length: "tour n p \<Longrightarrow> length p = n"
  by (metis diff_zero length_upt size_mset tour_def)

lemma tour_less: "tour n p \<Longrightarrow> x \<in> set p \<Longrightarrow> x < n"
  by (metis atLeastLessThan_iff set_mset_mset set_upt tour_def)

lemma swap_tour: "i < length p \<Longrightarrow> j < length p \<Longrightarrow> tour n p \<Longrightarrow> \<exists>q. swap p i j = Ret q \<and> tour n q"
  by (simp add: swap_def tour_def mset_swap)

lemma distance_loop_Ret: "\<forall>x \<in> set p. x < length c \<Longrightarrow> \<exists>e. distance_loop sq c p d = Ret e"
  by (induction sq c p d rule: distance_loop.induct) (auto simp: get_distance2_def)

lemma get_distance_Ret: "tour (length c) p \<Longrightarrow> 0 < length c \<Longrightarrow> \<exists>e. get_distance sq c p = Ret e"
  using distance_loop_Ret [of p c sq 0] tour_less [of "length c" p] tour_length [of "length c" p]
  by (auto simp: get_distance_def)

lemma visibility_loop_Ret:
  "i < length c \<Longrightarrow> \<forall>j \<in> set js. j < length c \<Longrightarrow> \<exists>w. visibility_loop sq c i js v = Ret w"
  by (induction js arbitrary: v) (auto simp: get_distance2_def)

lemma desirability_Ret:
  "\<forall>j \<in> set js. j < length c \<Longrightarrow> length c \<le> length ph \<Longrightarrow>
   \<exists>pr. desirability sq pw P c ph js = Ret pr \<and> length pr = length js"
proof (induction js)
  case (Cons j js)
  then obtain pr v where "desirability sq pw P c ph js = Ret pr" "length pr = length js"
    "get_visibility sq c j = Ret v"
    using visibility_loop_Ret [of j c "[0..<length c]" sq 0] by (auto simp: get_visibility_def)
  with Cons.prems show ?case by auto
qed simp

lemma pick_next_bound: "0 < length cp \<Longrightarrow> j + length cp \<le> n \<Longrightarrow> pick_next r cp j < n"
  by (induction r cp j rule: pick_next.induct) (auto split: if_splits, fastforce)

definition ant_inv :: "'r coords \<Rightarrow> 'r ant_state \<Rightarrow> bool" where
  "ant_inv c s \<longleftrightarrow> tour (length c) (path s) \<and> length (pheromone s) = length c"

lemma keep_best_inv:
  assumes "ant_inv c s" "tour (length c) p" "0 < length c"
  shows "\<exists>s'. keep_best sq c p s = Ret s' \<and> ant_inv c s'"
  using get_distance_Ret [OF assms(2,3), of sq] assms by (auto simp: keep_best_def ant_inv_def)

lemma update_pheromone_inv:
  assumes "ant_inv c s" "0 < length c"
  shows "\<exists>s'. update_pheromone sq P c s = Ret s' \<and> ant_inv c s'"
proof -
  have t: "tour (length c) (path s)" "length (path s) = length c"
    using assms tour_length by (auto simp: ant_inv_def)
  then obtain d where "(if length (path s) > 1 then get_distance sq c (path s) else Ret 1) = Ret d"
    using get_distance_Ret [OF t(1) assms(2), of sq] by (cases "length (path s) > 1") auto
  then show ?thesis using assms t by (simp add: update_pheromone_def ant_inv_def Let_def)
qed

lemma move_ant_inv:
  assumes "ant_inv c s" "2 \<le> length c" "length cp = length c"
  shows "\<exists>s'. move_ant P cp r r2 s = Ret s' \<and> ant_inv c s'"
proof -
  let ?n = "length c"
  have t: "tour ?n (path s)" "length (path s) = ?n" using assms tour_length by (auto simp: ant_inv_def)
  have "pick_next r cp 0 < ?n" using assms by (intro pick_next_bound) auto
  then have "\<exists>p1. (if pick_next r cp 0 \<noteq> length (path s) - 1 then swap (path s) (pick_next r cp 0) (pick_next r cp 0 + 1)
      else Ret (path s)) = Ret p1 \<and> tour ?n p1"
    using t swap_tour [of "pick_next r cp 0" "path s" "pick_next r cp 0 + 1" ?n] by auto
  then obtain p1 where p1: "(if pick_next r cp 0 \<noteq> length (path s) - 1
      then swap (path s) (pick_next r cp 0) (pick_next r cp 0 + 1) else Ret (path s)) = Ret p1" "tour ?n p1"
    by blast
  have "0 < length p1" "1 < length p1" using tour_length [OF p1(2)] assms(2) by linarith+
  then have "\<exists>p2. (if q0 P > 0 \<and> r2 < q0 P then swap p1 0 1 else Ret p1) = Ret p2 \<and> tour ?n p2"
    using swap_tour [of 0 p1 1 ?n] p1(2) by (cases "q0 P > 0 \<and> r2 < q0 P") simp_all
  then show ?thesis using p1(1) assms(1) by (auto simp: move_ant_def Let_def ant_inv_def)
qed

lemma ant_iteration_inv:
  assumes "ant_inv c s" "2 \<le> length c" "tour (length c) p"
  shows "\<exists>s'. ant_iteration sq pw P c (p, r, r2) s = Ret s' \<and> ant_inv c s'"
proof -
  have pos: "0 < length c" using assms(2) by linarith
  obtain s1 where s1: "keep_best sq c p s = Ret s1" "ant_inv c s1" using keep_best_inv [OF assms(1,3) pos] by blast
  obtain s2 where s2: "update_pheromone sq P c s1 = Ret s2" "ant_inv c s2"
    using update_pheromone_inv [OF s1(2) pos] by blast
  have len: "length (path s2) = length c" using s2(2) tour_length by (auto simp: ant_inv_def)
  obtain pr where pr: "desirability sq pw P c (pheromone s2) [0..<length (path s2)] = Ret pr" "length pr = length c"
    using desirability_Ret [of "[0..<length (path s2)]" c "pheromone s2" sq pw P] s2(2) len
    by (auto simp: ant_inv_def)
  then show ?thesis
    using move_ant_inv [OF s2(2) assms(2), of "cumulate 0 (normalized pr)" P r r2] s1 s2
    by (simp add: ant_iteration_def normalized_def)
qed

lemma ant_tour:
  assumes "2 \<le> length c" "tour (length c) first_path" "\<forall>rnd \<in> set rnds. tour (length c) (fst rnd)"
  shows "\<exists>p. ant sqrtf powf P c first_path rnds = Ret p \<and> tour (length c) p"
proof -
  have "\<exists>s'. ant_loop sqrtf powf P c rnds s = Ret s' \<and> ant_inv c s'" if "ant_inv c s" for s
    using that assms(3)
  proof (induction rnds arbitrary: s)
    case (Cons rnd rnds)
    obtain p r r2 where rnd: "rnd = (p, r, r2)" by (cases rnd)
    with Cons.prems obtain s1 where "ant_iteration sqrtf powf P c rnd s = Ret s1" "ant_inv c s1"
      using ant_iteration_inv [of c s p sqrtf powf P r r2] assms(1) by auto
    with Cons show ?case by simp
  qed simp
  moreover have "ant_inv c \<lparr>path = first_path, pheromone = replicate (length first_path) 1, best_distance = None\<rparr>"
    using assms(2) tour_length by (simp add: ant_inv_def)
  ultimately obtain s' where "ant_loop sqrtf powf P c rnds
      \<lparr>path = first_path, pheromone = replicate (length first_path) 1, best_distance = None\<rparr> = Ret s'" "ant_inv c s'"
    by blast
  then show ?thesis by (simp add: ant_def ant_inv_def)
qed

definition is_shuffle :: "(nat list \<Rightarrow> nat list) \<Rightarrow> bool" where
  "is_shuffle sh \<longleftrightarrow> (\<forall>xs. mset (sh xs) = mset xs)"

lemma get_path_tour: "is_shuffle sh \<Longrightarrow> tour (length c) (get_path sh c)"
  by (simp add: is_shuffle_def tour_def get_path_def)

section \<open>Properties\<close>

text \<open>
  C31: with at least two cities and a shuffle that permutes, an ant never leaves its vectors, whatever the
  draws, and the path it returns visits every city exactly once; and so the whole colony runs to its end.
\<close>

theorem ant_returns_tour:
  assumes "2 \<le> length c" "\<forall>(sh, draws) \<in> set ants. is_shuffle sh \<and> (\<forall>d \<in> set draws. is_shuffle (fst d))"
  shows "aco_run sqrtf powf P c ants = Ret ()
    \<and> (\<forall>(sh, draws) \<in> set ants. \<exists>p. ant sqrtf powf P c (get_path sh c)
          (map (\<lambda>(sh, r, r2). (get_path sh c, r, r2)) draws) = Ret p \<and> tour (length c) p)"
  using assms(2)
proof (induction ants)
  case (Cons a ants)
  obtain sh draws where a: "a = (sh, draws)" by (cases a)
  then have "\<exists>p. ant sqrtf powf P c (get_path sh c) (map (\<lambda>(sh, r, r2). (get_path sh c, r, r2)) draws) = Ret p
      \<and> tour (length c) p"
    using Cons.prems by (intro ant_tour [OF assms(1)]) (fastforce intro: get_path_tour)+
  with Cons a show ?case by auto
qed simp

theorem ant_returns_tour_witness:
  "aco_run id (\<lambda>a b. a) \<lparr>alpha = 1, beta = 1, rho = 1 / 2, q0 = 1\<rparr> [(0, 0), (0, 1), (1, 1 :: rat)]
     [(rev, [(rev, 1 / 2, 0), (id, 0, 0)])] = Ret ()"
proof -
  have "is_shuffle rev" "is_shuffle id" by (simp_all add: is_shuffle_def)
  then show ?thesis
    using ant_returns_tour [of "[(0, 0), (0, 1), (1, 1 :: rat)]" "[(rev, [(rev, 1 / 2, 0), (id, 0, 0)])]"
      id "\<lambda>a b. a" "\<lparr>alpha = 1, beta = 1, rho = 1 / 2, q0 = 1\<rparr>"]
    by simp
qed

end
