(* ===== verification/Fft_Phase.thy ===== *)
theory Fft_Phase
  imports Complex_Main Machine
begin

text \<open>
  \<open>class FFT\<close> of \<open>middleware/src/stupid_fft.h\<close>: the stored spectrum and its views.  FFTW's
  transform, \<open>std::abs\<close> and \<open>std::arg\<close> are arguments; \<open>PI\<close> is the constant of the file
  as an element of the field.  Arithmetic is that of an ordered field.
\<close>

section \<open>The class\<close>

record 'r FFT =
  fft_result :: "('r \<times> 'r) list"
  fft_size :: nat

text \<open>The transform is executed on the samples with imaginary part zero; \<open>out\<close> holds its result.\<close>

definition FFT_ctor :: "(('r::linordered_field \<times> 'r) list \<Rightarrow> ('r \<times> 'r) list) \<Rightarrow> 'r list \<Rightarrow> (ub, 'r FFT) outcome" where
  "FFT_ctor execute data =
     (let inp = map (\<lambda>x. (x, 0)) data; out = execute inp
      in if length out < length data then Throw Out_of_bounds
         else Ret \<lparr>fft_result = take (length data) out, fft_size = length data\<rparr>)"

definition FFT_size :: "'r FFT \<Rightarrow> nat" where
  "FFT_size f = fft_size f"

definition FFT_map :: "('r \<times> 'r \<Rightarrow> 'r) \<Rightarrow> 'r FFT \<Rightarrow> 'r list" where
  "FFT_map g f = map (\<lambda>i. g (fft_result f ! i)) [0..<fft_size f]"

definition get_real :: "'r FFT \<Rightarrow> 'r list" where
  "get_real f = FFT_map fst f"

definition get_imag :: "'r FFT \<Rightarrow> 'r list" where
  "get_imag f = FFT_map snd f"

definition get_abs :: "('r \<times> 'r \<Rightarrow> 'r) \<Rightarrow> 'r FFT \<Rightarrow> 'r list" where
  "get_abs absf f = FFT_map absf f"

definition get_phase :: "('r \<times> 'r \<Rightarrow> 'r) \<Rightarrow> 'r FFT \<Rightarrow> 'r list" where
  "get_phase arg f = FFT_map arg f"

definition PI :: "'r::linordered_field" where
  "PI = 314159265358979323846 / 10 ^ 20"

definition get_real_phase :: "('r::linordered_field \<times> 'r \<Rightarrow> 'r) \<Rightarrow> 'r FFT \<Rightarrow> 'r list" where
  "get_real_phase arg f = FFT_map (\<lambda>z. arg z * 180 / PI) f"

definition get_imag_phase :: "('r::linordered_field \<times> 'r \<Rightarrow> 'r) \<Rightarrow> 'r FFT \<Rightarrow> 'r list" where
  "get_imag_phase arg f = FFT_map (\<lambda>z. arg z * 180 / PI) f"

definition get_real_phase_unwrapped :: "('r::linordered_field \<times> 'r \<Rightarrow> 'r) \<Rightarrow> 'r FFT \<Rightarrow> 'r list" where
  "get_real_phase_unwrapped arg f =
     FFT_map (\<lambda>z. let r = arg z * 180 / PI in if r < 0 then r + 360 else r) f"

definition get_imag_phase_unwrapped :: "('r::linordered_field \<times> 'r \<Rightarrow> 'r) \<Rightarrow> 'r FFT \<Rightarrow> 'r list" where
  "get_imag_phase_unwrapped arg f =
     FFT_map (\<lambda>z. let r = arg z * 180 / PI in if r < 0 then r + 360 else r) f"

definition get_real_phase_unwrapped_deg :: "('r::linordered_field \<times> 'r \<Rightarrow> 'r) \<Rightarrow> 'r FFT \<Rightarrow> 'r list" where
  "get_real_phase_unwrapped_deg arg f = FFT_map (\<lambda>z. arg z * 180 / PI) f"

definition get_imag_phase_unwrapped_deg :: "('r::linordered_field \<times> 'r \<Rightarrow> 'r) \<Rightarrow> 'r FFT \<Rightarrow> 'r list" where
  "get_imag_phase_unwrapped_deg arg f = FFT_map (\<lambda>z. arg z * 180 / PI) f"

definition get_real_phase_unwrapped_deg_shifted :: "('r::linordered_field \<times> 'r \<Rightarrow> 'r) \<Rightarrow> 'r FFT \<Rightarrow> 'r list" where
  "get_real_phase_unwrapped_deg_shifted arg f =
     FFT_map (\<lambda>z. let r = arg z * 180 / PI; r' = if r < 0 then r + 360 else r in r' - 180) f"

section \<open>Lemmas\<close>

lemma PI_pos: "0 < (PI :: 'r::linordered_field)"
  by (simp add: PI_def)

lemma degrees_range:
  fixes a :: "'r::linordered_field"
  assumes "- PI < a" "a \<le> PI"
  shows "- 180 < a * 180 / PI" "a * 180 / PI \<le> 180"
  using assms PI_pos [where 'r = 'r] by (simp_all add: pos_less_divide_eq pos_divide_le_eq)

lemma FFT_map_all: "(\<And>z. P (g z)) \<Longrightarrow> \<forall>d \<in> set (FFT_map g f). P d"
  by (auto simp: FFT_map_def)

section \<open>Properties\<close>

text \<open>
  when the argument function stays in \<open>(-PI, PI]\<close>, the phases in degrees lie in
  \<open>(-180, 180]\<close>, the unwrapped ones in \<open>[0, 360)\<close> and the shifted ones in \<open>[-180, 180)\<close>.
\<close>

theorem phase_ranges:
  fixes arg :: "'r::linordered_field \<times> 'r \<Rightarrow> 'r"
  assumes "\<forall>z. - PI < arg z \<and> arg z \<le> PI"
  shows "(\<forall>d \<in> set (get_real_phase arg f). - 180 < d \<and> d \<le> 180)
    \<and> (\<forall>d \<in> set (get_real_phase_unwrapped arg f). 0 \<le> d \<and> d < 360)
    \<and> (\<forall>d \<in> set (get_real_phase_unwrapped_deg_shifted arg f). - 180 \<le> d \<and> d < 180)"
proof -
  have r: "- 180 < arg z * 180 / PI" "arg z * 180 / PI \<le> 180" for z
    using degrees_range [of "arg z"] assms by simp_all
  show ?thesis
    unfolding get_real_phase_def get_real_phase_unwrapped_def get_real_phase_unwrapped_deg_shifted_def
  proof (intro conjI FFT_map_all)
    fix z
    show "- 180 < arg z * 180 / PI" "arg z * 180 / PI \<le> 180" by (rule r)+
    show "0 \<le> (let r = arg z * 180 / PI in if r < 0 then r + 360 else r)"
      "(let r = arg z * 180 / PI in if r < 0 then r + 360 else r) < 360"
      "- 180 \<le> (let r = arg z * 180 / PI; r' = if r < 0 then r + 360 else r in r' - 180)"
      "(let r = arg z * 180 / PI; r' = if r < 0 then r + 360 else r in r' - 180) < 180"
      using r [of z] by (auto simp: Let_def)
  qed
qed

theorem phase_ranges_witness:
  "\<forall>d \<in> set (get_real_phase_unwrapped (\<lambda>_. - 1) \<lparr>fft_result = [(0, 1 :: rat)], fft_size = 1\<rparr>). 0 \<le> d \<and> d < 360"
  using phase_ranges [of "\<lambda>_. - 1" "\<lparr>fft_result = [(0, 1 :: rat)], fft_size = 1\<rparr>"] by (simp add: PI_def)

text \<open>
  the views of a constructed spectrum have one entry per sample and read back its real and
  imaginary parts; the imaginary phase functions and the two \<open>_unwrapped_deg\<close> functions compute
  the same wrapped phases as \<open>get_real_phase\<close>.
\<close>

theorem fft_views:
  assumes "FFT_ctor execute data = Ret f"
  shows "zip (get_real f) (get_imag f) = take (length data) (execute (map (\<lambda>x. (x, 0)) data))
    \<and> length (get_real f) = length data \<and> FFT_size f = length data
    \<and> get_imag_phase arg f = get_real_phase arg f
    \<and> get_real_phase_unwrapped_deg arg f = get_real_phase arg f
    \<and> get_imag_phase_unwrapped_deg arg f = get_real_phase arg f
    \<and> get_imag_phase_unwrapped arg f = get_real_phase_unwrapped arg f"
proof -
  have f: "f = \<lparr>fft_result = take (length data) (execute (map (\<lambda>x. (x, 0)) data)), fft_size = length data\<rparr>"
    "length data \<le> length (execute (map (\<lambda>x. (x, 0)) data))"
    using assms by (auto simp: FFT_ctor_def Let_def split: if_splits)
  then have "zip (get_real f) (get_imag f) = take (length data) (execute (map (\<lambda>x. (x, 0)) data))"
    by (intro nth_equalityI) (simp_all add: get_real_def get_imag_def FFT_map_def)
  moreover have "length (get_real f) = length data" "FFT_size f = length data"
    using f by (simp_all add: get_real_def FFT_map_def FFT_size_def)
  ultimately show ?thesis
    by (simp add: get_imag_phase_def get_real_phase_def get_real_phase_unwrapped_deg_def
        get_imag_phase_unwrapped_deg_def get_imag_phase_unwrapped_def get_real_phase_unwrapped_def)
qed

theorem fft_views_witness:
  "\<exists>f. FFT_ctor id [1, 2 :: rat] = Ret f \<and> zip (get_real f) (get_imag f) = [(1, 0), (2, 0)]"
proof -
  have *: "FFT_ctor id [1, 2 :: rat] = Ret \<lparr>fft_result = [(1, 0), (2, 0)], fft_size = 2\<rparr>"
    by (simp add: FFT_ctor_def)
  show ?thesis using fft_views [OF *] * by auto
qed

end
