(* ===== verification/Stream_Io.thy ===== *)
theory Stream_Io
  imports Cxx_Lib Machine
begin

unbundle bit_operations_syntax

text \<open>
  Stream code: the upper-casing \<open>outbuf\<close> of \<open>example_streambuffer\<close> with the test that uses
  it, \<open>container_source\<close> of \<open>cjunk/tests.cpp\<close>, and the serial dump program
  \<open>middleware/src/dump_serial.cpp\<close>.
\<close>

section \<open>class outbuf\<close>

text \<open>
  The buffer keeps what it has written; \<open>console_out\<close> is what \<open>putchar\<close> wrote to the standard
  output.  A stream without a put area hands every character to \<open>overflow\<close> and goes bad when
  that returns \<open>EOF\<close> (-1).  \<open>put_ok\<close> tells whether \<open>putchar\<close> succeeds on its n-th call.
\<close>

record outbuf =
  m_internalBuffer :: string
  console_out :: string

definition toupper :: "char \<Rightarrow> char" where
  "toupper c =
     (let n = of_char c :: nat in if 97 \<le> n \<and> n \<le> 122 then char_of (n - 32) else c)"

text \<open>The integer value of a (signed) \<open>char\<close>.\<close>

definition char_int :: "char \<Rightarrow> int" where
  "char_int c = (let n = of_char c :: nat in if n < 128 then int n else int n - 256)"

text \<open>The argument is a character as an \<open>unsigned char\<close>, or \<open>EOF\<close>.\<close>

definition overflow :: "(nat \<Rightarrow> bool) \<Rightarrow> int \<Rightarrow> outbuf \<Rightarrow> int \<times> outbuf" where
  "overflow put_ok c0 ob =
     (if c0 \<noteq> - 1
      then let c = toupper (char_of (nat (c0 mod 256))); ob1 = ob\<lparr>m_internalBuffer := m_internalBuffer ob @ [c]\<rparr>
           in if put_ok (length (console_out ob))
              then (char_int c, ob1\<lparr>console_out := console_out ob @ [c]\<rparr>)
              else (- 1, ob1)
      else (c0, ob))"

text \<open>The same function of \<open>gnustream.cpp\<close>, whose buffer keeps no record; the state is the standard output.\<close>

definition gnu_overflow :: "(nat \<Rightarrow> bool) \<Rightarrow> int \<Rightarrow> string \<Rightarrow> int \<times> string" where
  "gnu_overflow put_ok c0 out =
     (if c0 \<noteq> - 1
      then let c = toupper (char_of (nat (c0 mod 256)))
           in if put_ok (length out) then (char_int c, out @ [c]) else (- 1, out)
      else (c0, out))"

definition dump :: "outbuf \<Rightarrow> string" where
  "dump ob = m_internalBuffer ob"

text \<open>An output stream: its buffer and whether it is still good.\<close>

fun stream_write :: "(nat \<Rightarrow> bool) \<Rightarrow> string \<Rightarrow> bool \<times> outbuf \<Rightarrow> bool \<times> outbuf" where
  "stream_write put_ok [] s = s"
| "stream_write put_ok (c # cs) (good, ob) =
     (if good then let (r, ob') = overflow put_ok (int (of_char c)) ob in stream_write put_ok cs (r \<noteq> - 1, ob')
      else (good, ob))"

fun gnu_stream_write :: "(nat \<Rightarrow> bool) \<Rightarrow> string \<Rightarrow> bool \<times> string \<Rightarrow> bool \<times> string" where
  "gnu_stream_write put_ok [] s = s"
| "gnu_stream_write put_ok (c # cs) (good, out) =
     (if good then let (r, out') = gnu_overflow put_ok (int (of_char c)) out in gnu_stream_write put_ok cs (r \<noteq> - 1, out')
      else (good, out))"

fun hex_string :: "nat \<Rightarrow> string" where
  "hex_string n =
     (if n < 16 then [''0123456789abcdef'' ! n] else hex_string (n div 16) @ [''0123456789abcdef'' ! (n mod 16)])"

declare hex_string.simps [simp del]

definition gnustream_main :: "(nat \<Rightarrow> bool) \<Rightarrow> string" where
  "gnustream_main put_ok = snd (gnu_stream_write put_ok (''31 hexadecimal: '' @ hex_string 31 @ [newline]) (True, []))"

text \<open>The text \<open>example1\<close> writes, the text it expects, and whether its check passes.\<close>

definition example1_output :: "(nat \<Rightarrow> bool) \<Rightarrow> string" where
  "example1_output put_ok =
     dump (snd (stream_write put_ok
       (''31 hexadecimal: '' @ hex_string 31 @ [newline] @ ''2343 som info !!'' @ [newline])
       (True, \<lparr>m_internalBuffer = [], console_out = []\<rparr>)))"

definition example1_expected :: string where
  "example1_expected =
     ''31 HEXADECIMAL: 1F'' @ [CHR 0x5C] @ ''n2343 SOM INFO !!'' @ [CHR 0x5C] @ ''n''"

definition example1_passes :: "(nat \<Rightarrow> bool) \<Rightarrow> bool" where
  "example1_passes put_ok \<longleftrightarrow> example1_output put_ok = example1_expected"

lemma int_of_char: "int (of_char c) = of_char c"
  by (simp add: of_char_def)

lemma overflow_of_char:
  "overflow put_ok (int (of_char c0)) ob =
     (let c = toupper c0; ob1 = ob\<lparr>m_internalBuffer := m_internalBuffer ob @ [c]\<rparr>
      in if put_ok (length (console_out ob)) then (char_int c, ob1\<lparr>console_out := console_out ob @ [c]\<rparr>)
         else (- 1, ob1))"
proof -
  have "nat (int (of_char c0) mod 256) = of_char c0" by (simp add: int_of_char of_char_mod_256 flip: nat_int)
  moreover have "int (of_char c0) \<noteq> - 1" by simp
  ultimately show ?thesis by (simp add: overflow_def)
qed

lemma gnu_overflow_console:
  "gnu_overflow put_ok c (console_out ob) = (fst (overflow put_ok c ob), console_out (snd (overflow put_ok c ob)))"
  by (simp add: gnu_overflow_def overflow_def Let_def)

lemma gnu_stream_write_console:
  "gnu_stream_write put_ok s (g, console_out ob) =
     (fst (stream_write put_ok s (g, ob)), console_out (snd (stream_write put_ok s (g, ob))))"
  by (induction s arbitrary: g ob) (simp_all add: gnu_overflow_console split_beta)

lemma char_int_eof: "char_int c = - 1 \<longleftrightarrow> c = CHR 0xFF"
proof -
  have "of_char (CHR 0xFF) = (255 :: nat)" by simp
  then have "(of_char c :: nat) = 255 \<longleftrightarrow> c = CHR 0xFF" by (metis of_char_eq_iff)
  then show ?thesis by (auto simp: char_int_def Let_def)
qed

lemma toupper_ff: "toupper c = CHR 0xFF \<longleftrightarrow> c = CHR 0xFF"
proof (cases "97 \<le> (of_char c :: nat) \<and> (of_char c :: nat) \<le> 122")
  case True
  have "(of_char c - 32) mod 256 = (of_char c - 32 :: nat)" using True by (intro mod_less) linarith
  with True have "(of_char (toupper c) :: nat) = of_char c - 32" by (simp add: toupper_def Let_def)
  with True have "(of_char (toupper c) :: nat) \<le> 122" by linarith
  moreover have "(of_char (CHR 0xFF) :: nat) = 255" by simp
  ultimately have "toupper c \<noteq> CHR 0xFF" "c \<noteq> CHR 0xFF" using True by fastforce+
  then show ?thesis by simp
next
  case False
  then show ?thesis by (auto simp: toupper_def Let_def)
qed

lemma stream_write_good:
  assumes "CHR 0xFF \<notin> set s" "\<forall>n. put_ok n"
  shows "stream_write put_ok s (True, ob)
    = (True, ob\<lparr>m_internalBuffer := m_internalBuffer ob @ map toupper s,
               console_out := console_out ob @ map toupper s\<rparr>)"
  using assms(1)
proof (induction s arbitrary: ob)
  case (Cons c s)
  then have "char_int (toupper c) \<noteq> - 1" by (auto simp: char_int_eof toupper_ff)
  with Cons assms(2) show ?case by (simp add: overflow_of_char Let_def)
qed simp

section \<open>class container_source\<close>

text \<open>\<open>read\<close> fills the caller's buffer with the chunk returned; \<open>None\<close> is the result -1.\<close>

record 'a container_source =
  container :: "'a list"
  cs_pos :: nat

definition cs_new :: "'a list \<Rightarrow> 'a container_source" where
  "cs_new c = \<lparr>container = c, cs_pos = 0\<rparr>"

definition cs_read :: "int \<Rightarrow> 'a container_source \<Rightarrow> (ub, 'a list option \<times> 'a container_source) outcome" where
  "cs_read n cs =
     (let amt = int (length (container cs)) - int (cs_pos cs); result = min n amt
      in if result < 0 then Throw Out_of_bounds
         else if result \<noteq> 0
         then Ret (Some (take (nat result) (drop (cs_pos cs) (container cs))), cs\<lparr>cs_pos := cs_pos cs + nat result\<rparr>)
         else Ret (None, cs))"

text \<open>Reading with the buffer sizes \<open>ns\<close> until the end is reported.\<close>

fun cs_read_all :: "int list \<Rightarrow> 'a container_source \<Rightarrow> (ub, 'a list \<times> bool) outcome" where
  "cs_read_all [] cs = Ret ([], False)"
| "cs_read_all (n # ns) cs =
     obind (cs_read n cs) (\<lambda>(r, cs').
       case r of None \<Rightarrow> Ret ([], True) | Some chunk \<Rightarrow> omap (\<lambda>(rest, e). (chunk @ rest, e)) (cs_read_all ns cs'))"

text \<open>
  The test \<open>multipleFiles\<close>: two files are written, and only the second is copied to the result that is compared
  with the contents of both.
\<close>

definition multipleFiles :: "string \<times> string" where
  "multipleFiles =
     (let files = [''/tmp/file1'' \<mapsto> ''file1'', ''/tmp/file2'' \<mapsto> ''file2''];
          input2 = (case files ''/tmp/file2'' of Some s \<Rightarrow> s | None \<Rightarrow> []);
          result = [] @ input2
      in (''file1file2'', result))"

definition CombinerDevice_read :: "int \<Rightarrow> int" where
  "CombinerDevice_read n = - 1"

lemma cs_read_all_rest:
  assumes "cs_pos cs \<le> length (container cs)" "\<forall>n \<in> set ns. 0 < n"
    and "length (container cs) < cs_pos cs + length ns"
  shows "cs_read_all ns cs = Ret (drop (cs_pos cs) (container cs), True)"
  using assms
proof (induction ns arbitrary: cs)
  case (Cons n ns)
  let ?left = "length (container cs) - cs_pos cs" let ?k = "min (nat n) ?left"
  show ?case
  proof (cases "?left = 0")
    case True
    with Cons.prems show ?thesis by (simp add: cs_read_def Let_def)
  next
    case False
    have k: "min n (int (length (container cs)) - int (cs_pos cs)) = int ?k" "0 < ?k"
      using False Cons.prems by (auto simp: min_def nat_le_iff)
    define cs1 where "cs1 = cs\<lparr>cs_pos := cs_pos cs + ?k\<rparr>"
    have r: "cs_read n cs = Ret (Some (take ?k (drop (cs_pos cs) (container cs))), cs1)"
      using k(2) unfolding cs_read_def Let_def k(1) cs1_def by simp
    have "cs_read_all ns cs1 = Ret (drop (cs_pos cs1) (container cs1), True)"
      using Cons.prems k(2) by (intro Cons.IH) (auto simp: cs1_def)
    then show ?thesis
      unfolding cs_read_all.simps r using append_take_drop_id [of ?k "drop (cs_pos cs) (container cs)"]
      by (simp add: cs1_def add.commute)
  qed
qed simp

section \<open>dump_serial\<close>

text \<open>The flag values are those of Linux \<open>termios.h\<close>.\<close>

definition CSIZE :: "32 word" where "CSIZE = 0x30"
definition CS8 :: "32 word" where "CS8 = 0x30"
definition CSTOPB :: "32 word" where "CSTOPB = 0x40"
definition CREAD :: "32 word" where "CREAD = 0x80"
definition PARENB :: "32 word" where "PARENB = 0x100"
definition CLOCAL :: "32 word" where "CLOCAL = 0x800"
definition CRTSCTS :: "32 word" where "CRTSCTS = 0x80000000"
definition ISIG :: "32 word" where "ISIG = 0x1"
definition ICANON :: "32 word" where "ICANON = 0x2"
definition ECHO :: "32 word" where "ECHO = 0x8"
definition ECHOE :: "32 word" where "ECHOE = 0x10"
definition OPOST :: "32 word" where "OPOST = 0x1"


record termios =
  c_iflag :: "32 word"
  c_oflag :: "32 word"
  c_cflag :: "32 word"
  c_lflag :: "32 word"
  c_ispeed :: int
  c_ospeed :: int

definition termios_zero :: termios where
  "termios_zero = \<lparr>c_iflag = 0, c_oflag = 0, c_cflag = 0, c_lflag = 0, c_ispeed = 0, c_ospeed = 0\<rparr>"

text \<open>
  The four calls of the C library: whether \<open>tcgetattr\<close> succeeds, what the two setters of the speed make of the
  options (nothing when they reject the speed), and the settings the device has after \<open>tcsetattr\<close>, as a
  function of those it had and those it is given.
\<close>

record port_api =
  tcgetattr_ok :: bool
  cfsetispeed :: "int \<Rightarrow> termios \<Rightarrow> termios"
  cfsetospeed :: "int \<Rightarrow> termios \<Rightarrow> termios"
  tcsetattr :: "termios \<Rightarrow> termios \<Rightarrow> termios"

text \<open>The options \<open>configPort\<close> hands to \<open>tcsetattr\<close>, and the device after it; no result is looked at.\<close>

definition port_options :: "port_api \<Rightarrow> int \<Rightarrow> termios \<Rightarrow> termios" where
  "port_options api baud dev =
     (let o0 = (if tcgetattr_ok api then dev else termios_zero);
          o1 = cfsetispeed api baud o0;
          o2 = cfsetospeed api baud o1;
          o3 = o2\<lparr>c_cflag := c_cflag o2 OR (CLOCAL OR CREAD)\<rparr>;
          o4 = o3\<lparr>c_cflag := c_cflag o3 AND NOT CSIZE\<rparr>;
          o5 = o4\<lparr>c_cflag := c_cflag o4 OR CS8\<rparr>;
          o6 = o5\<lparr>c_cflag := c_cflag o5 AND NOT PARENB\<rparr>;
          o7 = o6\<lparr>c_cflag := c_cflag o6 AND NOT CSTOPB\<rparr>;
          o8 = o7\<lparr>c_cflag := c_cflag o7 AND NOT CRTSCTS\<rparr>;
          o9 = o8\<lparr>c_lflag := c_lflag o8 AND NOT (ICANON OR ECHO OR ECHOE OR ISIG)\<rparr>
      in o9\<lparr>c_oflag := c_oflag o9 AND NOT OPOST\<rparr>)"

definition configPort :: "port_api \<Rightarrow> int \<Rightarrow> termios \<Rightarrow> termios" where
  "configPort api baud dev = tcsetattr api dev (port_options api baud dev)"


definition BUFFER_SIZE :: nat where "BUFFER_SIZE = 1024"

text \<open>
  One round of the read loop: \<open>got\<close> are the bytes \<open>read\<close> delivered (none when it returned 0 or
  -1).  The buffer is returned with what is printed, if anything.
\<close>

definition dump_round :: "string \<Rightarrow> string \<Rightarrow> string \<times> string option" where
  "dump_round buffer got =
     (if got = [] then (buffer, None)
      else let b1 = got @ drop (length got) buffer;
               b2 = (if length got < BUFFER_SIZE then b1[length got := NUL] else b1[BUFFER_SIZE - 1 := NUL])
           in (b2, Some (until_nul b2 @ [newline])))"

fun dump_serial :: "string \<Rightarrow> string list \<Rightarrow> string list" where
  "dump_serial buffer [] = []"
| "dump_serial buffer (got # gots) =
     (let (buffer', out) = dump_round buffer got
      in (case out of None \<Rightarrow> [] | Some t \<Rightarrow> [t]) @ dump_serial buffer' gots)"

lemma dump_round_short:
  assumes "NUL \<notin> set got" "got \<noteq> []" "length got < BUFFER_SIZE" "length buffer = BUFFER_SIZE"
  shows "snd (dump_round buffer got) = Some (got @ [newline]) \<and> length (fst (dump_round buffer got)) = BUFFER_SIZE"
proof -
  have "drop (length got) buffer = buffer ! length got # drop (Suc (length got)) buffer"
    using assms(3,4) by (simp add: Cons_nth_drop_Suc)
  with assms show ?thesis by (simp add: dump_round_def Let_def until_nul_append)
qed

text \<open>
  The whole program: how it ends before the loop, or the settings it gave the device and what it
  prints.  \<open>open_fd\<close> is the descriptor \<open>open\<close> returns, \<open>dev\<close> the settings the device had.
\<close>

datatype dump_result = Usage | Open_error | Dumping termios "string list"

definition dump_main ::
  "port_api \<Rightarrow> (string \<Rightarrow> int) \<Rightarrow> (string \<Rightarrow> int) \<Rightarrow> termios \<Rightarrow> string \<Rightarrow> string list \<Rightarrow> string list \<Rightarrow> dump_result"
where
  "dump_main api atoi open_fd dev buffer argv gots =
     (if length argv < 3 then Usage
      else if open_fd (argv ! 1) < 0 then Open_error
      else Dumping (configPort api (atoi (argv ! 2)) dev) (dump_serial buffer gots))"

section \<open>Properties\<close>

text \<open>
  as long as \<open>putchar\<close> succeeds, writing any text without the character 0xFF through an
  \<open>outbuf\<close> keeps the stream good and records and prints the text in upper case; the character 0xFF
  is written but taken for \<open>EOF\<close>, and the stream goes bad.  The buffer of \<open>gnustream.cpp\<close> prints the same.
\<close>

theorem outbuf_uppercases:
  assumes "CHR 0xFF \<notin> set s" "\<forall>n. put_ok n"
  shows "stream_write put_ok s (True, ob)
      = (True, ob\<lparr>m_internalBuffer := dump ob @ map toupper s, console_out := console_out ob @ map toupper s\<rparr>)
    \<and> gnu_stream_write put_ok s (True, console_out ob) = (True, console_out ob @ map toupper s)
    \<and> fst (stream_write put_ok (s @ CHR 0xFF # t) (True, ob)) = False"
proof (intro conjI)
  show "gnu_stream_write put_ok s (True, console_out ob) = (True, console_out ob @ map toupper s)"
    using stream_write_good [OF assms, of ob] by (simp add: gnu_stream_write_console)
  show "stream_write put_ok s (True, ob)
      = (True, ob\<lparr>m_internalBuffer := dump ob @ map toupper s, console_out := console_out ob @ map toupper s\<rparr>)"
    using stream_write_good [OF assms] by (simp add: dump_def)
  have app: "stream_write put_ok (a @ b) st = stream_write put_ok b (stream_write put_ok a st)" for a b st
    by (induction put_ok a st rule: stream_write.induct)
      (auto simp: Let_def split_beta, (induction b; simp)+)
  have bad: "fst (stream_write put_ok t (False, ob'))= False" for t ob' by (cases t) auto
  have "toupper (CHR 0xFF) = CHR 0xFF" "put_ok n" for n using assms(2) by (simp_all add: toupper_ff)
  then have "stream_write put_ok (CHR 0xFF # t) (True, ob') = stream_write put_ok t (False,
      ob'\<lparr>m_internalBuffer := m_internalBuffer ob' @ [CHR 0xFF], console_out := console_out ob' @ [CHR 0xFF]\<rparr>)" for ob'
    using overflow_of_char [of put_ok "CHR 0xFF" ob'] by (simp add: Let_def char_int_eof)
  then show "fst (stream_write put_ok (s @ CHR 0xFF # t) (True, ob)) = False"
    unfolding app stream_write_good [OF assms] by (simp only: bad)
qed

theorem outbuf_uppercases_witness:
  "fst (stream_write (\<lambda>_. True) ''abc'' (True, \<lparr>m_internalBuffer = [], console_out = []\<rparr>)) = True"
  using outbuf_uppercases [of "''abc''" "\<lambda>_. True" "\<lparr>m_internalBuffer = [], console_out = []\<rparr>" "[]"] by simp

text \<open>
  the check of \<open>example1\<close> cannot pass: the expected text has a backslash and the letter n where
  the stream writes a line break.
\<close>

theorem example1_fails: "\<not> example1_passes (\<lambda>_. True)"
proof -
  let ?t = "''31 hexadecimal: '' @ hex_string 31 @ [newline] @ ''2343 som info !!'' @ [newline]"
  have "hex_string 31 = ''1f''" by (simp add: hex_string.simps)
  then have "CHR 0xFF \<notin> set ?t" by (simp add: newline_def)
  then have ex: "example1_output (\<lambda>_. True) = map toupper ?t"
    unfolding example1_output_def by (subst stream_write_good) (simp_all add: dump_def)
  have "toupper newline = newline" by (simp add: toupper_def newline_def)
  then have "newline \<in> set (example1_output (\<lambda>_. True))" by (simp add: ex)
  moreover have "newline \<notin> set example1_expected" by (simp add: example1_expected_def newline_def)
  ultimately show ?thesis by (auto simp: example1_passes_def)
qed

lemma multipleFiles_fails: "snd multipleFiles = ''file2'' \<and> fst multipleFiles \<noteq> snd multipleFiles"
  by (simp add: multipleFiles_def)

text \<open>
  C30: reading a \<open>container_source\<close> with any positive buffer sizes delivers exactly the container's
  contents and then reports the end.
\<close>

theorem container_source_reads_all:
  assumes "\<forall>n \<in> set ns. 0 < n" "length c < length ns"
  shows "cs_read_all ns (cs_new c) = Ret (c, True)"
  using cs_read_all_rest [of "cs_new c" ns] assms by (simp add: cs_new_def)

theorem container_source_reads_all_witness:
  "cs_read_all [2, 1, 5, 1] (cs_new ''abc'') = Ret (''abc'', True)"
  using container_source_reads_all [of "[2, 1, 5, 1]" "''abc''"] by simp













text \<open>
  a chunk without NUL that does not fill the buffer is printed in full, whatever the buffer held
  before; a chunk that fills it loses its last byte.
\<close>

theorem dump_round_prints:
  assumes "NUL \<notin> set got" "got \<noteq> []" "length got \<le> BUFFER_SIZE" "length buffer = BUFFER_SIZE"
  shows "snd (dump_round buffer got)
    = Some ((if length got < BUFFER_SIZE then got else butlast got) @ [newline])
    \<and> length (fst (dump_round buffer got)) = BUFFER_SIZE"
proof (cases "length got < BUFFER_SIZE")
  case True
  with assms show ?thesis using dump_round_short by simp
next
  case False
  then have len: "length got = BUFFER_SIZE" using assms(3) by simp
  then have "(got @ drop (length got) buffer)[BUFFER_SIZE - 1 := NUL] = butlast got @ [NUL]"
    using assms(2,4) by (cases got rule: rev_cases) (auto simp: list_update_append)
  moreover have "NUL \<notin> set (butlast got)" using assms(1) by (meson in_set_butlastD)
  ultimately show ?thesis using False len assms
    by (simp add: dump_round_def Let_def until_nul_append) (simp add: BUFFER_SIZE_def)
qed

theorem dump_round_prints_witness:
  "snd (dump_round (replicate BUFFER_SIZE NUL) ''ok'') = Some (''ok'' @ [newline])"
  using dump_round_prints [of "''ok''" "replicate BUFFER_SIZE NUL"] by (simp add: BUFFER_SIZE_def)

text \<open>
  what the program prints does not depend on the uninitialised buffer it starts with: for chunks
  without NUL that do not fill the buffer it is the non-empty chunks, one per line, in order.
\<close>

theorem dump_serial_prints:
  assumes "\<forall>got \<in> set gots. NUL \<notin> set got \<and> length got < BUFFER_SIZE" "length buffer = BUFFER_SIZE"
  shows "dump_serial buffer gots = map (\<lambda>g. g @ [newline]) (filter (\<lambda>g. g \<noteq> []) gots)"
  using assms
proof (induction gots arbitrary: buffer)
  case (Cons got gots)
  show ?case
  proof (cases "got = []")
    case True
    then show ?thesis using Cons by (simp add: dump_round_def)
  next
    case False
    with Cons.prems have "snd (dump_round buffer got) = Some (got @ [newline])"
      "length (fst (dump_round buffer got)) = BUFFER_SIZE"
      using dump_round_short [of got buffer] by auto
    with False Cons show ?thesis by (simp add: split_beta)
  qed
qed simp

theorem dump_serial_prints_witness:
  "dump_serial (replicate BUFFER_SIZE NUL) [''ok'', [], ''b''] = [''ok'' @ [newline], ''b'' @ [newline]]"
  using dump_serial_prints [of "[''ok'', [], ''b'']" "replicate BUFFER_SIZE NUL"] by (simp add: BUFFER_SIZE_def)

end
