(* ===== verification/Step_System.thy ===== *)
theory Step_System
  imports Prelude
begin

text \<open>
  The state machines of the development: the states reachable from the starting states of a step
  relation, and the two contracts that the components prove for theirs, an invariant
  (\<open>step_invariant\<close>) and a measure that every step decreases (\<open>step_measure\<close>).
\<close>

inductive reachable :: "('s \<Rightarrow> bool) \<Rightarrow> ('s \<Rightarrow> 's \<Rightarrow> bool) \<Rightarrow> 's \<Rightarrow> bool" for start step where
  reachable_start: "start s \<Longrightarrow> reachable start step s"
| reachable_step: "reachable start step s \<Longrightarrow> step s s' \<Longrightarrow> reachable start step s'"

lemma reachable_initial: "reachable ((=) s) step s"
  by (rule reachable_start) simp

lemma reachable_weaken: "reachable start step s \<Longrightarrow> (\<And>s. start s \<Longrightarrow> start' s) \<Longrightarrow> reachable start' step s"
  by (induction rule: reachable.induct) (auto intro: reachable_start reachable_step)

lemma reachable_steps: "step\<^sup>*\<^sup>* s t \<Longrightarrow> reachable start step s \<Longrightarrow> reachable start step t"
  by (induction rule: rtranclp_induct) (auto intro: reachable_step)

locale step_invariant =
  fixes start :: "'s \<Rightarrow> bool"
    and step :: "'s \<Rightarrow> 's \<Rightarrow> bool"
    and inv :: "'s \<Rightarrow> bool"
  assumes start_inv: "start s \<Longrightarrow> inv s"
    and step_inv: "inv s \<Longrightarrow> step s s' \<Longrightarrow> inv s'"
begin

lemma reachable_inv: "reachable start step s \<Longrightarrow> inv s"
  by (induction rule: reachable.induct) (auto intro: start_inv step_inv)

lemma steps_inv: "step\<^sup>*\<^sup>* s t \<Longrightarrow> inv s \<Longrightarrow> inv t"
  by (induction rule: rtranclp_induct) (auto intro: step_inv)

end

locale step_measure = step_invariant +
  fixes m :: "'s \<Rightarrow> nat"
  assumes step_less: "inv s \<Longrightarrow> step s s' \<Longrightarrow> m s' < m s"
begin

lemma run_bound: "(step ^^ n) s t \<Longrightarrow> inv s \<Longrightarrow> n + m t \<le> m s"
proof (induction n arbitrary: t)
  case (Suc n)
  then obtain u where u: "(step ^^ n) s u" "step u t" by auto
  then have "inv u" using steps_inv Suc.prems(2) relpowp_imp_rtranclp by metis
  with step_less u Suc.IH [OF u(1) Suc.prems(2)] show ?case by fastforce
qed simp

lemma terminates: "inv s \<Longrightarrow> \<exists>t. step\<^sup>*\<^sup>* s t \<and> \<not> (\<exists>u. step t u)"
proof (induction "m s" arbitrary: s rule: less_induct)
  case less
  show ?case
  proof (cases "\<exists>u. step s u")
    case True
    then obtain u where u: "step s u" by blast
    with less step_less step_inv obtain t where "step\<^sup>*\<^sup>* u t" "\<not> (\<exists>v. step t v)" by blast
    with u show ?thesis by (metis converse_rtranclp_into_rtranclp)
  qed blast
qed

lemma reachable_ends: "reachable start step s \<Longrightarrow> \<exists>t. step\<^sup>*\<^sup>* s t \<and> inv t \<and> \<not> (\<exists>u. step t u)"
  using terminates reachable_inv steps_inv by meson

end

end
