(* ===== verification/Network_Stream.thy ===== *)
theory Network_Stream
  imports Complex_Main Machine Step_System
begin

text \<open>
  \<open>cjunk/practice/networkframeStream.cpp\<close>: the connection flags and worker threads of the stream
  classes, their construction and destruction, and the frame decoder.  The outcome of name
  resolution, connection and every read or write is an argument.  The test at the head of a loop and
  what follows a transfer are the atomic steps of a worker thread.  \<open>std::terminate\<close> is the
  error \<open>Terminate\<close>; a join that would wait for ever is \<open>Diverge\<close>.
\<close>

section \<open>NetworkStreamBase\<close>

datatype stream_error = Terminate

datatype thread = NoThread | Running | Transferring | Finished

record stream =
  is_running :: bool
  is_reading :: bool
  is_writing :: bool
  is_connected :: bool
  is_disconnected :: bool
  read_thread :: thread
  write_thread :: thread
  socket_closed :: bool
  write_buffer :: string

definition NetworkStreamBase :: stream where
  "NetworkStreamBase =
     \<lparr>is_running = False, is_reading = False, is_writing = False, is_connected = False,
      is_disconnected = False, read_thread = NoThread, write_thread = NoThread,
      socket_closed = False, write_buffer = []\<rparr>"

definition NetworkStreamBase_stop :: "stream \<Rightarrow> stream" where
  "NetworkStreamBase_stop s = s\<lparr>is_running := False\<rparr>"

text \<open>The destructor of \<open>std::thread\<close> calls \<open>std::terminate\<close> on a thread not joined.\<close>

definition thread_dtor :: "thread \<Rightarrow> (stream_error, unit) outcome" where
  "thread_dtor t = (if t = NoThread then Ret () else Throw Terminate)"

definition threads_dtor :: "stream \<Rightarrow> (stream_error, stream) outcome" where
  "threads_dtor s = obind (thread_dtor (write_thread s)) (\<lambda>_. obind (thread_dtor (read_thread s)) (\<lambda>_. Ret s))"

section \<open>NetworkVideoStreamObservable\<close>

definition Observable_ctor :: "bool \<Rightarrow> bool \<Rightarrow> stream" where
  "Observable_ctor resolve_ec connect_ec =
     (if resolve_ec then NetworkStreamBase
      else if connect_ec then NetworkStreamBase
      else NetworkStreamBase\<lparr>is_connected := True, is_disconnected := False, is_running := True,
             is_reading := True, is_writing := True, read_thread := Running, write_thread := Running\<rparr>)"

text \<open>
  A thread is about to test \<open>is_running\<close> (\<open>Running\<close>), inside a transfer, or has left its loop;
  \<open>ec\<close> tells whether the transfer reported an error.
\<close>

definition read_loop_test :: "stream \<Rightarrow> stream" where
  "read_loop_test s =
     (if \<not> is_running s then s\<lparr>read_thread := Finished\<rparr>
      else if is_reading s then s\<lparr>read_thread := Transferring\<rparr>
      else s)"

definition read_loop_transfer :: "bool \<Rightarrow> stream \<Rightarrow> stream" where
  "read_loop_transfer ec s =
     (if ec then s\<lparr>is_connected := False, is_disconnected := True, is_reading := False, read_thread := Finished\<rparr>
      else s\<lparr>read_thread := Running\<rparr>)"

definition write_loop_test :: "stream \<Rightarrow> stream" where
  "write_loop_test s =
     (if \<not> is_running s then s\<lparr>write_thread := Finished\<rparr>
      else if is_writing s then s\<lparr>write_thread := Transferring\<rparr>
      else s)"

definition write_loop_transfer :: "bool \<Rightarrow> stream \<Rightarrow> stream" where
  "write_loop_transfer ec s =
     (if ec then s\<lparr>is_connected := False, is_disconnected := True, is_writing := False, write_thread := Finished\<rparr>
      else s\<lparr>write_thread := Running\<rparr>)"

text \<open>
  Joining a thread is an error if there is none and otherwise waits until it has left its loop.  The
  first argument is what the pending transfer does, if there is one: \<open>None\<close> if it never returns,
  \<open>Some ec\<close> if it returns with \<open>ec\<close>.
\<close>

definition join_read :: "bool option \<Rightarrow> stream \<Rightarrow> (stream_error, stream) outcome" where
  "join_read pend s =
     (case read_thread s of
        NoThread \<Rightarrow> Throw Terminate
      | Finished \<Rightarrow> Ret (s\<lparr>read_thread := NoThread\<rparr>)
      | Running \<Rightarrow> if is_running s then Diverge else Ret ((read_loop_test s)\<lparr>read_thread := NoThread\<rparr>)
      | Transferring \<Rightarrow>
          (case pend of
             None \<Rightarrow> Diverge
           | Some ec \<Rightarrow> if is_running s \<and> \<not> ec then Diverge
               else Ret ((read_loop_transfer ec s)\<lparr>read_thread := NoThread\<rparr>)))"

definition join_write :: "bool option \<Rightarrow> stream \<Rightarrow> (stream_error, stream) outcome" where
  "join_write pend s =
     (case write_thread s of
        NoThread \<Rightarrow> Throw Terminate
      | Finished \<Rightarrow> Ret (s\<lparr>write_thread := NoThread\<rparr>)
      | Running \<Rightarrow> if is_running s then Diverge else Ret ((write_loop_test s)\<lparr>write_thread := NoThread\<rparr>)
      | Transferring \<Rightarrow>
          (case pend of
             None \<Rightarrow> Diverge
           | Some ec \<Rightarrow> if is_running s \<and> \<not> ec then Diverge
               else Ret ((write_loop_transfer ec s)\<lparr>write_thread := NoThread\<rparr>)))"

definition Observable_dtor :: "bool option \<Rightarrow> bool option \<Rightarrow> stream \<Rightarrow> (stream_error, stream) outcome" where
  "Observable_dtor rp wp s =
     obind (join_read rp (s\<lparr>is_running := False, is_reading := False, is_writing := False\<rparr>)) (\<lambda>s1.
     obind (join_write wp s1) threads_dtor)"

text \<open>\<open>put\<close> is what \<open>boost::asio::streambuf\<close> makes of more output.\<close>

definition Observable_write :: "(string \<Rightarrow> string \<Rightarrow> string) \<Rightarrow> string \<Rightarrow> stream \<Rightarrow> stream" where
  "Observable_write put d s =
     (if is_connected s then s\<lparr>write_buffer := put (write_buffer s) d\<rparr> else s)"

text \<open>The steps of a live stream: a step of either thread, a call of \<open>write\<close>, a call of \<open>stop\<close>.\<close>

inductive observable_step :: "stream \<Rightarrow> stream \<Rightarrow> bool" where
  obs_read: "read_thread s = Running \<Longrightarrow> observable_step s (read_loop_test s)"
| obs_read_done: "read_thread s = Transferring \<Longrightarrow> observable_step s (read_loop_transfer ec s)"
| obs_write: "write_thread s = Running \<Longrightarrow> observable_step s (write_loop_test s)"
| obs_write_done: "write_thread s = Transferring \<Longrightarrow> observable_step s (write_loop_transfer ec s)"
| obs_put: "observable_step s (Observable_write put d s)"
| obs_stop: "observable_step s (NetworkStreamBase_stop s)"

inductive_cases observable_stepE: "observable_step s s'"

definition observable_start :: "stream \<Rightarrow> bool" where
  "observable_start s \<longleftrightarrow> (\<exists>resolve_ec connect_ec. s = Observable_ctor resolve_ec connect_ec)"

abbreviation observable_reachable :: "stream \<Rightarrow> bool" where
  "observable_reachable \<equiv> reachable observable_start observable_step"

section \<open>FFmpegNetworkStream\<close>

definition Reader_ctor :: "bool \<Rightarrow> bool \<Rightarrow> stream" where
  "Reader_ctor resolve_ec connect_ec =
     (if resolve_ec then NetworkStreamBase
      else if connect_ec then NetworkStreamBase
      else NetworkStreamBase\<lparr>is_connected := True\<rparr>)"

definition Reader_start :: "stream \<Rightarrow> stream" where
  "Reader_start s =
     s\<lparr>is_running := True, is_reading := True, is_writing := True, read_thread := Running, write_thread := Running\<rparr>"

text \<open>The loops of the reader make no transfer, so a join of its threads never waits for one.\<close>

definition Reader_stop :: "stream \<Rightarrow> (stream_error, stream) outcome" where
  "Reader_stop s =
     obind (join_read None (s\<lparr>is_running := False, is_reading := False, is_writing := False\<rparr>)) (join_write None)"

definition Reader_dtor :: "stream \<Rightarrow> (stream_error, stream) outcome" where
  "Reader_dtor s = threads_dtor (if is_connected s then s\<lparr>socket_closed := True\<rparr> else s)"

text \<open>
  With the transfer code disabled, a round of either loop of the reader tests the flags and then
  leaves the loop, sleeps for 100 milliseconds, or goes on at once.
\<close>

datatype round = Leave | Sleep | Spin

definition Reader_read_round :: "stream \<Rightarrow> round" where
  "Reader_read_round s =
     (if \<not> is_running s then Leave
      else if \<not> is_connected s then Sleep
      else if \<not> is_reading s then Sleep
      else Spin)"

definition Reader_write_round :: "stream \<Rightarrow> round" where
  "Reader_write_round s =
     (if \<not> is_running s then Leave
      else if \<not> is_connected s then Sleep
      else if \<not> is_writing s then Sleep
      else Spin)"

definition Writer_ctor :: "bool \<Rightarrow> bool \<Rightarrow> stream" where
  "Writer_ctor resolve_ec connect_ec =
     (if resolve_ec then NetworkStreamBase
      else if connect_ec then NetworkStreamBase
      else NetworkStreamBase\<lparr>is_connected := True\<rparr>)"

definition Writer_start :: "stream \<Rightarrow> stream" where
  "Writer_start s = s"

definition Writer_dtor :: "stream \<Rightarrow> (stream_error, stream) outcome" where
  "Writer_dtor s = threads_dtor (if is_connected s then s\<lparr>socket_closed := True\<rparr> else s)"

text \<open>The four arguments are the errors of resolving and connecting the reader and the writer.\<close>

definition FFmpegNetworkStream_ctor :: "bool \<Rightarrow> bool \<Rightarrow> bool \<Rightarrow> bool \<Rightarrow> stream \<times> stream" where
  "FFmpegNetworkStream_ctor r1 c1 r2 c2 = (Reader_start (Reader_ctor r1 c1), Writer_start (Writer_ctor r2 c2))"

definition FFmpegNetworkStream_dtor :: "stream \<times> stream \<Rightarrow> (stream_error, stream \<times> stream) outcome" where
  "FFmpegNetworkStream_dtor rw =
     obind (Reader_stop (fst rw)) (\<lambda>reader.
     let writer = NetworkStreamBase_stop (snd rw)
     in obind (Writer_dtor writer) (\<lambda>writer'.
        obind (Reader_dtor reader) (\<lambda>reader'. Ret (reader', writer'))))"

definition network_main :: "bool \<Rightarrow> bool \<Rightarrow> bool \<Rightarrow> bool \<Rightarrow> (stream_error, stream \<times> stream) outcome" where
  "network_main r1 c1 r2 c2 = FFmpegNetworkStream_dtor (FFmpegNetworkStream_ctor r1 c1 r2 c2)"

section \<open>X264FrameDecoder\<close>

text \<open>
  The decoder keeps a pointer to the stream's picture parameters, null until \<open>open\<close> sets it.  The
  results of the library calls of \<open>open\<close> and \<open>read\<close> are the fields of two records.
\<close>

record picture =
  pic_width :: int
  pic_height :: int
  pic_format :: int
  time_base :: "int \<times> int"

record open_results =
  r_open_input :: int
  r_find_stream_info :: int
  r_best_stream :: int
  r_find_decoder :: bool
  r_open2 :: int
  r_frame_alloc :: "picture option"
  r_best_stream_again :: int
  r_codec :: "picture option"

text \<open>The packet, of which only the stream index is read, is null and no operation sets it.\<close>

record decoder =
  av_packet :: "int option"
  av_codec_context_stream_index :: int
  av_frame_stream :: "picture option"
  av_frame_stream_index :: int

definition decoder_init :: decoder where
  "decoder_init =
     \<lparr>av_packet = None, av_codec_context_stream_index = 0, av_frame_stream = None, av_frame_stream_index = 0\<rparr>"

text \<open>\<open>init_packet\<close> is \<open>av_init_packet\<close>, which the constructor calls on the null packet.\<close>

definition X264FrameDecoder :: "(int option \<Rightarrow> (ub, unit) outcome) \<Rightarrow> (ub, decoder) outcome" where
  "X264FrameDecoder init_packet = obind (init_packet (av_packet decoder_init)) (\<lambda>_. Ret decoder_init)"

definition decoder_open :: "open_results \<Rightarrow> decoder \<Rightarrow> string option \<times> decoder" where
  "decoder_open L d =
     (if r_open_input L \<noteq> 0 then (Some ''Error: avformat_open_input'', d)
      else if r_find_stream_info L < 0 then (Some ''Error: avformat_find_stream_info'', d)
      else let d1 = d\<lparr>av_codec_context_stream_index := r_best_stream L\<rparr>
        in if r_best_stream L < 0 then (Some ''Error: av_find_best_stream'', d1)
      else if \<not> r_find_decoder L then (Some ''Error: avcodec_find_decoder'', d1)
      else if r_open2 L < 0 then (Some ''Error: avcodec_open2'', d1)
      else let d2 = d1\<lparr>av_frame_stream := r_frame_alloc L, av_frame_stream_index := r_best_stream_again L\<rparr>
        in if r_best_stream_again L < 0 then (Some ''Error: av_find_best_stream'', d2)
      else (None, d2\<lparr>av_frame_stream := r_codec L\<rparr>))"

text \<open>Pixel format \<open>AV_PIX_FMT_YUV420P\<close> is 0 in the library's enumeration.\<close>

definition YUV420P :: int where "YUV420P = 0"

record read_results =
  r_read_frame :: int
  r_send_packet :: int
  r_receive_frame :: int
  r_decoded :: picture
  r_planes :: "(8 word list \<times> nat) \<times> (8 word list \<times> nat) \<times> (8 word list \<times> nat)"

text \<open>One pixel takes the byte at the same row and column from each of the three planes.\<close>

definition plane_at :: "8 word list \<times> nat \<Rightarrow> nat \<Rightarrow> nat \<Rightarrow> (ub, 8 word) outcome" where
  "plane_at pl i j = arr_get (fst pl) (int (i * snd pl + j))"

definition copy_pixel ::
  "(8 word list \<times> nat) \<times> (8 word list \<times> nat) \<times> (8 word list \<times> nat) \<Rightarrow> nat \<Rightarrow> nat \<Rightarrow> (ub, 8 word \<times> 8 word \<times> 8 word) outcome" where
  "copy_pixel ps i j =
     obind (plane_at (fst ps) i j) (\<lambda>a.
     obind (plane_at (fst (snd ps)) i j) (\<lambda>b.
     obind (plane_at (snd (snd ps)) i j) (\<lambda>c. Ret (a, b, c))))"

fun copy_pixels ::
  "(8 word list \<times> nat) \<times> (8 word list \<times> nat) \<times> (8 word list \<times> nat) \<Rightarrow> (nat \<times> nat) list \<Rightarrow>
   (ub, (8 word \<times> 8 word \<times> 8 word) list) outcome" where
  "copy_pixels ps [] = Ret []"
| "copy_pixels ps ((i, j) # ijs) = obind (copy_pixel ps i j) (\<lambda>p. omap (Cons p) (copy_pixels ps ijs))"

text \<open>
  \<open>read\<close> returns the message of the error it met, or the rows, the columns and the pixels of the
  frame.  A picture that is decoded replaces the one the decoder points to.  The format is tested
  six times after decoding, with nothing in between that could change it.
\<close>

definition decoder_read ::
  "read_results \<Rightarrow> decoder \<Rightarrow> (ub, (string + int \<times> int \<times> (8 word \<times> 8 word \<times> 8 word) list) \<times> decoder) outcome" where
  "decoder_read L d =
     (case av_frame_stream d of
        None \<Rightarrow> Ret (Inl ''Error: av_frame_stream_ is NULL'', d)
      | Some p \<Rightarrow>
          if pic_width p = 0 \<or> pic_height p = 0
          then Ret (Inl ''Error: av_frame_stream_->width or av_frame_stream_->height is 0'', d)
          else if pic_format p \<noteq> YUV420P
          then Ret (Inl ''Error: av_frame_stream_->format is not AV_PIX_FMT_YUV420P'', d)
          else if r_read_frame L < 0 then Ret (Inl ''Error: av_read_frame'', d)
          else
          (case av_packet d of
             None \<Rightarrow> Throw Null_dereference
           | Some index \<Rightarrow>
               if index \<noteq> av_frame_stream_index d
               then Ret (Inl ''Error: av_packet_->stream_index != av_frame_stream_index_'', d)
               else if r_send_packet L < 0 then Ret (Inl ''Error: avcodec_send_packet'', d)
               else if r_receive_frame L < 0 then Ret (Inl ''Error: avcodec_receive_frame'', d)
               else let q = r_decoded L; d' = d\<lparr>av_frame_stream := Some q\<rparr>
                 in if pic_format q \<noteq> YUV420P
                    then Ret (Inl ''Error: av_frame_stream_->format is not AV_PIX_FMT_YUV420P'', d')
                    else omap (\<lambda>px. (Inr (pic_height q, pic_width q, px), d'))
                      (copy_pixels (r_planes L)
                        (concat (map (\<lambda>i. map (Pair i) [0..<nat (pic_width q)]) [0..<nat (pic_height q)])))))"

definition with_picture :: "(picture \<Rightarrow> picture) \<Rightarrow> decoder \<Rightarrow> (ub, decoder) outcome" where
  "with_picture f d =
     (case av_frame_stream d of
        None \<Rightarrow> Throw Null_dereference
      | Some p \<Rightarrow> Ret (d\<lparr>av_frame_stream := Some (f p)\<rparr>))"

definition set_frame_size :: "int \<Rightarrow> int \<Rightarrow> decoder \<Rightarrow> (ub, decoder) outcome" where
  "set_frame_size w h = with_picture (\<lambda>p. p\<lparr>pic_width := w, pic_height := h\<rparr>)"

definition set_frame_rate_num_den :: "int \<Rightarrow> int \<Rightarrow> decoder \<Rightarrow> (ub, decoder) outcome" where
  "set_frame_rate_num_den num den = with_picture (\<lambda>p. p\<lparr>time_base := (num, den)\<rparr>)"

definition set_frame_rate :: "int \<Rightarrow> decoder \<Rightarrow> (ub, decoder) outcome" where
  "set_frame_rate fps = with_picture (\<lambda>p. p\<lparr>time_base := (1, fps)\<rparr>)"

text \<open>The test sets the size and the rate before it opens the stream; it would then read for ever.\<close>

text \<open>The overloads for \<open>double\<close> scale by 100 and convert to \<open>int\<close>, towards zero.\<close>

definition to_int :: "real \<Rightarrow> (ub, int) outcome" where
  "to_int x = int32 (if 0 \<le> x then \<lfloor>x\<rfloor> else \<lceil>x\<rceil>)"

definition set_frame_rate_double :: "real \<Rightarrow> decoder \<Rightarrow> (ub, decoder) outcome" where
  "set_frame_rate_double fps d =
     obind (to_int (fps * 100)) (\<lambda>den. with_picture (\<lambda>p. p\<lparr>time_base := (1, den)\<rparr>) d)"

definition set_frame_rate_double_num_den :: "real \<Rightarrow> real \<Rightarrow> decoder \<Rightarrow> (ub, decoder) outcome" where
  "set_frame_rate_double_num_den num den d =
     obind (to_int (num * 100)) (\<lambda>n. obind (to_int (den * 100)) (\<lambda>m.
       with_picture (\<lambda>p. p\<lparr>time_base := (n, m)\<rparr>) d))"

definition test_x264_setup ::
  "(int option \<Rightarrow> (ub, unit) outcome) \<Rightarrow> open_results \<Rightarrow> (ub, string option \<times> decoder) outcome" where
  "test_x264_setup init_packet L =
     obind (X264FrameDecoder init_packet) (\<lambda>d0.
     obind (set_frame_size 640 480 d0) (\<lambda>d1.
     obind (set_frame_rate 30 d1) (\<lambda>d2. Ret (decoder_open L d2))))"

section \<open>Properties of the streams\<close>

text \<open>What every step of a constructed stream keeps: flags and threads agree.\<close>

definition stream_inv :: "stream \<Rightarrow> bool" where
  "stream_inv s \<longleftrightarrow>
     (is_connected s \<longrightarrow> \<not> is_disconnected s)
     \<and> (is_running s \<longrightarrow> read_thread s \<noteq> NoThread \<and> write_thread s \<noteq> NoThread)
     \<and> (is_disconnected s \<longrightarrow> read_thread s = Finished \<or> write_thread s = Finished)
     \<and> (read_thread s = NoThread \<longleftrightarrow> write_thread s = NoThread)
     \<and> (read_thread s = NoThread \<longrightarrow> \<not> is_connected s)"

lemmas loop_defs = read_loop_test_def read_loop_transfer_def write_loop_test_def write_loop_transfer_def

lemmas join_defs = join_read_def join_write_def threads_dtor_def thread_dtor_def

lemma observable_startE:
  "observable_start s \<Longrightarrow> (\<And>r c. s = Observable_ctor r c \<Longrightarrow> P) \<Longrightarrow> P"
  by (auto simp: observable_start_def)

interpretation obs: step_invariant observable_start observable_step stream_inv
proof unfold_locales
  show "stream_inv s" if "observable_start s" for s
    using that by (elim observable_startE) (simp add: stream_inv_def Observable_ctor_def NetworkStreamBase_def)
  show "stream_inv s'" if "stream_inv s" "observable_step s s'" for s s'
    using that(2,1) by (cases rule: observable_step.cases)
      (auto simp: stream_inv_def loop_defs Observable_write_def NetworkStreamBase_stop_def)
qed

lemma obs_init: "observable_reachable (Observable_ctor resolve_ec connect_ec)"
  by (rule reachable_start) (auto simp: observable_start_def)

text \<open>
  in every reachable state of a video stream the flags agree with its threads: it is never marked both
  connected and disconnected, a running stream has both worker threads, and it is marked disconnected only
  after a worker has stopped on an error.
\<close>

theorem stream_flags_consistent:
  assumes "observable_reachable s"
  shows "stream_inv s"
  by (rule obs.reachable_inv [OF assms])

theorem stream_flags_consistent_witness:
  "stream_inv (read_loop_transfer True (read_loop_test (Observable_ctor False False)))"
proof -
  have "observable_reachable (read_loop_test (Observable_ctor False False))"
    by (rule reachable_step [OF obs_init [of False False]], rule obs_read) (simp add: Observable_ctor_def NetworkStreamBase_def)
  then have "observable_reachable (read_loop_transfer True (read_loop_test (Observable_ctor False False)))"
    by (elim reachable_step, intro obs_read_done) (simp add: read_loop_test_def Observable_ctor_def NetworkStreamBase_def)
  from stream_flags_consistent [OF this] show ?thesis .
qed

text \<open>
  destroying a video stream in a reachable state ends in one of three ways.  A stream whose connection
  failed has no threads to join, and its destructor ends the program.  Otherwise it joins both threads if
  every pending transfer returns, and waits for ever if the pending read never returns: the destructor does
  not cancel it.
\<close>

theorem observable_dtor_outcome:
  assumes "observable_reachable s"
  shows "(read_thread s = NoThread \<longrightarrow> Observable_dtor rp wp s = Throw Terminate)
    \<and> (read_thread s \<noteq> NoThread \<and> rp \<noteq> None \<and> wp \<noteq> None \<longrightarrow>
        (\<exists>s'. Observable_dtor rp wp s = Ret s' \<and> read_thread s' = NoThread \<and> write_thread s' = NoThread))
    \<and> (read_thread s = Transferring \<longrightarrow> Observable_dtor None wp s = Diverge)"
  using obs.reachable_inv [OF assms]
  by (cases "read_thread s"; cases "write_thread s")
    (auto simp: Observable_dtor_def join_defs loop_defs stream_inv_def)

theorem observable_dtor_outcome_witness:
  "Observable_dtor None None (Observable_ctor True False) = Throw Terminate
   \<and> Observable_dtor None None (read_loop_test (Observable_ctor False False)) = Diverge"
proof
  show "Observable_dtor None None (Observable_ctor True False) = Throw Terminate"
    using observable_dtor_outcome [OF obs_init [of True False]] by (simp add: Observable_ctor_def NetworkStreamBase_def)
  have "observable_reachable (read_loop_test (Observable_ctor False False))"
    by (rule reachable_step [OF obs_init [of False False]], rule obs_read) (simp add: Observable_ctor_def NetworkStreamBase_def)
  from observable_dtor_outcome [OF this]
  show "Observable_dtor None None (read_loop_test (Observable_ctor False False)) = Diverge"
    by (simp add: read_loop_test_def Observable_ctor_def NetworkStreamBase_def)
qed

text \<open>
  the stream that \<open>main\<close> builds is destroyed cleanly whatever name resolution and connection do:
  all threads are joined, and the socket of each connected side is closed.
\<close>

theorem network_main_clean:
  "\<exists>reader writer. network_main r1 c1 r2 c2 = Ret (reader, writer)
     \<and> read_thread reader = NoThread \<and> write_thread reader = NoThread \<and> \<not> is_running reader
     \<and> socket_closed reader = (\<not> r1 \<and> \<not> c1) \<and> socket_closed writer = (\<not> r2 \<and> \<not> c2)"
  by (auto simp: network_main_def FFmpegNetworkStream_dtor_def FFmpegNetworkStream_ctor_def Reader_stop_def Reader_start_def
      Reader_ctor_def Writer_start_def Writer_ctor_def NetworkStreamBase_stop_def NetworkStreamBase_def join_defs
      loop_defs Writer_dtor_def Reader_dtor_def Let_def)

text \<open>
  once \<open>is_running\<close> is false the next test of either loop ends its thread; while it is true a
  reader that is connected never sleeps, although nothing is transferred, and one that is not connected
  sleeps in every round.
\<close>

theorem loops_stop:
  "(\<not> is_running s \<longrightarrow> read_thread (read_loop_test s) = Finished \<and> write_thread (write_loop_test s) = Finished
      \<and> Reader_read_round s = Leave \<and> Reader_write_round s = Leave)
   \<and> Reader_read_round (Reader_start (Reader_ctor r c)) = (if r \<or> c then Sleep else Spin)
   \<and> Reader_write_round (Reader_start (Reader_ctor r c)) = (if r \<or> c then Sleep else Spin)"
  by (simp add: loop_defs Reader_read_round_def Reader_write_round_def Reader_start_def Reader_ctor_def NetworkStreamBase_def)

theorem loops_stop_witness:
  "read_thread (read_loop_test (NetworkStreamBase_stop (Observable_ctor False False))) = Finished"
  using loops_stop [of "NetworkStreamBase_stop (Observable_ctor False False)"]
  by (simp add: NetworkStreamBase_stop_def)

section \<open>Properties of the decoder\<close>

lemma copy_pixels_fails:
  "(i, j) \<in> set ijs \<Longrightarrow> copy_pixel ps i j = Throw Out_of_bounds \<Longrightarrow> copy_pixels ps ijs = Throw Out_of_bounds"
proof (induction ijs)
  case (Cons ij ijs)
  obtain k l where ij: "ij = (k, l)" by (cases ij)
  have pl: "plane_at pl a b \<noteq> Diverge \<and> (\<forall>e. plane_at pl a b = Throw e \<longrightarrow> e = Out_of_bounds)" for pl a b
    by (simp add: plane_at_def arr_get_def)
  have "copy_pixel ps k l \<noteq> Diverge \<and> (\<forall>e. copy_pixel ps k l = Throw e \<longrightarrow> e = Out_of_bounds)"
    using pl [of "fst ps" k l] pl [of "fst (snd ps)" k l] pl [of "snd (snd ps)" k l]
    by (auto simp: copy_pixel_def outcome_iff)
  with Cons ij show ?case by (cases "copy_pixel ps k l") auto
qed simp

text \<open>
  the decoder never delivers a frame.  Its packet is null from the constructor on and no operation sets
  it, so \<open>read\<close> either reports an error or dereferences a null pointer; and the test of the decoder
  dereferences one before it opens the stream, because it sets the frame size first.
\<close>

theorem decoder_never_delivers:
  "(\<forall>init_packet L. \<exists>e. test_x264_setup init_packet L = Diverge \<or> test_x264_setup init_packet L = Throw e)
   \<and> av_packet (snd (decoder_open L decoder_init)) = None
   \<and> (av_packet d = None \<longrightarrow>
        decoder_read R d = Throw Null_dereference \<or> (\<exists>msg. decoder_read R d = Ret (Inl msg, d)))"
proof (intro conjI allI impI)
  fix init_packet L
  show "\<exists>e. test_x264_setup init_packet L = Diverge \<or> test_x264_setup init_packet L = Throw e"
    by (cases "init_packet None")
      (auto simp: test_x264_setup_def X264FrameDecoder_def decoder_init_def set_frame_size_def with_picture_def)
  show "av_packet (snd (decoder_open L decoder_init)) = None" for L
    by (auto simp: decoder_open_def decoder_init_def Let_def)
  show "av_packet d = None \<Longrightarrow>
      decoder_read R d = Throw Null_dereference \<or> (\<exists>msg. decoder_read R d = Ret (Inl msg, d))"
    by (auto simp: decoder_read_def split: option.splits)
qed

theorem decoder_never_delivers_witness:
  "\<exists>d R. av_packet d = None \<and> av_frame_stream d \<noteq> None \<and> decoder_read R d = Throw Null_dereference"
proof -
  define p where "p = \<lparr>pic_width = 2, pic_height = 2, pic_format = YUV420P, time_base = (1, 30)\<rparr>"
  define d where "d = decoder_init\<lparr>av_frame_stream := Some p\<rparr>"
  define R where "R = \<lparr>r_read_frame = 0, r_send_packet = 0, r_receive_frame = 0, r_decoded = p,
    r_planes = (([], 0), ([], 0), ([], 0))\<rparr>"
  have "av_packet d = None" by (simp add: d_def decoder_init_def)
  moreover from this have "decoder_read R d = Throw Null_dereference"
    using decoder_never_delivers [of undefined d R] by (auto simp: decoder_read_def d_def R_def p_def)
  moreover have "av_frame_stream d \<noteq> None" by (simp add: d_def)
  ultimately show ?thesis by blast
qed

text \<open>
  the pixel copy reads the chroma planes as if they had full resolution: on a decoded 4:2:0 picture of
  \<open>2 w\<close> by \<open>2 h\<close> pixels with tightly packed planes it reads outside them.
\<close>

theorem decoder_chroma_overrun:
  assumes "0 < w" "0 < h" "length ys = 4 * w * h" "length us = w * h" "length vs = w * h"
  shows "copy_pixels ((ys, 2 * w), (us, w), (vs, w))
    (concat (map (\<lambda>i. map (Pair i) [0..<2 * w]) [0..<2 * h])) = Throw Out_of_bounds"
proof (rule copy_pixels_fails [of "2 * h - 1" "2 * w - 1"])
  show "(2 * h - 1, 2 * w - 1) \<in> set (concat (map (\<lambda>i. map (Pair i) [0..<2 * w]) [0..<2 * h]))"
    using assms(1,2) by (auto intro!: bexI [of _ "2 * h - 1"] image_eqI [of _ _ "2 * w - 1"])
  have "(2 * h - 1) * (2 * w) + (2 * w - 1) < 4 * w * h"
  proof -
    obtain k where "h = Suc k" using assms(2) by (cases h) auto
    then show ?thesis using assms(1) by (simp add: algebra_simps)
  qed
  moreover have "w * h \<le> (2 * h - 1) * w + (2 * w - 1)"
  proof -
    obtain k where "h = Suc k" using assms(2) by (cases h) auto
    then show ?thesis using assms(1) by (simp add: algebra_simps)
  qed
  ultimately show "copy_pixel ((ys, 2 * w), (us, w), (vs, w)) (2 * h - 1) (2 * w - 1) = Throw Out_of_bounds"
    using assms(3,4) unfolding copy_pixel_def plane_at_def arr_get_def
    by (simp only: fst_conv snd_conv of_nat_less_iff if_True obind.simps of_nat_0_le_iff) simp
qed

theorem decoder_chroma_overrun_witness:
  "copy_pixels ((replicate 4 0, 2), ([0], 1), ([0], 1)) (concat (map (\<lambda>i. map (Pair i) [0..<2]) [0..<2])) = Throw Out_of_bounds"
  using decoder_chroma_overrun [of 1 1 "replicate 4 0" "[0]" "[0]"] by (simp del: upt_Suc)

text \<open>
  the same frame rate gives two different time bases: passed as an integer it is one over the rate, passed
  as a floating-point number one over a hundred times the rate.
\<close>

theorem frame_rate_overloads:
  assumes "av_frame_stream d = Some p" "0 < fps" "100 * fps \<le> INT_MAX"
  shows "set_frame_rate fps d = Ret (d\<lparr>av_frame_stream := Some (p\<lparr>time_base := (1, fps)\<rparr>)\<rparr>)
    \<and> set_frame_rate_double (real_of_int fps) d = Ret (d\<lparr>av_frame_stream := Some (p\<lparr>time_base := (1, 100 * fps)\<rparr>)\<rparr>)"
proof -
  have "real_of_int fps * 100 = real_of_int (100 * fps)" by simp
  then have "to_int (real_of_int fps * 100) = Ret (100 * fps)"
    using assms(2,3) by (simp only: to_int_def floor_of_int ceiling_of_int) (simp add: int32_def INT_MIN_def)
  with assms(1) show ?thesis by (simp add: set_frame_rate_def set_frame_rate_double_def with_picture_def)
qed

theorem frame_rate_overloads_witness:
  "\<exists>d p. av_frame_stream d = Some p \<and> set_frame_rate_double (real_of_int 30) d
     = Ret (d\<lparr>av_frame_stream := Some (p\<lparr>time_base := (1, 3000)\<rparr>)\<rparr>)"
proof -
  define p where "p = \<lparr>pic_width = 2, pic_height = 2, pic_format = YUV420P, time_base = (1, 1)\<rparr>"
  define d where "d = decoder_init\<lparr>av_frame_stream := Some p\<rparr>"
  have "av_frame_stream d = Some p" by (simp add: d_def)
  with frame_rate_overloads [of d p 30] show ?thesis by (auto simp: INT_MAX_def)
qed

end
