(* ===== verification/Gl_Resources.thy ===== *)
theory Gl_Resources
  imports Cxx_Lib Machine "HOL-Library.Multiset"
begin

text \<open>
  \<open>cjunk/practice/egl/egl_test.cpp\<close>: the owners of EGL objects and the drawing code.  The graphics
  library is not part of the repository: what its calls return is an argument, and a definition gives
  the list of calls the code makes.  \<open>live\<close> reads from such a list which objects are still owned.
\<close>

section \<open>Calls and objects\<close>

datatype gl_obj = Program nat | Shader nat | VertexArray nat | Buffer nat | Surf nat | Ctx nat | Disp nat | Heap

datatype gl_call =
    Create gl_obj
  | Delete gl_obj
  | ShaderSource nat string
  | CompileShader nat
  | AttachShader nat nat
  | LinkProgram nat
  | Printf string
  | UseProgram nat
  | BindVertexArray nat
  | BindBuffer nat
  | BufferData string
  | VertexAttribPointer
  | EnableVertexAttribArray nat
  | DrawArrays nat nat
  | MakeCurrent nat nat nat
  | ClearColor
  | Clear
  | SwapBuffers nat nat

fun live :: "gl_call list \<Rightarrow> gl_obj list \<Rightarrow> gl_obj list" where
  "live [] os = os"
| "live (Create x # cs) os = live cs (x # os)"
| "live (Delete x # cs) os = live cs (remove1 x os)"
| "live (_ # cs) os = live cs os"

lemma live_append [simp]: "live (a @ b) os = live b (live a os)"
  by (induction a os rule: live.induct) auto

text \<open>
  A constructor returns its handle or throws, and a null pointer may be dereferenced; the calls made
  before are kept in every case.
\<close>

datatype gl_stop = Raises std_exception | Undefined ub

type_synonym 'a gl = "gl_call list \<times> (gl_stop, 'a) outcome"

definition gbind :: "'a gl \<Rightarrow> ('a \<Rightarrow> 'b gl) \<Rightarrow> 'b gl" where
  "gbind m f =
     (case snd m of
        Ret x \<Rightarrow> (fst m @ fst (f x), snd (f x))
      | Throw e \<Rightarrow> (fst m, Throw e)
      | Diverge \<Rightarrow> (fst m, Diverge))"

lemma gbind_simps [simp]:
  "gbind (cs, Ret x) f = (cs @ fst (f x), snd (f x))"
  "gbind (cs, Throw e) f = (cs, Throw e)"
  by (simp_all add: gbind_def)

section \<open>Owners\<close>

text \<open>
  Handles are numbers and 0 is the null handle.  \<open>NativeWindow\<close> keeps a window it does not destroy.
\<close>

definition NativeWindow_get :: "nat \<Rightarrow> nat" where "NativeWindow_get m_window = m_window"

definition NativeWindow_dtor :: "nat \<Rightarrow> gl_call list" where "NativeWindow_dtor m_window = []"

text \<open>\<open>get_display\<close> is what \<open>eglGetDisplay\<close> returns, \<open>init\<close> the result of \<open>eglInitialize\<close>.\<close>

definition MyDisplay_ctor :: "nat \<Rightarrow> bool \<Rightarrow> nat gl" where
  "MyDisplay_ctor get_display init =
     (if get_display = 0 then ([], Throw (Raises (runtime_error ''eglGetDisplay failed'')))
      else if \<not> init then ([], Throw (Raises (runtime_error ''eglInitialize failed'')))
      else ([Create (Disp get_display)], Ret get_display))"

definition MyDisplay_dtor :: "nat \<Rightarrow> gl_call list" where
  "MyDisplay_dtor m_display = (if m_display \<noteq> 0 then [Delete (Disp m_display)] else [])"

text \<open>
  \<open>Config\<close>, \<open>Surface\<close> and \<open>Context\<close> pass their own members \<open>m_display\<close> and \<open>m_config\<close> to the
  library, and no constructor sets them: those values are arguments here, unrelated to the display and
  the configuration that were opened.  \<open>choose_config\<close> is \<open>eglChooseConfig\<close> with the number of
  configurations and the configuration it stores.
\<close>

definition Config_ctor :: "nat \<Rightarrow> (nat \<Rightarrow> bool \<times> nat \<times> nat) \<Rightarrow> nat gl" where
  "Config_ctor m_display choose_config =
     (let (ok, num_configs, m_config) = choose_config m_display
      in if \<not> ok then ([], Throw (Raises (runtime_error ''eglChooseConfig failed'')))
         else if num_configs = 0 then ([], Throw (Raises (runtime_error ''eglChooseConfig returned no configs'')))
         else ([], Ret m_config))"

definition Config_dtor :: "nat \<Rightarrow> gl_call list" where "Config_dtor m_config = []"

text \<open>\<open>create\<close> is \<open>eglCreateWindowSurface\<close>: no surface, or the one it stores.\<close>

definition Surface_ctor :: "nat \<Rightarrow> nat \<Rightarrow> (nat \<Rightarrow> nat \<Rightarrow> nat \<Rightarrow> nat option) \<Rightarrow> nat \<Rightarrow> nat gl" where
  "Surface_ctor m_display m_config create window =
     (case create m_display m_config window of
        None \<Rightarrow> ([], Throw (Raises (runtime_error ''eglCreateWindowSurface failed'')))
      | Some s \<Rightarrow> ([Create (Surf s)], Ret s))"

definition Surface_dtor :: "nat \<Rightarrow> gl_call list" where
  "Surface_dtor m_surface = (if m_surface \<noteq> 0 then [Delete (Surf m_surface)] else [])"

text \<open>The context that \<open>eglCreateContext\<close> returns is compared and dropped: \<open>m_context\<close> stays null.\<close>

definition Context_ctor :: "nat \<Rightarrow> nat \<Rightarrow> (nat \<Rightarrow> nat \<Rightarrow> nat) \<Rightarrow> nat gl" where
  "Context_ctor m_display m_config create =
     (let c = create m_display m_config
      in if c = 0 then ([], Throw (Raises (runtime_error ''eglCreateContext failed'')))
         else ([Create (Ctx c)], Ret 0))"

definition Context_dtor :: "nat \<Rightarrow> gl_call list" where
  "Context_dtor m_context = (if m_context \<noteq> 0 then [Delete (Ctx m_context)] else [])"

section \<open>class EGL\<close>

text \<open>Its two owning pointers; the constructor sets the first, and no member ever sets the second.\<close>

record egl =
  egl_display :: "nat option"
  egl_config :: "nat option"

definition EGL_ctor :: "nat \<Rightarrow> bool \<Rightarrow> egl gl" where
  "EGL_ctor get_display init =
     gbind (MyDisplay_ctor get_display init) (\<lambda>d. ([], Ret \<lparr>egl_display = Some d, egl_config = None\<rparr>))"

definition MyDisplay_get :: "nat option \<Rightarrow> nat gl" where
  "MyDisplay_get p = (case p of None \<Rightarrow> ([], Throw (Undefined Null_dereference)) | Some m_display \<Rightarrow> ([], Ret m_display))"

definition Config_get :: "nat option \<Rightarrow> nat gl" where
  "Config_get p = (case p of None \<Rightarrow> ([], Throw (Undefined Null_dereference)) | Some m_config \<Rightarrow> ([], Ret m_config))"

definition get_config :: "egl \<Rightarrow> nat gl" where
  "get_config e = Config_get (egl_config e)"

definition create_surface :: "nat \<Rightarrow> nat \<Rightarrow> (nat \<Rightarrow> nat \<Rightarrow> nat \<Rightarrow> nat option) \<Rightarrow> nat \<Rightarrow> nat gl" where
  "create_surface m_display m_config create window =
     gbind (Surface_ctor m_display m_config create window) (\<lambda>surface. (Surface_dtor surface, Ret surface))"

definition create_context :: "nat \<Rightarrow> nat \<Rightarrow> (nat \<Rightarrow> nat \<Rightarrow> nat) \<Rightarrow> nat gl" where
  "create_context m_display m_config create =
     gbind (Context_ctor m_display m_config create) (\<lambda>context. (Context_dtor context, Ret context))"

text \<open>\<open>display\<close> is the display of the \<open>EGL\<close> object, \<open>current\<close> the result of \<open>eglMakeCurrent\<close>.\<close>

definition create_current_surface ::
  "nat \<Rightarrow> bool \<Rightarrow> nat \<Rightarrow> nat \<Rightarrow> (nat \<Rightarrow> nat \<Rightarrow> nat \<Rightarrow> nat option) \<Rightarrow> nat \<Rightarrow> nat \<Rightarrow> nat gl" where
  "create_current_surface display current m_display m_config create window context =
     gbind (Surface_ctor m_display m_config create window) (\<lambda>surface.
       if \<not> current
       then (MakeCurrent display surface context # Surface_dtor surface, Throw (Raises (runtime_error ''eglMakeCurrent failed'')))
       else (MakeCurrent display surface context # Surface_dtor surface, Ret surface))"

section \<open>Drawing\<close>

definition draw_vertices :: "string \<Rightarrow> nat \<Rightarrow> nat \<Rightarrow> nat \<Rightarrow> nat \<Rightarrow> gl_call list" where
  "draw_vertices data n program vao vbo =
     [UseProgram program,
      Create (VertexArray vao), BindVertexArray vao,
      Create (Buffer vbo), BindBuffer vbo, BufferData data,
      VertexAttribPointer, EnableVertexAttribArray 0,
      DrawArrays 0 n,
      Delete (Buffer vbo), Delete (VertexArray vao)]"

definition triangle :: "nat \<Rightarrow> nat \<Rightarrow> nat \<Rightarrow> gl_call list" where
  "triangle = draw_vertices ''vertices'' 3"

definition square :: "nat \<Rightarrow> nat \<Rightarrow> nat \<Rightarrow> gl_call list" where
  "square = draw_vertices ''square_vertices'' 4"

text \<open>
  What the library answers to \<open>test_egl\<close>: the names it hands out, whether compiling and linking
  succeed, the length of an information log, whether \<open>malloc\<close> succeeds and the text of the log.
\<close>

record gl_answers =
  g_program :: nat
  g_vs :: nat
  g_fs :: nat
  g_vao :: nat
  g_vbo :: nat
  vs_compiled :: bool
  fs_compiled :: bool
  linked :: bool
  infoLen :: nat
  malloc_ok :: bool
  info_log :: string

definition print_log :: "gl_answers \<Rightarrow> gl_call list" where
  "print_log A =
     (if infoLen A \<noteq> 0
      then if malloc_ok A then [Create Heap, Printf (info_log A @ [newline]), Delete Heap] else []
      else [])"

definition vs_source :: string where
  "vs_source = ''#version 300 es'' @ [newline] @ ''in vec3 position;'' @ [newline] @ ''void main()'' @ [newline] @ ''{''
     @ [newline] @ [CHR 0x09] @ ''gl_Position = vec4(position, 1.0);'' @ [newline] @ ''}'' @ [newline]"

definition fs_source :: string where
  "fs_source = ''#version 300 es'' @ [newline] @ ''precision mediump float;'' @ [newline] @ ''out vec4 color;'' @ [newline]
     @ ''void main()'' @ [newline] @ ''{'' @ [newline] @ [CHR 0x09] @ ''color = vec4(1.0, 0.0, 0.0, 1.0);'' @ [newline]
     @ ''}'' @ [newline]"

text \<open>
  The first part of \<open>test_egl\<close>, up to the program in use: the calls, and whether it gets there.
\<close>

definition build_program :: "gl_answers \<Rightarrow> gl_call list \<times> bool" where
  "build_program A =
     (let c1 = [Create (Program (g_program A)), Create (Shader (g_vs A)), ShaderSource (g_vs A) vs_source,
                CompileShader (g_vs A)]
      in if \<not> vs_compiled A then (c1 @ print_log A @ [Delete (Shader (g_vs A))], False)
      else let c2 = c1 @ [Create (Shader (g_fs A)), ShaderSource (g_fs A) fs_source, CompileShader (g_fs A)]
      in if \<not> fs_compiled A then (c2 @ print_log A @ [Delete (Shader (g_fs A))], False)
      else let c3 = c2 @ [AttachShader (g_program A) (g_vs A), AttachShader (g_program A) (g_fs A),
                          LinkProgram (g_program A)]
      in if \<not> linked A then (c3 @ print_log A @ [Delete (Program (g_program A))], False)
      else (c3 @ [UseProgram (g_program A)], True))"

text \<open>The whole function; \<open>surface\<close> is the call of \<open>create_surface\<close> it makes.\<close>

definition test_egl :: "gl_answers \<Rightarrow> egl \<Rightarrow> nat gl \<Rightarrow> unit gl" where
  "test_egl A m_egl surface =
     (let (cs, go) = build_program A
      in if \<not> go then (cs, Ret ())
         else gbind (cs, Ret ()) (\<lambda>_.
              gbind (get_config m_egl) (\<lambda>config.
              gbind (MyDisplay_get (egl_display m_egl)) (\<lambda>display.
              gbind surface (\<lambda>s.
                ([ClearColor, Clear] @ triangle (g_program A) (g_vao A) (g_vbo A) @ [SwapBuffers display s], Ret ()))))))"

definition egl_main :: "nat \<Rightarrow> bool \<Rightarrow> gl_answers \<Rightarrow> nat gl \<Rightarrow> unit gl" where
  "egl_main get_display init A surface = gbind (EGL_ctor get_display init) (\<lambda>egl. test_egl A egl surface)"

section \<open>Properties\<close>

text \<open>
  drawing a triangle or a square leaves exactly the objects that were live before: both the vertex
  array and the buffer it creates are deleted.
\<close>

theorem drawing_restores:
  "live (triangle program vao vbo) os = os \<and> live (square program vao vbo) os = os"
  by (simp add: triangle_def square_def draw_vertices_def)

text \<open>
  the surface and context helpers of \<open>EGL\<close> return handles that cannot be used.  A surface has
  been destroyed again when it is returned, and a context is returned as the null handle while the
  context that was created stays live for ever.
\<close>

theorem egl_helpers_dangle:
  "(snd (create_surface d c create w) = Ret s \<and> s \<noteq> 0 \<longrightarrow>
      last (fst (create_surface d c create w)) = Delete (Surf s) \<and> live (fst (create_surface d c create w)) os = os)
   \<and> (snd (create_context d c createc) = Ret x \<longrightarrow>
      x = 0 \<and> live (fst (create_context d c createc)) os = Ctx (createc d c) # os)"
  by (auto simp: create_surface_def create_context_def Surface_ctor_def Surface_dtor_def Context_ctor_def
      Context_dtor_def Let_def split: option.splits if_splits)

theorem egl_helpers_dangle_witness:
  "live (fst (create_surface 1 1 (\<lambda>_ _ _. Some 7) 3)) [] = [] \<and> live (fst (create_context 1 1 (\<lambda>_ _. 9))) [] = [Ctx 9]"
  using egl_helpers_dangle [of 1 1 "\<lambda>_ _ _. Some 7" 3 7 "[]" "\<lambda>_ _. 9" 0]
  by (simp add: create_surface_def create_context_def Surface_ctor_def Surface_dtor_def Context_ctor_def Context_dtor_def)

text \<open>
  what \<open>test_egl\<close> leaves behind.  It never deletes both shaders and the program: a failed vertex
  shader leaks the program, a failed fragment shader also the vertex shader, a failed link both
  shaders, and a successful build all three; the logs it prints are freed on every path.
\<close>

theorem build_program_leaks:
  assumes "g_vs A \<noteq> g_fs A"
  shows "mset (live (fst (build_program A)) os) = mset os +
    (if \<not> vs_compiled A then {#Program (g_program A)#}
     else if \<not> fs_compiled A then {#Program (g_program A), Shader (g_vs A)#}
     else if \<not> linked A then {#Shader (g_vs A), Shader (g_fs A)#}
     else {#Program (g_program A), Shader (g_vs A), Shader (g_fs A)#})"
proof -
  have "live (print_log A) ys = ys" for ys by (simp add: print_log_def)
  with assms show ?thesis by (simp add: build_program_def Let_def)
qed

theorem build_program_leaks_witness:
  "live (fst (build_program \<lparr>g_program = 1, g_vs = 2, g_fs = 3, g_vao = 4, g_vbo = 5, vs_compiled = False,
     fs_compiled = True, linked = True, infoLen = 0, malloc_ok = True, info_log = []\<rparr>)) [] = [Program 1]"
  using build_program_leaks [of "\<lparr>g_program = 1, g_vs = 2, g_fs = 3, g_vao = 4, g_vbo = 5, vs_compiled = False,
     fs_compiled = True, linked = True, infoLen = 0, malloc_ok = True, info_log = []\<rparr>" "[]"]
  by simp

text \<open>
  the program never draws.  Without a display it ends with the exception of the display owner; when the
  shaders do not build it returns early; and otherwise it dereferences the configuration pointer, which is
  null in every \<open>EGL\<close> object, before it has made a surface.
\<close>

theorem egl_main_never_draws:
  "(g = 0 \<or> \<not> i \<longrightarrow> (\<exists>msg. egl_main g i A surface = ([], Throw (Raises (runtime_error msg)))))
   \<and> (g \<noteq> 0 \<and> i \<longrightarrow> snd (egl_main g i A surface)
        = (if snd (build_program A) then Throw (Undefined Null_dereference) else Ret ()))
   \<and> DrawArrays k n \<notin> set (fst (egl_main g i A surface))"
proof -
  have "DrawArrays k n \<notin> set (fst (build_program A))"
    by (simp add: build_program_def print_log_def Let_def)
  then show ?thesis
    by (simp add: egl_main_def EGL_ctor_def MyDisplay_ctor_def test_egl_def get_config_def Config_get_def split_beta Let_def)
qed

theorem egl_main_never_draws_witness:
  "snd (egl_main 5 True \<lparr>g_program = 1, g_vs = 2, g_fs = 3, g_vao = 4, g_vbo = 5, vs_compiled = True,
     fs_compiled = True, linked = True, infoLen = 0, malloc_ok = True, info_log = []\<rparr> ([], Ret 6))
   = Throw (Undefined Null_dereference)"
  using egl_main_never_draws [of 5 True "\<lparr>g_program = 1, g_vs = 2, g_fs = 3, g_vao = 4, g_vbo = 5, vs_compiled = True,
     fs_compiled = True, linked = True, infoLen = 0, malloc_ok = True, info_log = []\<rparr>" "([], Ret 6)"]
  by (simp add: build_program_def)

text \<open>
  a display that was opened is closed once by its owner, and an open that fails leaves nothing to
  close.
\<close>

theorem display_owner:
  "case snd (MyDisplay_ctor g i) of
     Ret d \<Rightarrow> g \<noteq> 0 \<and> i \<and> live (fst (MyDisplay_ctor g i) @ MyDisplay_dtor d) os = os
   | Throw e \<Rightarrow> (g = 0 \<or> \<not> i) \<and> fst (MyDisplay_ctor g i) = []
   | Diverge \<Rightarrow> False"
  by (simp add: MyDisplay_ctor_def MyDisplay_dtor_def)

end
