(* ===== verification/Uart_Fifo.thy ===== *)
theory Uart_Fifo
  imports Machine
begin

unbundle bit_operations_syntax

text \<open>
  \<open>cjunk/practice/uartfifo.c\<close>: the driver of a hardware FIFO and of a UART behind memory-mapped
  registers.  The masks of the status registers are not in the file and are arguments.  What a polled
  register holds at each reading is the device's doing: \<open>polls\<close> are the values of the status register
  seen by successive polls, \<open>din\<close> the values the data register offers, and \<open>dout\<close> collects
  what is written to it.  Waiting beyond the end of \<open>polls\<close> is \<open>Diverge\<close>.
\<close>

section \<open>The status register\<close>

definition fifo_is_ready_to_push :: "8 word \<Rightarrow> 8 word \<Rightarrow> bool" where
  "fifo_is_ready_to_push full_mask status \<longleftrightarrow> status AND full_mask = 0"

definition fifo_is_ready_to_pop :: "8 word \<Rightarrow> 8 word \<Rightarrow> bool" where
  "fifo_is_ready_to_pop empty_mask status \<longleftrightarrow> status AND empty_mask = 0"

definition fifo_is_empty :: "8 word \<Rightarrow> 8 word \<Rightarrow> bool" where
  "fifo_is_empty empty_mask status \<longleftrightarrow> \<not> fifo_is_ready_to_pop empty_mask status"

definition fifo_is_full :: "8 word \<Rightarrow> 8 word \<Rightarrow> bool" where
  "fifo_is_full full_mask status \<longleftrightarrow> \<not> fifo_is_ready_to_push full_mask status"

definition fifo_clear :: "8 word \<Rightarrow> 8 word" where
  "fifo_clear empty_mask = empty_mask"

definition fifo_get_size :: "8 word \<Rightarrow> 8 word \<Rightarrow> 8 word" where
  "fifo_get_size size_mask status = status AND size_mask"

definition fifo_get_max_size :: "8 word \<Rightarrow> 8 word \<Rightarrow> 8 word" where
  "fifo_get_max_size max_mask status = status AND max_mask"

definition fifo_set_max_size :: "8 word \<Rightarrow> 8 word \<Rightarrow> 8 word \<Rightarrow> 8 word" where
  "fifo_set_max_size max_mask sz status = (status AND NOT max_mask) OR (sz AND max_mask)"

definition fifo_set_size :: "8 word \<Rightarrow> 8 word \<Rightarrow> 8 word \<Rightarrow> 8 word" where
  "fifo_set_size size_mask sz status = (status AND NOT size_mask) OR (sz AND size_mask)"

section \<open>Transfers\<close>

record uart =
  polls :: "8 word list"
  din :: "8 word list"
  dout :: "8 word list"

fun wait_until :: "(8 word \<Rightarrow> bool) \<Rightarrow> 8 word list \<Rightarrow> (ub, 8 word list) outcome" where
  "wait_until ready [] = Diverge"
| "wait_until ready (s # ss) = (if ready s then Ret ss else wait_until ready ss)"

definition push_value :: "8 word \<Rightarrow> uart \<Rightarrow> uart" where
  "push_value x u = u\<lparr>dout := dout u @ [x]\<rparr>"

text \<open>An exhausted data register keeps the zero that the last reading wrote back.\<close>

definition pop_value :: "uart \<Rightarrow> 8 word \<times> uart" where
  "pop_value u = (case din u of [] \<Rightarrow> (0, u) | x # xs \<Rightarrow> (x, u\<lparr>din := xs\<rparr>))"

definition fifo_push_value :: "8 word \<Rightarrow> 8 word \<Rightarrow> uart \<Rightarrow> (ub, uart) outcome" where
  "fifo_push_value full_mask x u =
     obind (wait_until (fifo_is_ready_to_push full_mask) (polls u)) (\<lambda>ps. Ret (push_value x (u\<lparr>polls := ps\<rparr>)))"

definition fifo_pop_value :: "8 word \<Rightarrow> uart \<Rightarrow> (ub, 8 word \<times> uart) outcome" where
  "fifo_pop_value empty_mask u =
     obind (wait_until (fifo_is_ready_to_pop empty_mask) (polls u)) (\<lambda>ps. Ret (pop_value (u\<lparr>polls := ps\<rparr>)))"

text \<open>The loops count from \<open>i\<close> up to \<open>n\<close>, both of one byte.\<close>

fun push_loop :: "nat \<Rightarrow> nat \<Rightarrow> 8 word \<Rightarrow> 8 word list \<Rightarrow> uart \<Rightarrow> (ub, uart) outcome" where
  "push_loop i 0 full_mask xs u = Ret u"
| "push_loop i (Suc k) full_mask xs u =
     obind (arr_get xs (int i)) (\<lambda>x. obind (fifo_push_value full_mask x u) (push_loop (Suc i) k full_mask xs))"

definition fifo_push_array :: "8 word \<Rightarrow> 8 word list \<Rightarrow> 8 word \<Rightarrow> uart \<Rightarrow> (ub, uart) outcome" where
  "fifo_push_array full_mask xs n u = push_loop 0 (unat n) full_mask xs u"

text \<open>A string is its characters up to the terminating NUL, as bytes.\<close>

definition fifo_push_string :: "8 word \<Rightarrow> 8 word list \<Rightarrow> uart \<Rightarrow> (ub, uart) outcome" where
  "fifo_push_string full_mask s u = fifo_push_array full_mask (s @ [0]) (of_nat (length s)) u"

fun pop_loop :: "nat \<Rightarrow> 8 word \<Rightarrow> uart \<Rightarrow> (ub, 8 word list \<times> uart) outcome" where
  "pop_loop 0 empty_mask u = Ret ([], u)"
| "pop_loop (Suc k) empty_mask u =
     obind (fifo_pop_value empty_mask u) (\<lambda>(x, u'). omap (\<lambda>(xs, u''). (x # xs, u'')) (pop_loop k empty_mask u'))"

definition fifo_pop_array :: "8 word \<Rightarrow> 8 word \<Rightarrow> uart \<Rightarrow> (ub, 8 word list \<times> uart) outcome" where
  "fifo_pop_array empty_mask n u = pop_loop (unat n) empty_mask u"

definition fifo_pop_string :: "8 word \<Rightarrow> uart \<Rightarrow> (ub, 8 word list \<times> uart) outcome" where
  "fifo_pop_string empty_mask u = obind (fifo_pop_value empty_mask u) (\<lambda>(n, u'). fifo_pop_array empty_mask n u')"

text \<open>The UART: a byte is written first, and then the transmitter is polled.\<close>

definition wait_until_ready_to_send :: "8 word \<Rightarrow> uart \<Rightarrow> (ub, uart) outcome" where
  "wait_until_ready_to_send tx u = omap (\<lambda>ps. u\<lparr>polls := ps\<rparr>) (wait_until (\<lambda>s. s AND tx \<noteq> 0) (polls u))"

definition send_byte :: "8 word \<Rightarrow> 8 word \<Rightarrow> uart \<Rightarrow> (ub, uart) outcome" where
  "send_byte tx x u = wait_until_ready_to_send tx (u\<lparr>dout := dout u @ [x]\<rparr>)"

fun send_loop :: "nat \<Rightarrow> nat \<Rightarrow> 8 word \<Rightarrow> 8 word list \<Rightarrow> uart \<Rightarrow> (ub, uart) outcome" where
  "send_loop i 0 tx xs u = Ret u"
| "send_loop i (Suc k) tx xs u =
     obind (arr_get xs (int i)) (\<lambda>x. obind (send_byte tx x u) (send_loop (Suc i) k tx xs))"

definition send_array :: "8 word \<Rightarrow> 8 word list \<Rightarrow> 8 word \<Rightarrow> uart \<Rightarrow> (ub, uart) outcome" where
  "send_array tx xs n u = send_loop 0 (unat n) tx xs u"

section \<open>Waiting\<close>

text \<open>How many of the polls find the device ready: one is used up by each transfer.\<close>

definition chances :: "(8 word \<Rightarrow> bool) \<Rightarrow> uart \<Rightarrow> nat" where
  "chances ready u = length (filter ready (polls u))"

lemma wait_until_chance:
  "0 < length (filter ready ss) \<Longrightarrow>
     \<exists>ps. wait_until ready ss = Ret ps \<and> length (filter ready ps) = length (filter ready ss) - 1"
  by (induction ready ss rule: wait_until.induct) auto

lemma wait_until_none: "filter ready ss = [] \<Longrightarrow> wait_until ready ss = Diverge"
  by (induction ready ss rule: wait_until.induct) (auto split: if_splits)

lemma transfer_chance:
  assumes "0 < chances ready u"
  obtains ps where "wait_until ready (polls u) = Ret ps" "chances ready (u\<lparr>polls := ps\<rparr>) = chances ready u - 1"
  using wait_until_chance [of ready "polls u"] assms by (auto simp: chances_def)

lemma push_loop_writes:
  assumes "i + k \<le> length xs" "k \<le> chances (fifo_is_ready_to_push full_mask) u"
  shows "\<exists>u'. push_loop i k full_mask xs u = Ret u' \<and> dout u' = dout u @ take k (drop i xs) \<and> din u' = din u"
  using assms
proof (induction k arbitrary: i u)
  case (Suc k)
  obtain ps where ps: "wait_until (fifo_is_ready_to_push full_mask) (polls u) = Ret ps"
    "chances (fifo_is_ready_to_push full_mask) (u\<lparr>polls := ps\<rparr>) = chances (fifo_is_ready_to_push full_mask) u - 1"
    using transfer_chance [of "fifo_is_ready_to_push full_mask" u] Suc.prems(2) by auto
  define u1 where "u1 = push_value (xs ! i) (u\<lparr>polls := ps\<rparr>)"
  have "k \<le> chances (fifo_is_ready_to_push full_mask) u1"
    using ps(2) Suc.prems(2) by (simp add: u1_def push_value_def chances_def)
  with Suc.IH [of "Suc i" u1] Suc.prems(1) obtain u'
    where "push_loop (Suc i) k full_mask xs u1 = Ret u'" "dout u' = dout u1 @ take k (drop (Suc i) xs)" "din u' = din u1"
    by auto
  with ps(1) Suc.prems(1) show ?case
    by (auto simp: fifo_push_value_def u1_def push_value_def take_Suc_conv_app_nth Cons_nth_drop_Suc [symmetric])
qed simp

lemma send_loop_writes:
  assumes "i + k \<le> length xs" "k \<le> chances (\<lambda>s. s AND tx \<noteq> 0) u"
  shows "\<exists>u'. send_loop i k tx xs u = Ret u' \<and> dout u' = dout u @ take k (drop i xs)"
  using assms
proof (induction k arbitrary: i u)
  case (Suc k)
  obtain ps where ps: "wait_until (\<lambda>s. s AND tx \<noteq> 0) (polls u) = Ret ps"
    "chances (\<lambda>s. s AND tx \<noteq> 0) (u\<lparr>polls := ps\<rparr>) = chances (\<lambda>s. s AND tx \<noteq> 0) u - 1"
    using transfer_chance [of "\<lambda>s. s AND tx \<noteq> 0" u] Suc.prems(2) by auto
  define u1 where "u1 = u\<lparr>dout := dout u @ [xs ! i], polls := ps\<rparr>"
  have "k \<le> chances (\<lambda>s. s AND tx \<noteq> 0) u1" using ps(2) Suc.prems(2) by (simp add: u1_def chances_def)
  with Suc.IH [of "Suc i" u1] Suc.prems(1) obtain u'
    where "send_loop (Suc i) k tx xs u1 = Ret u'" "dout u' = dout u1 @ take k (drop (Suc i) xs)" by auto
  with ps(1) Suc.prems(1) show ?case
    by (auto simp: send_byte_def wait_until_ready_to_send_def u1_def Cons_nth_drop_Suc [symmetric])
qed simp

lemma pop_loop_reads:
  assumes "k \<le> length (din u)" "k \<le> chances (fifo_is_ready_to_pop empty_mask) u"
  shows "\<exists>u'. pop_loop k empty_mask u = Ret (take k (din u), u') \<and> din u' = drop k (din u)"
  using assms
proof (induction k arbitrary: u)
  case (Suc k)
  obtain ps where ps: "wait_until (fifo_is_ready_to_pop empty_mask) (polls u) = Ret ps"
    "chances (fifo_is_ready_to_pop empty_mask) (u\<lparr>polls := ps\<rparr>) = chances (fifo_is_ready_to_pop empty_mask) u - 1"
    using transfer_chance [of "fifo_is_ready_to_pop empty_mask" u] Suc.prems(2) by auto
  obtain x xs where din: "din u = x # xs" using Suc.prems(1) by (cases "din u") auto
  define u1 where "u1 = u\<lparr>polls := ps, din := xs\<rparr>"
  have "k \<le> chances (fifo_is_ready_to_pop empty_mask) u1" "k \<le> length (din u1)"
    using ps(2) Suc.prems din by (auto simp: u1_def chances_def)
  from Suc.IH [OF this(2,1)] ps(1) din show ?case
    by (auto simp: fifo_pop_value_def pop_value_def u1_def)
qed simp

section \<open>Properties\<close>

text \<open>
  setting a size field and reading it back gives the bits of the value that fit the field, and leaves
  every bit outside the field as it was; clearing makes the queue empty and nothing else.
\<close>

theorem status_fields:
  "fifo_get_size m (fifo_set_size m x s) = x AND m
   \<and> fifo_set_size m x s AND NOT m = s AND NOT m
   \<and> fifo_get_max_size m (fifo_set_max_size m x s) = x AND m
   \<and> fifo_set_max_size m x s AND NOT m = s AND NOT m
   \<and> (fifo_is_empty e (fifo_clear e) \<longleftrightarrow> e \<noteq> 0)"
  by (auto simp: fifo_get_size_def fifo_set_size_def fifo_get_max_size_def fifo_set_max_size_def fifo_is_empty_def
      fifo_is_ready_to_pop_def fifo_clear_def bit_eq_iff bit_simps)

text \<open>
  a device that is found ready often enough gets exactly the first \<open>n\<close> bytes of an array, in order,
  from \<open>fifo_push_array\<close> and from \<open>send_array\<close>; a device that is never ready makes every
  non-empty transfer wait for ever.
\<close>

theorem array_transfer:
  assumes "unat n \<le> length xs"
  shows "(unat n \<le> chances (fifo_is_ready_to_push full_mask) u \<longrightarrow>
      (\<exists>u'. fifo_push_array full_mask xs n u = Ret u' \<and> dout u' = dout u @ take (unat n) xs))
    \<and> (unat n \<le> chances (\<lambda>s. s AND tx \<noteq> 0) u \<longrightarrow>
      (\<exists>u'. send_array tx xs n u = Ret u' \<and> dout u' = dout u @ take (unat n) xs))
    \<and> (n \<noteq> 0 \<and> chances (fifo_is_ready_to_push full_mask) u = 0 \<longrightarrow> fifo_push_array full_mask xs n u = Diverge)"
proof (intro conjI impI)
  assume "unat n \<le> chances (fifo_is_ready_to_push full_mask) u"
  then show "\<exists>u'. fifo_push_array full_mask xs n u = Ret u' \<and> dout u' = dout u @ take (unat n) xs"
    using push_loop_writes [of 0 "unat n" xs full_mask u] assms by (auto simp: fifo_push_array_def)
next
  assume "unat n \<le> chances (\<lambda>s. s AND tx \<noteq> 0) u"
  then show "\<exists>u'. send_array tx xs n u = Ret u' \<and> dout u' = dout u @ take (unat n) xs"
    using send_loop_writes [of 0 "unat n" xs tx u] assms by (auto simp: send_array_def)
next
  assume n: "n \<noteq> 0 \<and> chances (fifo_is_ready_to_push full_mask) u = 0"
  then obtain k where k: "unat n = Suc k" by (cases "unat n") (auto simp: unat_eq_0)
  have "fifo_push_value full_mask x u = Diverge" for x
    using n wait_until_none [of "fifo_is_ready_to_push full_mask" "polls u"] by (simp add: fifo_push_value_def chances_def)
  with k assms show "fifo_push_array full_mask xs n u = Diverge"
    by (auto simp: fifo_push_array_def arr_get_def)
qed

theorem array_transfer_witness:
  "\<exists>u'. fifo_push_array 1 [5, 6] 2 \<lparr>polls = [1, 0, 1, 0], din = [], dout = []\<rparr> = Ret u' \<and> dout u' = [5, 6]"
  using array_transfer [of 2 "[5, 6]" 1 "\<lparr>polls = [1, 0, 1, 0], din = [], dout = []\<rparr>" 1]
  by (simp add: chances_def fifo_is_ready_to_push_def)

text \<open>
  a string is written without its length, and only its length modulo 256 characters are; reading a
  string takes its first byte for the length.  So a string that is sent and then read back comes back
  without its first character, cut to as many characters as that character's code says.
\<close>

theorem string_transfer:
  assumes "length s \<le> chances (fifo_is_ready_to_push full_mask) u"
    and "s = c # cs" "length s < 256" "unat c \<le> length cs"
    and "din v = s" "Suc (unat c) \<le> chances (fifo_is_ready_to_pop empty_mask) v"
  shows "(\<exists>u'. fifo_push_string full_mask s u = Ret u' \<and> dout u' = dout u @ s)
    \<and> (\<exists>v'. fifo_pop_string empty_mask v = Ret (take (unat c) cs, v') \<and> din v' = drop (unat c) cs)"
proof
  have "unat (of_nat (length s) :: 8 word) = length s" using assms(3) by (simp add: unat_of_nat)
  then show "\<exists>u'. fifo_push_string full_mask s u = Ret u' \<and> dout u' = dout u @ s"
    using push_loop_writes [of 0 "length s" "s @ [0]" full_mask u] assms(1)
    by (auto simp: fifo_push_string_def fifo_push_array_def)
  obtain ps where ps: "wait_until (fifo_is_ready_to_pop empty_mask) (polls v) = Ret ps"
    "chances (fifo_is_ready_to_pop empty_mask) (v\<lparr>polls := ps\<rparr>) = chances (fifo_is_ready_to_pop empty_mask) v - 1"
    using transfer_chance [of "fifo_is_ready_to_pop empty_mask" v] assms(6) by auto
  define v1 where "v1 = v\<lparr>polls := ps, din := cs\<rparr>"
  have "unat c \<le> chances (fifo_is_ready_to_pop empty_mask) v1" using ps(2) assms(6) by (simp add: v1_def chances_def)
  with pop_loop_reads [of "unat c" v1 empty_mask] assms(2,4,5) ps(1)
  show "\<exists>v'. fifo_pop_string empty_mask v = Ret (take (unat c) cs, v') \<and> din v' = drop (unat c) cs"
    by (auto simp: fifo_pop_string_def fifo_pop_value_def pop_value_def fifo_pop_array_def v1_def)
qed

theorem string_transfer_witness:
  "\<exists>v'. fifo_pop_string 1 \<lparr>polls = [0, 0], din = [1, 7, 8], dout = []\<rparr> = Ret ([7], v') \<and> din v' = [8]"
  using string_transfer [of "[1, 7, 8]" 1 "\<lparr>polls = [0, 0, 0], din = [], dout = []\<rparr>" 1 "[7, 8]"
      "\<lparr>polls = [0, 0], din = [1, 7, 8], dout = []\<rparr>" 1]
  by (simp add: chances_def fifo_is_ready_to_push_def fifo_is_ready_to_pop_def)

end
