(* ===== verification/Device_Io.thy ===== *)
theory Device_Io
  imports Cxx_Lib Machine
begin

unbundle bit_operations_syntax

text \<open>
  Three small programs: the software radio reader \<open>cjunk/swradio/radio.cpp\<close>, the asynchronous reader
  of the standard input \<open>cjunk/practice/asyncStdin.cc\<close>, and the object lifetimes shown by
  \<open>raii.cc\<close>.
\<close>

section \<open>class Radio\<close>

text \<open>A member no constructor sets is \<open>None\<close> until it is assigned.\<close>

record radio =
  fd :: int
  buffer_count :: "int option"
  buffer_index :: int
  buffer_ready :: int

definition Radio_ctor :: "int \<Rightarrow> (std_exception, radio) outcome" where
  "Radio_ctor open_fd =
     (if open_fd < 0 then Throw (runtime_error ''could not open'')
      else Ret \<lparr>fd = open_fd, buffer_count = None, buffer_index = 0, buffer_ready = 0\<rparr>)"

definition read_ready :: "radio \<Rightarrow> int" where "read_ready r = buffer_ready r"
definition read_index :: "radio \<Rightarrow> int" where "read_index r = buffer_index r"

definition read_count :: "radio \<Rightarrow> (ub, int) outcome" where
  "read_count r = (case buffer_count r of None \<Rightarrow> Throw Uninitialised | Some c \<Rightarrow> Ret c)"

text \<open>
  \<open>read\<close> copies within the caller's buffer, from behind its end unless the index is 0; a copy of the
  buffer onto itself changes nothing.
\<close>

definition radio_read :: "string \<Rightarrow> int \<Rightarrow> radio \<Rightarrow> (ub, int \<times> string \<times> radio) outcome" where
  "radio_read buffer n r =
     (if buffer_ready r = 0 then Ret (0, buffer, r)
      else obind (int32 (buffer_index r * n)) (\<lambda>off.
           if off < 0 \<or> n < 0 \<or> int (length buffer) < off + n then Throw Out_of_bounds
           else obind (int32 (buffer_index r + 1)) (\<lambda>i.
           obind (read_count r) (\<lambda>c.
           obind (c_mod i c) (\<lambda>j.
             Ret (n, take (nat n) (drop (nat off) buffer) @ drop (nat n) buffer,
                  r\<lparr>buffer_index := j, buffer_ready := buffer_ready r - 1\<rparr>))))))"

text \<open>The requests \<open>Config\<close> sends to the device, and the frequency the last of them leaves it at.\<close>

datatype ioctl = QueryCap | SetFrequency nat nat | SetModulator nat nat nat

definition Config :: "ioctl list" where
  "Config = [QueryCap, SetFrequency 0 140000000, SetModulator 0 0 0, SetFrequency 0 0]"

fun tuned :: "ioctl list \<Rightarrow> nat option \<Rightarrow> nat option" where
  "tuned [] f = f"
| "tuned (SetFrequency t f' # cs) f = tuned cs (Some f')"
| "tuned (_ # cs) f = tuned cs f"

text \<open>The loop of \<open>main\<close>; \<open>bufs\<close> are the uninitialised buffers of its rounds.\<close>

fun radio_loop :: "string list \<Rightarrow> radio \<Rightarrow> (ub, int list \<times> radio) outcome" where
  "radio_loop [] r = Ret ([], r)"
| "radio_loop (b # bufs) r =
     obind (radio_read b 4096 r) (\<lambda>(n, _, r'). omap (\<lambda>(ns, r''). (n # ns, r'')) (radio_loop bufs r'))"

text \<open>
  The destructor closes the device.  \<open>main\<close> opens it, reads a million times into a buffer of its own
  and closes it; \<open>bufs\<close> are the contents of that buffer in each round.  The timer it declares first
  reports last.  The result is what the reads returned and the
  descriptors still open.
\<close>

definition Radio_dtor :: "radio \<Rightarrow> int list \<Rightarrow> int list" where
  "Radio_dtor r fds = remove1 (fd r) fds"

definition radio_main ::
  "int \<Rightarrow> string list \<Rightarrow> int list \<Rightarrow> (std_exception + ub, int list \<times> int list \<times> string) outcome" where
  "radio_main open_fd bufs fds =
     (case Radio_ctor open_fd of
        Ret r \<Rightarrow> (case radio_loop bufs r of
            Ret (ns, r') \<Rightarrow> Ret (ns, Radio_dtor r' (open_fd # fds), ''elapsed time: '')
          | Throw u \<Rightarrow> Throw (Inr u)
          | Diverge \<Rightarrow> Diverge)
      | Throw e \<Rightarrow> Throw (Inl e)
      | Diverge \<Rightarrow> Diverge)"

section \<open>class StandardInput\<close>

text \<open>
  The input task reads one byte into the low byte of an \<open>int\<close> that is never initialised; \<open>c_slot\<close> is
  what that variable holds when a round starts.  \<open>fread\<close> leaves it alone at the end of the input
  (\<open>None\<close>).  The mutex makes every operation on the queue atomic.
\<close>

record standard_input =
  m_queue :: "8 word list"
  m_running :: bool

definition StandardInput :: standard_input where
  "StandardInput = \<lparr>m_queue = [], m_running = True\<rparr>"

definition hasChar :: "standard_input \<Rightarrow> bool" where
  "hasChar si \<longleftrightarrow> m_queue si \<noteq> []"

definition popChar :: "standard_input \<Rightarrow> (ub, 8 word \<times> standard_input) outcome" where
  "popChar si = (case m_queue si of [] \<Rightarrow> Throw Out_of_bounds | c # cs \<Rightarrow> Ret (c, si\<lparr>m_queue := cs\<rparr>))"

definition input_stop :: "standard_input \<Rightarrow> standard_input" where
  "input_stop si = si\<lparr>m_running := False\<rparr>"

definition fread_int :: "8 word option \<Rightarrow> 32 word \<Rightarrow> 32 word" where
  "fread_int b c = (case b of None \<Rightarrow> c | Some x \<Rightarrow> (c AND NOT (mask 8)) OR ucast x)"

definition inputCharTask_round :: "32 word \<Rightarrow> 8 word option \<Rightarrow> standard_input \<Rightarrow> standard_input" where
  "inputCharTask_round c_slot b si =
     (if \<not> m_running si then si
      else let c = fread_int b c_slot
           in if c \<noteq> - 1 then si\<lparr>m_queue := m_queue si @ [ucast c]\<rparr> else si)"

text \<open>
  The loop of \<open>main\<close>: before each test of \<open>hasChar\<close> the task has pushed some characters, the
  elements of \<open>pushes\<close>.  Without further pushes the loop empties the queue.
\<close>

fun drain :: "8 word list list \<Rightarrow> standard_input \<Rightarrow> (ub, 8 word list) outcome" where
  "drain [] si = Ret (m_queue si)"
| "drain (p # pushes) si0 =
     (let si = si0\<lparr>m_queue := m_queue si0 @ p\<rparr>
      in if hasChar si then obind (popChar si) (\<lambda>(c, si'). omap (Cons c) (drain pushes si')) else Ret [])"

text \<open>
  The destructor clears \<open>m_running\<close>; then the members are destroyed, the last declared first: the condition
  variable and the mutex, and only then the future, whose destructor waits for the task.  A task that waits in
  \<open>fread\<close> (\<open>reading\<close>) finishes that round, the first element of \<open>rounds\<close>, on destroyed objects; without
  further input it waits for ever.
\<close>

definition input_dtor :: "bool \<Rightarrow> (32 word \<times> 8 word option) list \<Rightarrow> (ub, unit) outcome" where
  "input_dtor reading rounds =
     (if \<not> reading then Ret ()
      else case rounds of
        [] \<Rightarrow> Diverge
      | (c_slot, b) # _ \<Rightarrow> if fread_int b c_slot \<noteq> - 1 then Throw Use_after_close else Ret ())"

section \<open>class Elf\<close>

datatype elf_event = New_elf int | Copy_elf int | Killed_elf int | Says string

text \<open>
  A vector of elves is its contents and its capacity.  Appending to a full vector makes the new element
  in twice the space first, then copies the old elements over and destroys them.  \<open>mk\<close> is the
  construction of the new element.
\<close>

type_synonym elf_vector = "int list \<times> nat"

definition elf_add :: "(int \<Rightarrow> elf_event) \<Rightarrow> int \<Rightarrow> elf_vector \<Rightarrow> elf_event list \<times> elf_vector" where
  "elf_add mk i v =
     (if length (fst v) < snd v then ([mk i], (fst v @ [i], snd v))
      else (mk i # map Copy_elf (fst v) @ map Killed_elf (fst v), (fst v @ [i], max 1 (2 * snd v))))"

abbreviation "emplace_back \<equiv> elf_add New_elf"
abbreviation "push_back \<equiv> elf_add Copy_elf"

definition elf_pop_back :: "elf_vector \<Rightarrow> elf_event list \<times> elf_vector" where
  "elf_pop_back v = ([Killed_elf (last (fst v))], (butlast (fst v), snd v))"

fun list_elves :: "nat \<Rightarrow> int list \<Rightarrow> elf_event list" where
  "list_elves i [] = []"
| "list_elves i (e # es) = Says (''plist['' @ to_string (int i) @ ''] '' @ to_string e) # list_elves (Suc i) es"

text \<open>The test: owners are destroyed in the reverse order of their construction.\<close>

definition elf_test :: "elf_event list" where
  "elf_test =
     (let plist = [400];
          (t1, box1) = emplace_back 2 ([], 0);
          (t2, box2) = push_back 312 box1;
          (t3, box3) = elf_pop_back box2
      in [New_elf 400, New_elf 55, New_elf 312, Says ''creating two elves''] @ t1 @ t2
         @ list_elves 0 plist @ [Says [], Says ''poping two elves.''] @ t3 @ [Killed_elf (last plist)]
         @ [Says ''leaving context.'', Killed_elf 312] @ map Killed_elf (fst box3) @ [Killed_elf 55]
         @ map Killed_elf (butlast plist))"

text \<open>How many elves named \<open>i\<close> are alive after a list of events.\<close>

fun alive :: "int \<Rightarrow> elf_event list \<Rightarrow> int" where
  "alive i [] = 0"
| "alive i (New_elf j # es) = (if i = j then 1 else 0) + alive i es"
| "alive i (Copy_elf j # es) = (if i = j then 1 else 0) + alive i es"
| "alive i (Killed_elf j # es) = alive i es - (if i = j then 1 else 0)"
| "alive i (Says s # es) = alive i es"

lemma alive_append [simp]: "alive i (a @ b) = alive i a + alive i b"
  by (induction i a rule: alive.induct) auto

lemma alive_maps [simp]:
  "alive i (map Copy_elf es) = int (count_list es i)" "alive i (map Killed_elf es) = - int (count_list es i)"
  by (induction es) auto

text \<open>Adding a list of elves one by one.\<close>

fun elf_add_all :: "(int \<Rightarrow> elf_event) \<Rightarrow> int list \<Rightarrow> elf_vector \<Rightarrow> elf_event list \<times> elf_vector" where
  "elf_add_all mk [] v = ([], v)"
| "elf_add_all mk (e # es) v = (let (t, v') = elf_add mk e v; (t', v'') = elf_add_all mk es v' in (t @ t', v''))"

lemma elf_add_alive:
  assumes "mk = New_elf \<or> mk = Copy_elf"
  shows "alive i (fst (elf_add mk e v)) = (if i = e then 1 else 0)" "fst (snd (elf_add mk e v)) = fst v @ [e]"
    "length (fst v) \<le> snd v \<Longrightarrow> length (fst (snd (elf_add mk e v))) \<le> snd (snd (elf_add mk e v))"
  using assms by (auto simp: elf_add_def)

lemma elf_add_all_alive:
  assumes "mk = New_elf \<or> mk = Copy_elf"
  shows "alive i (fst (elf_add_all mk es v)) + int (count_list (fst v) i)
    = int (count_list (fst (snd (elf_add_all mk es v))) i)"
proof (induction es arbitrary: v)
  case (Cons e es)
  from Cons.IH [of "snd (elf_add mk e v)"] show ?case
    by (simp add: split_beta Let_def elf_add_alive [OF assms] split: if_splits)
qed simp

section \<open>Properties\<close>

text \<open>
  the radio never delivers a sample.  Nothing ever raises \<open>buffer_ready\<close>, so every read of a radio
  that was opened returns 0 and changes neither the buffer nor the radio, and the loop of \<open>main\<close> ends
  with what it started with.  A read that did find data would fail: it uses the uninitialised
  \<open>buffer_count\<close>.
\<close>

theorem radio_never_reads:
  assumes "Radio_ctor f = Ret r"
  shows "radio_read b n r = Ret (0, b, r)
    \<and> radio_loop bufs r = Ret (replicate (length bufs) 0, r)
    \<and> (k \<noteq> 0 \<longrightarrow> throws (radio_read b n (r\<lparr>buffer_ready := k\<rparr>)))"
proof -
  have r: "buffer_ready r = 0" "buffer_count r = None" "buffer_index r = 0"
    using assms by (auto simp: Radio_ctor_def split: if_splits)
  then have "radio_loop bufs r = Ret (replicate (length bufs) 0, r)"
    by (induction bufs) (simp_all add: radio_read_def)
  with r show ?thesis
    by (auto simp: radio_read_def read_count_def int32_def INT_MIN_def INT_MAX_def)
qed

theorem radio_never_reads_witness:
  "radio_read ''abc'' 3 \<lparr>fd = 4, buffer_count = None, buffer_index = 0, buffer_ready = 0\<rparr>
   = Ret (0, ''abc'', \<lparr>fd = 4, buffer_count = None, buffer_index = 0, buffer_ready = 0\<rparr>)"
  using radio_never_reads [of 4 "\<lparr>fd = 4, buffer_count = None, buffer_index = 0, buffer_ready = 0\<rparr>" "''abc''" 3]
  by (simp add: Radio_ctor_def)

text \<open>
  the radio program ends: with an exception when the device cannot be opened, and otherwise with the
  device closed and no byte read, whatever its buffers hold.
\<close>

theorem radio_main_ends:
  "radio_main open_fd bufs fds =
     (if open_fd < 0 then Throw (Inl (runtime_error ''could not open''))
      else Ret (replicate (length bufs) 0, fds, ''elapsed time: ''))"
proof -
  have "radio_loop bufs r = Ret (replicate (length bufs) 0, r)" if "buffer_ready r = 0" for r
    using that by (induction bufs) (simp_all add: radio_read_def)
  then show ?thesis by (simp add: radio_main_def Radio_ctor_def Radio_dtor_def)
qed

text \<open>
  after \<open>Config\<close> the device is tuned to 0 Hz, not to the 140 MHz of the comment: the request meant for
  the bandwidth sets the frequency again.
\<close>

theorem radio_config_frequency: "tuned Config f = Some 0"
  by (simp add: Config_def)

text \<open>
  what a round of the input task pushes.  A byte read arrives unchanged, unless the other bytes of
  the variable are all 0xFF and the byte is 0xFF too: then it is dropped.  At the end of the input a
  round pushes the old content of the variable again, so the task never notices the end.
\<close>

theorem input_round:
  assumes "m_running si"
  shows "m_queue (inputCharTask_round c (Some x) si)
      = m_queue si @ (if x = - 1 \<and> drop_bit 8 c = mask 24 then [] else [x])
    \<and> m_queue (inputCharTask_round c None si) = m_queue si @ (if c = - 1 then [] else [ucast c])"
proof
  have low: "ucast ((c AND NOT (mask 8)) OR ucast x) = x"
    by (rule bit_word_eqI) (auto simp: bit_simps)
  have "(c AND NOT (mask 8)) OR ucast x = - 1 \<longleftrightarrow> x = - 1 \<and> drop_bit 8 c = mask 24"
  proof
    assume all: "(c AND NOT (mask 8)) OR ucast x = - 1"
    have "ucast (- 1 :: 32 word) = (- 1 :: 8 word)" by (rule bit_word_eqI) (simp add: bit_simps)
    with low all have "x = - 1" by simp
    moreover have "drop_bit 8 c = mask 24"
    proof (rule bit_word_eqI)
      fix n assume n: "n < LENGTH(32)"
      have "bit ((c AND NOT (mask 8)) OR ucast x) (8 + n) \<longleftrightarrow> bit (- 1 :: 32 word) (8 + n)" by (simp only: all)
      with n show "bit (drop_bit 8 c) n \<longleftrightarrow> bit (mask 24 :: 32 word) n"
        by (auto simp: bit_simps dest: bit_imp_le_length)
    qed
    ultimately show "x = - 1 \<and> drop_bit 8 c = mask 24" ..
  next
    assume h: "x = - 1 \<and> drop_bit 8 c = mask 24"
    show "(c AND NOT (mask 8)) OR ucast x = - 1"
    proof (rule bit_word_eqI)
      fix n assume n: "n < LENGTH(32)"
      have "bit c n" if "8 \<le> n"
      proof -
        have "bit (drop_bit 8 c) (n - 8)" unfolding conjunct2 [OF h] using n that by (simp add: bit_simps) linarith
        with that show ?thesis by (simp add: bit_simps)
      qed
      with n h show "bit ((c AND NOT (mask 8)) OR ucast x) n \<longleftrightarrow> bit (- 1 :: 32 word) n"
        by (auto simp: bit_simps)
    qed
  qed
  with assms low show "m_queue (inputCharTask_round c (Some x) si)
      = m_queue si @ (if x = - 1 \<and> drop_bit 8 c = mask 24 then [] else [x])"
    by (simp add: inputCharTask_round_def fread_int_def Let_def)
  show "m_queue (inputCharTask_round c None si) = m_queue si @ (if c = - 1 then [] else [ucast c])"
    using assms by (simp add: inputCharTask_round_def fread_int_def Let_def)
qed

theorem input_round_witness:
  "m_queue (inputCharTask_round 0 (Some 65) StandardInput) = [65]"
  using input_round [of StandardInput 0 65] by (simp add: StandardInput_def)

text \<open>
  \<open>main\<close> never pops from an empty queue, and what it prints is an initial part of what was
  pushed, in order.  It stops at the first moment the queue is empty, even if more is to come.
\<close>

theorem drain_fifo:
  "\<exists>cs rest. drain pushes si = Ret cs \<and> m_queue si @ concat pushes = cs @ rest"
proof (induction pushes arbitrary: si)
  case (Cons p pushes)
  show ?case
  proof (cases "m_queue si @ p")
    case (Cons c cs)
    then have "m_queue si @ p @ concat pushes = c # cs @ concat pushes" by (metis append_Cons append_assoc)
    moreover obtain out rest where "drain pushes (si\<lparr>m_queue := cs\<rparr>) = Ret out" "cs @ concat pushes = out @ rest"
      using Cons.IH [of "si\<lparr>m_queue := cs\<rparr>"] by auto
    moreover from this Cons have "drain (p # pushes) si = Ret (c # out)" by (simp add: hasChar_def popChar_def)
    ultimately show ?thesis by auto
  qed (simp add: hasChar_def Let_def)
qed simp

text \<open>
  every elf made is destroyed exactly once.  Adding any elves to a vector, by construction or by copy,
  and destroying the vector leaves as many alive of each name as before, through every reallocation;
  and at the end of the test none is left.
\<close>

theorem elves_balanced:
  assumes "mk = New_elf \<or> mk = Copy_elf"
  shows "alive i (fst (elf_add_all mk es v) @ map Killed_elf (fst (snd (elf_add_all mk es v))))
      = - int (count_list (fst v) i)
    \<and> alive i elf_test = 0"
proof
  show "alive i (fst (elf_add_all mk es v) @ map Killed_elf (fst (snd (elf_add_all mk es v))))
      = - int (count_list (fst v) i)"
    using elf_add_all_alive [OF assms, of i es v] by simp
  show "alive i elf_test = 0"
    by (simp add: elf_test_def elf_add_def elf_pop_back_def)
qed

theorem elves_balanced_witness:
  "alive 2 (fst (elf_add_all New_elf [2, 3] ([], 0)) @ map Killed_elf (fst (snd (elf_add_all New_elf [2, 3] ([], 0))))) = 0"
  using elves_balanced [of New_elf 2 "[2, 3]" "([], 0)"] by simp

text \<open>
  A \<open>StandardInput\<close> whose task waits for input is never destroyed cleanly by a next character: without input the
  destructor does not return, and a character makes the task lock the mutex that is already destroyed, unless the
  byte completes an uninitialised variable to \<open>EOF\<close>.
\<close>

lemma input_dtor_outcomes:
  "input_dtor True [] = Diverge"
  "input_dtor True ((c, b) # rounds) = Ret () \<longleftrightarrow> fread_int b c = - 1"
  "input_dtor True ((0, Some x) # rounds) = Throw Use_after_close"
proof -
  have "fread_int (Some x) 0 \<noteq> - 1"
  proof
    assume "fread_int (Some x) 0 = - 1"
    then have "bit (fread_int (Some x) 0) 31 = bit (- 1 :: 32 word) 31" by simp
    then show False using bit_imp_le_length [of x 31] by (auto simp: fread_int_def bit_simps)
  qed
  then show "input_dtor True [] = Diverge" "input_dtor True ((c, b) # rounds) = Ret () \<longleftrightarrow> fread_int b c = - 1"
    "input_dtor True ((0, Some x) # rounds) = Throw Use_after_close"
    by (simp_all add: input_dtor_def)
qed

end
