(* ===== verification/Async_Servers.thy ===== *)
theory Async_Servers
  imports Cxx_Lib Machine Step_System
begin

text \<open>
  The asynchronous network programs: the web-socket server and client of
  \<open>cjunk/practice/websocketBase.cpp\<close>, the server of \<open>websocket-somethingsMIssing.cpp\<close>, the echo
  server \<open>beastWebsocketServer.cpp\<close> and the HTTP client of \<open>cjunk/parser.cpp\<close>.  A definition is the
  completion handler of a pending operation and gives the next state, or the undefined behaviour it runs into; \<open>ec\<close>
  tells whether the operation failed.
\<close>

section \<open>websocketBase.cpp: the two handlers\<close>

datatype ws_phase =
    Await_request
  | Send_response
  | Await_data
  | Send_request
  | Await_response
  | Send_data nat
  | Ws_end

record ws =
  phase :: ws_phase
  ws_data :: string
  ws_log :: "string list"

definition hello :: string where "hello = ''Hello, world!''"

definition WebSocketHandler :: ws where
  "WebSocketHandler = \<lparr>phase = Await_request, ws_data = hello, ws_log = [''new connection'']\<rparr>"

definition WebSocketClientHandler :: ws where
  "WebSocketClientHandler = \<lparr>phase = Send_request, ws_data = hello, ws_log = [''connected'']\<rparr>"

definition ws_next :: "string \<Rightarrow> ws_phase \<Rightarrow> ws \<Rightarrow> ws" where
  "ws_next msg p w = w\<lparr>phase := p, ws_log := ws_log w @ [msg]\<rparr>"

text \<open>
  The completion handlers nested in \<open>handle_connection\<close>, one case per handler; \<open>got\<close> are the bytes a
  read has stored, which stay stored if it failed.
\<close>

definition store :: "string \<Rightarrow> ws \<Rightarrow> ws" where
  "store got w = w\<lparr>ws_data := got @ drop (length got) (ws_data w)\<rparr>"

text \<open>The server has its request read into the string literal of the request.\<close>

definition server_complete :: "bool \<Rightarrow> string \<Rightarrow> ws \<Rightarrow> (ub, ws) outcome" where
  "server_complete ec got w =
     (case phase w of
        Await_request \<Rightarrow>
          if got \<noteq> [] then Throw Write_to_literal
          else Ret (if \<not> ec then ws_next ''received request'' Send_response w else w\<lparr>phase := Ws_end\<rparr>)
      | Send_response \<Rightarrow> Ret (if \<not> ec then ws_next ''sent response'' Await_data w else w\<lparr>phase := Ws_end\<rparr>)
      | Await_data \<Rightarrow> let w' = store got w
          in Ret (if \<not> ec then ws_next ''received data'' (Send_data (length got)) w' else w'\<lparr>phase := Ws_end\<rparr>)
      | Send_data n \<Rightarrow> Ret (if \<not> ec then ws_next ''sent data'' Ws_end w else w\<lparr>phase := Ws_end\<rparr>)
      | _ \<Rightarrow> Ret w)"

definition client_complete :: "bool \<Rightarrow> string \<Rightarrow> ws \<Rightarrow> ws" where
  "client_complete ec got w =
     (case phase w of
        Send_request \<Rightarrow> if \<not> ec then ws_next ''sent request'' Await_response w else w\<lparr>phase := Ws_end\<rparr>
      | Await_response \<Rightarrow> let w' = store got w
          in if \<not> ec then ws_next ''received response'' (Send_data (length got)) w' else w'\<lparr>phase := Ws_end\<rparr>
      | Send_data n \<Rightarrow> if \<not> ec then ws_next ''sent data'' Ws_end w else w\<lparr>phase := Ws_end\<rparr>
      | _ \<Rightarrow> w)"

text \<open>\<open>start_accept\<close>: a server that accepts a connection hands it on and accepts again; an error ends it.\<close>

record acceptor =
  accepting :: bool
  connections :: nat

definition start_accept_complete :: "bool \<Rightarrow> acceptor \<Rightarrow> acceptor" where
  "start_accept_complete ec a = (if \<not> ec then a\<lparr>connections := connections a + 1\<rparr> else a\<lparr>accepting := False\<rparr>)"

text \<open>A server runs its handler on the result of every accept, as long as it has one pending.\<close>

fun run_accept :: "(bool \<Rightarrow> acceptor \<Rightarrow> acceptor) \<Rightarrow> bool list \<Rightarrow> acceptor \<Rightarrow> acceptor" where
  "run_accept handler [] a = a"
| "run_accept handler (ec # ecs) a = (if accepting a then run_accept handler ecs (handler ec a) else a)"

section \<open>beastWebsocketServer.cpp: class Session\<close>

text \<open>
  A session is owned by shared pointers: the temporary of \<open>handle_accept\<close> and, during \<open>do_read\<close> and \<open>do_write\<close>,
  the local \<open>self\<close>.  \<open>sessions\<close> has the number of owners of every session created; at zero it is destroyed.  The
  handlers are bound to the plain pointer, so that a pending operation does not own its session, and calling a
  handler of a destroyed session is undefined.  An operation on a closed socket still completes, with an error.
  \<open>Session\<close> is taken to derive from \<open>std::enable_shared_from_this\<close>, which the file does not say and
  \<open>shared_from_this\<close> needs.
\<close>

datatype session_op = Reading | Writing string

record echo_server =
  sessions :: "nat list"
  pending_ops :: "(nat \<times> session_op) list"
  echo_log :: "string list"

definition echo_start :: echo_server where
  "echo_start = \<lparr>sessions = [], pending_ops = [], echo_log = []\<rparr>"

definition add_owner :: "nat \<Rightarrow> echo_server \<Rightarrow> echo_server" where
  "add_owner i st = st\<lparr>sessions := (sessions st)[i := sessions st ! i + 1]\<rparr>"

definition drop_owner :: "nat \<Rightarrow> echo_server \<Rightarrow> echo_server" where
  "drop_owner i st = st\<lparr>sessions := (sessions st)[i := sessions st ! i - 1]\<rparr>"

definition member_call :: "nat \<Rightarrow> (echo_server \<Rightarrow> (ub, echo_server) outcome) \<Rightarrow> echo_server \<Rightarrow> (ub, echo_server) outcome" where
  "member_call i body st =
     (if i < length (sessions st) \<and> 0 < sessions st ! i then body st else Throw Use_after_close)"

text \<open>Both start an operation while \<open>self\<close> is a second owner.\<close>

definition start_op :: "nat \<Rightarrow> session_op \<Rightarrow> echo_server \<Rightarrow> (ub, echo_server) outcome" where
  "start_op i oper = member_call i (\<lambda>st.
     let st1 = add_owner i st; st2 = st1\<lparr>pending_ops := pending_ops st1 @ [(i, oper)]\<rparr> in Ret (drop_owner i st2))"

definition do_read_session :: "nat \<Rightarrow> echo_server \<Rightarrow> (ub, echo_server) outcome" where
  "do_read_session i = start_op i Reading"

definition do_write_session :: "nat \<Rightarrow> string \<Rightarrow> echo_server \<Rightarrow> (ub, echo_server) outcome" where
  "do_write_session i data = start_op i (Writing data)"

definition Session_start :: "nat \<Rightarrow> echo_server \<Rightarrow> (ub, echo_server) outcome" where
  "Session_start i = member_call i (do_read_session i)"

definition handle_read :: "nat \<Rightarrow> bool \<Rightarrow> string \<Rightarrow> echo_server \<Rightarrow> (ub, echo_server) outcome" where
  "handle_read i ec data = member_call i (\<lambda>st.
     if \<not> ec then do_write_session i data (st\<lparr>echo_log := echo_log st @ [''Received: '' @ data]\<rparr>)
     else do_read_session i st)"

definition handle_write :: "nat \<Rightarrow> bool \<Rightarrow> echo_server \<Rightarrow> (ub, echo_server) outcome" where
  "handle_write i ec = member_call i (\<lambda>st. if \<not> ec then do_read_session i st else Ret st)"

text \<open>The temporary shared pointer owns the new session until its \<open>start\<close> has returned; then the next accept begins.\<close>

definition handle_accept :: "bool \<Rightarrow> echo_server \<Rightarrow> (ub, echo_server) outcome" where
  "handle_accept ec st =
     (if \<not> ec
      then let i = length (sessions st); st1 = st\<lparr>sessions := sessions st @ [1]\<rparr>
           in omap (drop_owner i) (Session_start i st1)
      else Ret st)"

text \<open>
  The service runs the handler of the accept or of the pending operation number \<open>k\<close>, whichever completes
  next; \<open>data\<close> is what a read has received.
\<close>

datatype echo_event = Accepted bool | Completed nat bool string

fun echo_step :: "echo_event \<Rightarrow> echo_server \<Rightarrow> (ub, echo_server) outcome" where
  "echo_step (Accepted ec) st = handle_accept ec st"
| "echo_step (Completed k ec data) st =
     (if k < length (pending_ops st)
      then let (i, oper) = pending_ops st ! k;
               st1 = st\<lparr>pending_ops := take k (pending_ops st) @ drop (Suc k) (pending_ops st)\<rparr>
           in case oper of Reading \<Rightarrow> handle_read i ec data st1 | Writing _ \<Rightarrow> handle_write i ec st1
      else Ret st)"

fun echo_run :: "echo_event list \<Rightarrow> echo_server \<Rightarrow> (ub, echo_server) outcome" where
  "echo_run [] st = Ret st"
| "echo_run (e # es) st = obind (echo_step e st) (echo_run es)"

text \<open>The constructor of \<open>Server\<close>; the arguments are the errors of the four calls.\<close>

definition Server_setup :: "bool \<Rightarrow> bool \<Rightarrow> bool \<Rightarrow> bool \<Rightarrow> (std_exception, echo_server) outcome" where
  "Server_setup open_ec option_ec bind_ec listen_ec =
     (if open_ec then Throw (runtime_error ''open'')
      else if option_ec then Throw (runtime_error ''set_option'')
      else if bind_ec then Throw (runtime_error ''bind'')
      else if listen_ec then Throw (runtime_error ''listen'')
      else Ret echo_start)"

section \<open>websocket-somethingsMIssing.cpp: the queue of sockets\<close>

text \<open>
  Every accepted socket is owned by the pointer in the queue.  \<open>handle_connection\<close> takes it out into a local
  variable, the only owner from then on, starts the read and returns, which destroys the socket:
  \<open>alive\<close> has the sockets that still exist.  The handlers keep a reference to it.  As in \<open>websocketBase.cpp\<close> the
  request is read into a string literal.
\<close>

record ws_queue =
  sockets :: "nat list"
  alive :: "nat list"
  reading :: "nat option"
  writing :: "nat option"
  q_accepting :: bool
  delivered :: "string list"

definition ws_queue_start :: ws_queue where
  "ws_queue_start = \<lparr>sockets = [], alive = [], reading = None, writing = None, q_accepting = True, delivered = []\<rparr>"

definition handle_connection :: "ws_queue \<Rightarrow> ws_queue" where
  "handle_connection q =
     (case sockets q of
        [] \<Rightarrow> q
      | s # ss \<Rightarrow> q\<lparr>sockets := ss, reading := Some s, alive := removeAll s (alive q)\<rparr>)"

definition queue_accept :: "bool \<Rightarrow> nat \<Rightarrow> ws_queue \<Rightarrow> ws_queue" where
  "queue_accept ec new_socket q =
     (let q1 = q\<lparr>q_accepting := False\<rparr>
      in if \<not> ec
         then handle_connection (q1\<lparr>sockets := sockets q1 @ [new_socket], alive := new_socket # alive q1\<rparr>)
         else q1)"

definition queue_received :: "bool \<Rightarrow> nat \<Rightarrow> string \<Rightarrow> ws_queue \<Rightarrow> (ub, ws_queue) outcome" where
  "queue_received ec s data q =
     (let q1 = q\<lparr>reading := None\<rparr>
      in if data \<noteq> [] then Throw Write_to_literal
         else if \<not> ec
         then let q2 = q1\<lparr>delivered := delivered q1 @ [data]\<rparr>
              in if s \<in> set (alive q2) then Ret (q2\<lparr>writing := Some s\<rparr>) else Throw Use_after_close
         else Ret q1)"

definition queue_sent :: "bool \<Rightarrow> ws_queue \<Rightarrow> ws_queue" where
  "queue_sent ec q = (let q1 = q\<lparr>writing := None\<rparr> in if \<not> ec then q1\<lparr>q_accepting := True\<rparr> else q1)"

inductive queue_step :: "ws_queue \<Rightarrow> ws_queue \<Rightarrow> bool" where
  q_accept: "q_accepting q \<Longrightarrow> queue_step q (queue_accept ec n q)"
| q_received: "reading q = Some s \<Longrightarrow> queue_received ec s data q = Ret q' \<Longrightarrow> queue_step q q'"
| q_sent: "writing q = Some s \<Longrightarrow> queue_step q (queue_sent ec q)"

abbreviation queue_reachable :: "ws_queue \<Rightarrow> bool" where
  "queue_reachable \<equiv> reachable ((=) ws_queue_start) queue_step"

section \<open>parser.cpp: parse_json and class http_client\<close>

text \<open>\<open>reader\<close> is JsonCpp's parser: the value it reads, or the text of its errors.\<close>

definition parse_json :: "(string \<Rightarrow> string + 'v) \<Rightarrow> string \<Rightarrow> (std_exception, 'v) outcome" where
  "parse_json reader json_string =
     (case reader json_string of
        Inl errors \<Rightarrow> Throw (runtime_error (''Failed to parse JSON: '' @ errors))
      | Inr root \<Rightarrow> Ret root)"

text \<open>What the client writes out, given the errors of resolving and connecting and the results of its reads.\<close>

fun do_read :: "(bool \<times> string) list \<Rightarrow> string" where
  "do_read [] = []"
| "do_read ((ec, data) # rs) = (if \<not> ec then data @ do_read rs else [])"

definition http_client :: "bool \<Rightarrow> bool \<Rightarrow> (bool \<times> string) list \<Rightarrow> string" where
  "http_client resolve_ec connect_ec reads =
     (if \<not> resolve_ec then if \<not> connect_ec then do_read reads else [] else [])"

section \<open>Properties\<close>

text \<open>The web-socket server never gets past its first read: bytes that arrive are stored into a literal.\<close>

lemma server_request_undefined:
  "got \<noteq> [] \<Longrightarrow> server_complete ec got WebSocketHandler = Throw Write_to_literal"
  by (simp add: server_complete_def WebSocketHandler_def)

text \<open>Between two handlers of the echo server all its sessions are destroyed, each with its first read pending.\<close>

definition all_destroyed :: "echo_server \<Rightarrow> bool" where
  "all_destroyed st \<longleftrightarrow> (\<forall>n \<in> set (sessions st). n = 0) \<and> echo_log st = []
     \<and> pending_ops st = map (\<lambda>i. (i, Reading)) [0..<length (sessions st)]"

lemma handle_accept_destroys:
  assumes "all_destroyed st"
  shows "\<exists>st'. handle_accept ec st = Ret st' \<and> all_destroyed st'
    \<and> length (sessions st') = length (sessions st) + (if ec then 0 else 1)"
  using assms
  by (auto simp: handle_accept_def Session_start_def do_read_session_def start_op_def member_call_def add_owner_def
      drop_owner_def all_destroyed_def Let_def nth_append list_update_append)

lemma completion_undefined:
  assumes "all_destroyed st" "k < length (pending_ops st)"
  shows "echo_step (Completed k ec data) st = Throw Use_after_close"
proof -
  have k: "k < length (sessions st)" "pending_ops st ! k = (k, Reading)" using assms by (auto simp: all_destroyed_def)
  then have "sessions st ! k = 0" using assms(1) by (simp add: all_destroyed_def)
  with k assms(2) show ?thesis by (simp add: handle_read_def member_call_def)
qed

lemma echo_step_destroys:
  assumes "all_destroyed st" "echo_step e st = Ret st'"
  shows "all_destroyed st' \<and> length (sessions st') = length (sessions st) + (if e = Accepted False then 1 else 0)"
proof (cases e)
  case (Accepted ec)
  then show ?thesis using assms handle_accept_destroys [of st ec] by auto
next
  case (Completed k ec data)
  then show ?thesis using assms completion_undefined [of st k ec data] by (cases "k < length (pending_ops st)") auto
qed

lemma echo_run_destroys:
  "echo_run es st = Ret st' \<Longrightarrow> all_destroyed st \<Longrightarrow>
    all_destroyed st' \<and> length (sessions st') = length (sessions st) + count_list es (Accepted False)"
proof (induction es arbitrary: st)
  case (Cons e es)
  then obtain st1 where st1: "echo_step e st = Ret st1" "echo_run es st1 = Ret st'" by (auto simp: outcome_iff)
  from Cons.IH [OF st1(2)] echo_step_destroys [OF Cons.prems(2) st1(1)] show ?case by auto
qed simp

lemma echo_start_destroyed: "all_destroyed echo_start"
  by (simp add: all_destroyed_def echo_start_def)

text \<open>
  C32: the echo server destroys every session before its first operation completes.  After any sequence of
  accepts and completions that is defined, all sessions of the accepted connections are destroyed, each has
  the read of its \<open>start\<close> still pending and nothing was received; the handler of any of these reads, with an error
  or without, is called on a destroyed object.  So no execution in which an operation of a session completes is
  defined, and the server never echoes anything.
\<close>

theorem sessions_destroyed_before_use:
  assumes "echo_run es echo_start = Ret st"
  shows "length (sessions st) = count_list es (Accepted False) \<and> (\<forall>n \<in> set (sessions st). n = 0)
    \<and> pending_ops st = map (\<lambda>i. (i, Reading)) [0..<length (sessions st)] \<and> echo_log st = []
    \<and> (\<forall>k < length (sessions st). \<forall>ec data. echo_step (Completed k ec data) st = Throw Use_after_close)"
proof -
  have d: "all_destroyed st" "length (sessions st) = count_list es (Accepted False)"
    using echo_run_destroys [OF assms echo_start_destroyed] by (simp_all add: echo_start_def)
  moreover have "echo_step (Completed k ec data) st = Throw Use_after_close" if "k < length (sessions st)" for k ec data
    by (rule completion_undefined [OF d(1)]) (use d(1) that in \<open>simp add: all_destroyed_def\<close>)
  ultimately show ?thesis by (simp add: all_destroyed_def)
qed

theorem sessions_destroyed_before_use_witness:
  "\<exists>st. echo_run [Accepted False, Accepted True, Accepted False] echo_start = Ret st
     \<and> echo_step (Completed 1 False ''hi'') st = Throw Use_after_close"
proof -
  have run: "echo_run [Accepted False, Accepted True, Accepted False] echo_start
      = Ret \<lparr>sessions = [0, 0], pending_ops = [(0, Reading), (1, Reading)], echo_log = []\<rparr>"
    by code_simp
  from sessions_destroyed_before_use [OF run]
  have "\<forall>ec data. echo_step (Completed 1 ec data) \<lparr>sessions = [0, 0], pending_ops = [(0, Reading), (1, Reading)], echo_log = []\<rparr>
      = Throw Use_after_close"
    by (simp del: echo_step.simps)
  with run show ?thesis by blast
qed

definition ws_queue_inv :: "ws_queue \<Rightarrow> bool" where
  "ws_queue_inv q \<longleftrightarrow> sockets q = [] \<and> alive q = [] \<and> writing q = None \<and> delivered q = []
     \<and> (reading q \<noteq> None \<longrightarrow> \<not> q_accepting q)"

interpretation wsq: step_invariant "(=) ws_queue_start" queue_step ws_queue_inv
proof unfold_locales
  show "ws_queue_inv q" if "ws_queue_start = q" for q using that by (auto simp: ws_queue_inv_def ws_queue_start_def)
  show "ws_queue_inv q'" if "ws_queue_inv q" "queue_step q q'" for q q'
    using that(2,1) by (cases rule: queue_step.cases)
      (auto simp: ws_queue_inv_def queue_accept_def queue_received_def queue_sent_def handle_connection_def Let_def
        split: if_splits)
qed

text \<open>
  In every defined execution the queueing server serves nobody: it delivers no request, sends no response, and once
  an accept has completed it never accepts again.
\<close>

lemma queue_serves_nobody:
  assumes "queue_reachable q"
  shows "delivered q = [] \<and> writing q = None \<and> (queue_step q q' \<longrightarrow> \<not> q_accepting q')"
proof -
  have inv: "ws_queue_inv q" by (rule wsq.reachable_inv [OF assms])
  have "\<not> q_accepting q'" if "queue_step q q'"
    using that inv
    by (cases rule: queue_step.cases)
      (auto simp: ws_queue_inv_def queue_accept_def queue_received_def handle_connection_def Let_def split: if_splits)
  with inv show ?thesis by (simp add: ws_queue_inv_def)
qed

text \<open>
  the web-socket server counts the connections up to the first failed accept and then stops.  The HTTP client
  writes out everything it reads before the first error.
\<close>

theorem accept_policies:
  "connections (run_accept start_accept_complete ecs \<lparr>accepting = True, connections = 0\<rparr>) = length (takeWhile Not ecs)
   \<and> http_client False False reads = concat (map snd (takeWhile (\<lambda>r. \<not> fst r) reads))"
proof -
  have stopped: "run_accept f es \<lparr>accepting = False, connections = n\<rparr> = \<lparr>accepting = False, connections = n\<rparr>" for f es n
    by (cases es) simp_all
  have "connections (run_accept start_accept_complete ecs \<lparr>accepting = True, connections = n\<rparr>) = n + length (takeWhile Not ecs)" for n
    by (induction ecs arbitrary: n) (simp_all add: start_accept_complete_def stopped)
  moreover have "do_read rs = concat (map snd (takeWhile (\<lambda>r. \<not> fst r) rs))" for rs
    by (induction rs rule: do_read.induct) simp_all
  ultimately show ?thesis by (simp add: http_client_def)
qed

end
