(* ===== verification/Server_Mains.thy ===== *)
theory Server_Mains
  imports Async_Servers
begin

text \<open>
  The programs around the asynchronous servers: \<open>main\<close> and the two test functions of
  \<open>cjunk/practice/websocketBase.cpp\<close>, \<open>main\<close> of \<open>beastWebsocketServer.cpp\<close>, and the client and
  \<open>main\<close> of \<open>websocket-somethingsMIssing.cpp\<close>.  The results of the accepts are a list, in order;
  a call of \<open>run\<close> that would wait for one more is \<open>Diverge\<close>.
\<close>

section \<open>websocketBase.cpp\<close>

definition WebSocketServer_ctor :: "std_exception option \<Rightarrow> (std_exception, acceptor) outcome" where
  "WebSocketServer_ctor failure =
     (case failure of Some e \<Rightarrow> Throw e | None \<Rightarrow> Ret \<lparr>accepting = True, connections = 0\<rparr>)"

text \<open>
  \<open>io_service::run\<close> returns when nothing is pending: no accept, and no operation of a connection, which
  is what \<open>all_over\<close> says of the connections that were accepted.
\<close>

fun io_run :: "(bool \<Rightarrow> acceptor \<Rightarrow> acceptor) \<Rightarrow> bool \<Rightarrow> bool list \<Rightarrow> acceptor \<Rightarrow> (std_exception, acceptor) outcome" where
  "io_run handler all_over [] a =
     (if accepting a \<or> connections a \<noteq> 0 \<and> \<not> all_over then Diverge else Ret a)"
| "io_run handler all_over (ec # ecs) a =
     (if accepting a then io_run handler all_over ecs (handler ec a)
      else if connections a \<noteq> 0 \<and> \<not> all_over then Diverge else Ret a)"

text \<open>A program that catches \<open>std::exception\<close> and prints it.\<close>

definition catching :: "(std_exception, 'a) outcome \<Rightarrow> (std_exception, string + 'a) outcome" where
  "catching m =
     (case m of
        Ret x \<Rightarrow> Ret (Inr x)
      | Throw e \<Rightarrow> Ret (Inl (''Exception: '' @ what e @ [newline]))
      | Diverge \<Rightarrow> Diverge)"

definition test_websocket_server ::
  "std_exception option \<Rightarrow> bool \<Rightarrow> bool list \<Rightarrow> (std_exception, string + acceptor) outcome" where
  "test_websocket_server failure all_over ecs =
     catching (obind (WebSocketServer_ctor failure) (io_run start_accept_complete all_over ecs))"

text \<open>
  \<open>from_string\<close> is the library's parser of numeric addresses.  A connected client has its handler
  running; a failed connection starts none.
\<close>

definition WebSocketClient_ctor ::
  "(string \<Rightarrow> (std_exception, 'addr) outcome) \<Rightarrow> string \<Rightarrow> string \<Rightarrow> bool \<Rightarrow> (std_exception, ws option) outcome" where
  "WebSocketClient_ctor from_string address port connect_ec =
     obind (from_string address) (\<lambda>a. obind (stoi port) (\<lambda>p.
       Ret (if \<not> connect_ec then Some WebSocketClientHandler else None)))"

text \<open>The operations of a connected client complete one after the other; the list ends while one is pending.\<close>

fun client_run :: "(bool \<times> string) list \<Rightarrow> ws \<Rightarrow> (std_exception, ws) outcome" where
  "client_run rs w =
     (if phase w = Ws_end then Ret w
      else case rs of [] \<Rightarrow> Diverge | (ec, got) # rs' \<Rightarrow> client_run rs' (client_complete ec got w))"

definition test_websocket_client ::
  "(string \<Rightarrow> (std_exception, 'addr) outcome) \<Rightarrow> bool \<Rightarrow> (bool \<times> string) list
    \<Rightarrow> (std_exception, string + ws option) outcome" where
  "test_websocket_client from_string connect_ec completions =
     catching (obind (WebSocketClient_ctor from_string ''localhost'' ''8080'' connect_ec) (\<lambda>handler.
       case handler of None \<Rightarrow> Ret None | Some w \<Rightarrow> omap Some (client_run completions w)))"

definition websocket_main ::
  "std_exception option \<Rightarrow> bool \<Rightarrow> bool list \<Rightarrow> (string \<Rightarrow> (std_exception, 'addr) outcome) \<Rightarrow> bool \<Rightarrow>
   (bool \<times> string) list \<Rightarrow> (std_exception, (string + acceptor) \<times> (string + ws option)) outcome" where
  "websocket_main failure all_over ecs from_string connect_ec completions =
     obind (test_websocket_server failure all_over ecs) (\<lambda>server.
       omap (Pair server) (test_websocket_client from_string connect_ec completions))"

section \<open>beastWebsocketServer.cpp\<close>

text \<open>
  The result is the exit status with what was written to the error stream.  An accept is always pending, so that
  the service does not return while its handlers are defined.
\<close>

definition echo_main ::
  "nat \<Rightarrow> bool \<Rightarrow> bool \<Rightarrow> bool \<Rightarrow> bool \<Rightarrow> echo_event list \<Rightarrow> (ub, nat \<times> string) outcome" where
  "echo_main argc open_ec option_ec bind_ec listen_ec events =
     (if argc \<noteq> 3 then Ret (1, ''Usage: websocket_echo_server <address> <port>'' @ [newline])
      else case Server_setup open_ec option_ec bind_ec listen_ec of
             Ret server \<Rightarrow> obind (echo_run events server) (\<lambda>_. Diverge)
           | Throw e \<Rightarrow> Ret (0, ''Exception: '' @ what e @ [newline])
           | Diverge \<Rightarrow> Diverge)"

section \<open>websocket-somethingsMIssing.cpp\<close>

datatype client_phase = Client_reading | Client_writing | Client_over

record queue_client =
  client_phase :: client_phase
  client_delivered :: "string list"
  client_log :: "string list"

text \<open>The constructor resolves and connects with calls that throw; \<open>None\<close> is their success.\<close>

definition queue_client_ctor :: "std_exception option \<Rightarrow> (std_exception, queue_client) outcome" where
  "queue_client_ctor failure =
     (case failure of
        Some e \<Rightarrow> Throw e
      | None \<Rightarrow> Ret \<lparr>client_phase = Client_reading, client_delivered = [], client_log = []\<rparr>)"

definition queue_server_ctor :: "std_exception option \<Rightarrow> (std_exception, ws_queue) outcome" where
  "queue_server_ctor failure = (case failure of Some e \<Rightarrow> Throw e | None \<Rightarrow> Ret ws_queue_start)"

text \<open>Bytes that arrive are stored into the string literal of the request.\<close>

definition client_received :: "bool \<Rightarrow> string \<Rightarrow> queue_client \<Rightarrow> (ub, queue_client) outcome" where
  "client_received ec data c =
     (if data \<noteq> [] then Throw Write_to_literal
      else Ret (if \<not> ec then c\<lparr>client_delivered := client_delivered c @ [data], client_phase := Client_writing\<rparr>
                else c\<lparr>client_phase := Client_over\<rparr>))"

text \<open>The handler of the write logs and calls a \<open>start_accept\<close> that the client does not have.\<close>

definition client_sent :: "bool \<Rightarrow> queue_client \<Rightarrow> queue_client" where
  "client_sent ec c =
     (let c1 = c\<lparr>client_phase := Client_over\<rparr>
      in if \<not> ec then c1\<lparr>client_log := client_log c1 @ [''sent data'']\<rparr> else c1)"

text \<open>
  \<open>main\<close>: both objects are constructed, and the process sleeps and ends.  Neither object's
  \<open>io_service\<close> is ever run.
\<close>

definition queue_main ::
  "std_exception option \<Rightarrow> std_exception option \<Rightarrow> (std_exception, ws_queue \<times> queue_client \<times> string list) outcome" where
  "queue_main server_failure client_failure =
     obind (queue_server_ctor server_failure) (\<lambda>server.
     obind (queue_client_ctor client_failure) (\<lambda>client.
     Ret (server, client, [''server started'', ''client started''])))"

section \<open>Lemmas\<close>

lemma io_run_accept:
  "io_run handler all_over ecs a =
     (let b = run_accept handler ecs a in if accepting b \<or> connections b \<noteq> 0 \<and> \<not> all_over then Diverge else Ret b)"
  by (induction handler all_over ecs a rule: io_run.induct) (auto simp: Let_def)

lemma run_accept_all: "\<not> accepting (run_accept start_accept_complete ecs a) \<Longrightarrow> accepting a \<Longrightarrow> True \<in> set ecs"
  by (induction ecs arbitrary: a) (auto simp: start_accept_complete_def split: if_splits)

section \<open>Properties\<close>

text \<open>
  The program of \<open>websocketBase.cpp\<close> returns only if an accept of its server or the set-up of the server has
  failed; if the address parser refuses \<open>localhost\<close>, which is no numeric address, the client then ends with its
  exception and never connects.
\<close>

theorem websocket_main_returns:
  assumes "from_string ''localhost'' = Throw e"
  shows "(True \<notin> set ecs \<longrightarrow> websocket_main None all_over ecs from_string ec rs = Diverge)
    \<and> (\<forall>server client. websocket_main failure all_over ecs from_string ec rs = Ret (server, client) \<longrightarrow>
          client = Inl (''Exception: '' @ what e @ [newline]) \<and> (\<forall>a. server = Inr a \<longrightarrow> True \<in> set ecs))"
proof (intro conjI impI allI)
  assume "True \<notin> set ecs"
  then have "accepting (run_accept start_accept_complete ecs \<lparr>accepting = True, connections = 0\<rparr>)"
    using run_accept_all by fastforce
  then show "websocket_main None all_over ecs from_string ec rs = Diverge"
    by (simp add: websocket_main_def test_websocket_server_def catching_def WebSocketServer_ctor_def io_run_accept)
next
  fix server client
  assume ret: "websocket_main failure all_over ecs from_string ec rs = Ret (server, client)"
  then have "test_websocket_client from_string ec rs = Ret client" by (auto simp: websocket_main_def outcome_iff)
  with assms show "client = Inl (''Exception: '' @ what e @ [newline])"
    by (auto simp: test_websocket_client_def WebSocketClient_ctor_def catching_def)
  fix a assume "server = Inr a"
  with ret have "test_websocket_server failure all_over ecs = Ret (Inr a)" by (auto simp: websocket_main_def outcome_iff)
  then have "\<not> accepting (run_accept start_accept_complete ecs \<lparr>accepting = True, connections = 0\<rparr>)"
    by (auto simp: test_websocket_server_def catching_def WebSocketServer_ctor_def io_run_accept Let_def
        split: outcome.splits option.splits if_splits)
  then show "True \<in> set ecs" using run_accept_all by fastforce
qed

text \<open>
  The echo server returns only without having served anybody: with the wrong number of arguments it
  prints its usage and returns 1, a failed set-up is printed and gives status 0, and otherwise it accepts
  for ever or calls a handler of a destroyed session.
\<close>

theorem echo_main_outcomes:
  "(argc \<noteq> 3 \<longrightarrow> (\<exists>usage. echo_main argc open_ec option_ec bind_ec listen_ec events = Ret (1, usage)))
   \<and> (argc = 3 \<and> (open_ec \<or> option_ec \<or> bind_ec \<or> listen_ec) \<longrightarrow>
        (\<exists>err. echo_main argc open_ec option_ec bind_ec listen_ec events = Ret (0, ''Exception: '' @ err)))
   \<and> (argc = 3 \<and> \<not> (open_ec \<or> option_ec \<or> bind_ec \<or> listen_ec) \<longrightarrow>
        \<not> returns (echo_main argc open_ec option_ec bind_ec listen_ec events))"
  by (cases "echo_run events echo_start") (auto simp: echo_main_def Server_setup_def)

end
