(* ===== verification/Motor_Control.thy ===== *)
theory Motor_Control
  imports Machine Complex_Main
begin

text \<open>
  \<open>cjunk/practice/motorcontrol.hpp\<close>, \<open>kalmanFilter.cc\<close> and \<open>extendedKalanFilterBroken.cc\<close>: the
  integer matrices with their element-wise operators, and the filter equations.  The filters use a
  matrix product, a transpose and an inverse that the sources take from elsewhere; these are the
  fields of \<open>ops\<close>.
\<close>

section \<open>class Matrix\<close>

record matrix =
  m_n :: nat
  m_m :: nat
  m_data :: "int list list"

fun for_each :: "('a \<Rightarrow> (ub, 'b) outcome) \<Rightarrow> 'a list \<Rightarrow> (ub, 'b list) outcome" where
  "for_each f [] = Ret []"
| "for_each f (x # xs) = obind (f x) (\<lambda>y. omap (Cons y) (for_each f xs))"

definition Matrix_zero :: "nat \<Rightarrow> nat \<Rightarrow> matrix" where
  "Matrix_zero n m = \<lparr>m_n = n, m_m = m, m_data = replicate n (replicate m 0)\<rparr>"

definition Matrix_init :: "nat \<Rightarrow> nat \<Rightarrow> int \<Rightarrow> matrix" where
  "Matrix_init n m x = \<lparr>m_n = n, m_m = m, m_data = map (\<lambda>i. map (\<lambda>j. x) [0..<m]) [0..<n]\<rparr>"

text \<open>The array has one entry per column, but is indexed by the row.\<close>

definition Matrix_array :: "nat \<Rightarrow> nat \<Rightarrow> int list \<Rightarrow> (ub, matrix) outcome" where
  "Matrix_array n m xs =
     omap (\<lambda>rows. \<lparr>m_n = n, m_m = m, m_data = rows\<rparr>)
       (for_each (\<lambda>i. for_each (\<lambda>j. arr_get xs (int i)) [0..<m]) [0..<n])"

definition entry :: "matrix \<Rightarrow> nat \<Rightarrow> nat \<Rightarrow> (ub, int) outcome" where
  "entry a i j = obind (arr_get (m_data a) (int i)) (\<lambda>row. arr_get row (int j))"

text \<open>The loops shared by the three operators; they run over the left operand's dimensions.\<close>

definition elementwise :: "(int \<Rightarrow> int \<Rightarrow> int) \<Rightarrow> matrix \<Rightarrow> matrix \<Rightarrow> (ub, matrix) outcome" where
  "elementwise f a b =
     omap (\<lambda>rows. a\<lparr>m_data := rows\<rparr>)
       (for_each (\<lambda>i. for_each (\<lambda>j. obind (entry a i j) (\<lambda>x. obind (entry b i j) (\<lambda>y. int32 (f x y)))) [0..<m_m a]) [0..<m_n a])"

definition add_assign :: "matrix \<Rightarrow> matrix \<Rightarrow> (ub, matrix) outcome" where "add_assign = elementwise (+)"
definition sub_assign :: "matrix \<Rightarrow> matrix \<Rightarrow> (ub, matrix) outcome" where "sub_assign = elementwise (-)"
definition mul_assign :: "matrix \<Rightarrow> matrix \<Rightarrow> (ub, matrix) outcome" where "mul_assign = elementwise (*)"

text \<open>
  The filter and the transforms declare an array of \<open>n\<close> rows of \<open>n\<close> entries, all zero, and fill
  \<open>m\<close> entries of each row.
\<close>

definition fill_row :: "nat \<Rightarrow> int \<Rightarrow> int list \<Rightarrow> (ub, int list) outcome" where
  "fill_row m init row = foldl (\<lambda>r j. obind r (\<lambda>row'. arr_set row' (int j) init)) (Ret row) [0..<m]"

definition square_init :: "nat \<Rightarrow> nat \<Rightarrow> int \<Rightarrow> (ub, matrix) outcome" where
  "square_init n m init =
     omap (\<lambda>rows. \<lparr>m_n = n, m_m = m, m_data = rows\<rparr>) (for_each (\<lambda>i. fill_row m init (replicate n 0)) [0..<n])"

definition KalmanFilter_zero :: "nat \<Rightarrow> matrix" where "KalmanFilter_zero n = Matrix_zero n n"
definition ClarkeTransform_zero :: "nat \<Rightarrow> matrix" where "ClarkeTransform_zero n = Matrix_zero n n"
definition ParkTransform_zero :: "nat \<Rightarrow> matrix" where "ParkTransform_zero n = Matrix_zero n n"

definition KalmanFilter_init :: "nat \<Rightarrow> nat \<Rightarrow> int \<Rightarrow> (ub, matrix) outcome" where "KalmanFilter_init = square_init"
definition ClarkeTransform_init :: "nat \<Rightarrow> nat \<Rightarrow> int \<Rightarrow> (ub, matrix) outcome" where "ClarkeTransform_init = square_init"
definition ParkTransform_init :: "nat \<Rightarrow> nat \<Rightarrow> int \<Rightarrow> (ub, matrix) outcome" where "ParkTransform_init = square_init"

definition matrix_wf :: "matrix \<Rightarrow> bool" where
  "matrix_wf a \<longleftrightarrow> length (m_data a) = m_n a \<and> (\<forall>row \<in> set (m_data a). length row = m_m a)"

section \<open>The filters\<close>

record 'm ops =
  plus_m :: "'m \<Rightarrow> 'm \<Rightarrow> 'm"
  minus_m :: "'m \<Rightarrow> 'm \<Rightarrow> 'm"
  times_m :: "'m \<Rightarrow> 'm \<Rightarrow> 'm"
  transp :: "'m \<Rightarrow> 'm"
  inv_m :: "'m \<Rightarrow> 'm"
  ident :: 'm

text \<open>\<open>operator()\<close> of the filter of \<open>motorcontrol.hpp\<close>: the new state and covariance.\<close>

definition KalmanFilter_call :: "'m ops \<Rightarrow> 'm \<Rightarrow> 'm \<Rightarrow> 'm \<Rightarrow> 'm \<Rightarrow> 'm \<Rightarrow> 'm \<Rightarrow> 'm \<Rightarrow> 'm \<times> 'm" where
  "KalmanFilter_call M x P F Q H R u =
     (let x1 = plus_m M (times_m M F x) u;
          P1 = plus_m M (times_m M (times_m M F P) (transp M F)) Q;
          y = times_m M H x1;
          S = plus_m M (times_m M (times_m M H P1) (transp M H)) R;
          K = times_m M (times_m M P1 (transp M H)) (inv_m M S);
          x2 = plus_m M x1 (times_m M K (minus_m M y (times_m M H x1)));
          P2 = times_m M (minus_m M (ident M) (times_m M K H)) P1
      in (x2, P2))"

text \<open>The two coordinate transforms have the same body.\<close>

definition ClarkeTransform_call :: "'m ops \<Rightarrow> 'm \<Rightarrow> 'm \<Rightarrow> 'm \<Rightarrow> 'm \<Rightarrow> 'm \<Rightarrow> 'm \<Rightarrow> 'm \<Rightarrow> 'm \<times> 'm" where
  "ClarkeTransform_call M x P F Q H R u = KalmanFilter_call M x P F Q H R u"

definition ParkTransform_call :: "'m ops \<Rightarrow> 'm \<Rightarrow> 'm \<Rightarrow> 'm \<Rightarrow> 'm \<Rightarrow> 'm \<Rightarrow> 'm \<Rightarrow> 'm \<Rightarrow> 'm \<times> 'm" where
  "ParkTransform_call M x P F Q H R u = KalmanFilter_call M x P F Q H R u"

text \<open>The tests run them on matrices of zeros.\<close>

definition test_filter :: "matrix ops \<Rightarrow> matrix \<times> matrix" where
  "test_filter M = (let Z = Matrix_init 3 3 0 in KalmanFilter_call M Z Z Z Z Z Z Z)"

definition test_park :: "matrix ops \<Rightarrow> matrix \<times> matrix" where
  "test_park M = (let Z = Matrix_init 3 3 0 in ParkTransform_call M Z Z Z Z Z Z Z)"

text \<open>\<open>kalmanFilter.cc\<close>: the model gives the transition \<open>f\<close>, the observation \<open>h\<close>, their derivatives and the noise.\<close>

record 'm model =
  mod_f :: "'m \<Rightarrow> 'm"
  mod_F :: "'m \<Rightarrow> 'm"
  mod_h :: "'m \<Rightarrow> 'm"
  mod_H :: "'m \<Rightarrow> 'm"
  mod_Q :: 'm
  mod_R :: 'm

record 'm filter_state =
  kf_x :: 'm
  kf_P :: 'm

definition kf_init :: "'m \<Rightarrow> 'm \<Rightarrow> 'm filter_state" where
  "kf_init x0 P0 = \<lparr>kf_x = x0, kf_P = P0\<rparr>"

definition kf_predict :: "'m ops \<Rightarrow> 'm model \<Rightarrow> 'm filter_state \<Rightarrow> 'm filter_state" where
  "kf_predict M mdl s =
     (let x = mod_f mdl (kf_x s)
      in \<lparr>kf_x = x, kf_P = plus_m M (times_m M (times_m M (mod_F mdl x) (kf_P s)) (transp M (mod_F mdl x))) (mod_Q mdl)\<rparr>)"

definition kf_update :: "'m ops \<Rightarrow> 'm model \<Rightarrow> 'm \<Rightarrow> 'm filter_state \<Rightarrow> 'm filter_state" where
  "kf_update M mdl z s =
     (let y = minus_m M z (mod_h mdl (kf_x s));
          H = mod_H mdl (kf_x s);
          S = plus_m M (times_m M (times_m M H (kf_P s)) (transp M H)) (mod_R mdl);
          K = times_m M (times_m M (kf_P s) (transp M H)) (inv_m M S)
      in \<lparr>kf_x = plus_m M (kf_x s) (times_m M K y),
          kf_P = times_m M (minus_m M (ident M) (times_m M K H)) (kf_P s)\<rparr>)"

text \<open>
  \<open>extendedKalanFilterBroken.cc\<close>: the filter over any model, whose state it refers to, the example
  model and the loop of \<open>main\<close>.  The example model has no \<open>update_state\<close>; its call leaves the state as it is.
\<close>

record ('z, 'm) filter_model =
  model_predict :: "real \<Rightarrow> 'm \<Rightarrow> 'm"
  model_update_state :: "'m \<Rightarrow> 'm"
  model_update :: "'z \<Rightarrow> 'm \<Rightarrow> 'm"

definition ExtendedKalmanFilter_predict :: "('z, 'm) filter_model \<Rightarrow> real \<Rightarrow> 'm \<Rightarrow> 'm" where
  "ExtendedKalmanFilter_predict M dt m = model_update_state M (model_predict M dt m)"

definition ExtendedKalmanFilter_update :: "('z, 'm) filter_model \<Rightarrow> 'z \<Rightarrow> 'm \<Rightarrow> 'm" where
  "ExtendedKalmanFilter_update M z m = model_update M z m"

definition ExampleModel_init :: "real list" where
  "ExampleModel_init = [0, 0, 0]"

definition ExampleModel_predict :: "real \<Rightarrow> real list \<Rightarrow> real list" where
  "ExampleModel_predict dt state = map (\<lambda>x. x + dt * x) state"

definition ExampleModel_update :: "real list \<Rightarrow> real list \<Rightarrow> real list" where
  "ExampleModel_update z state = z"

definition example_model :: "(real list, real list) filter_model" where
  "example_model = \<lparr>model_predict = ExampleModel_predict, model_update_state = (\<lambda>m. m), model_update = ExampleModel_update\<rparr>"

fun ekf_loop :: "('z, 'm) filter_model \<Rightarrow> 'z list \<Rightarrow> 'm \<Rightarrow> 'm list" where
  "ekf_loop M [] m = []"
| "ekf_loop M (z # zs) m =
     (let m' = ExtendedKalmanFilter_update M z (ExtendedKalmanFilter_predict M 1 m) in m' # ekf_loop M zs m')"

definition ekf_main :: "real list list \<Rightarrow> real list list" where
  "ekf_main measurements = ekf_loop example_model measurements ExampleModel_init"

text \<open>One-dimensional systems: the operations on real numbers.\<close>

definition real_ops :: "real ops" where
  "real_ops = \<lparr>plus_m = (+), minus_m = (-), times_m = (*), transp = (\<lambda>x. x), inv_m = inverse, ident = 1\<rparr>"

section \<open>Lemmas\<close>

lemma for_each_Ret:
  "(\<And>x. x \<in> set xs \<Longrightarrow> f x = Ret (g x)) \<Longrightarrow> for_each f xs = Ret (map g xs)"
  by (induction xs) simp_all

lemma for_each_Throw:
  "x \<in> set xs \<Longrightarrow> f x = Throw e \<Longrightarrow> \<forall>y \<in> set xs. f y \<noteq> Diverge \<and> (\<forall>e'. f y = Throw e' \<longrightarrow> e' = e) \<Longrightarrow>
     for_each f xs = Throw e"
proof (induction xs)
  case (Cons y xs)
  show ?case
  proof (cases "f y")
    case (Ret z)
    with Cons.prems(1,2) have "x \<in> set xs" by auto
    moreover have "\<forall>y \<in> set xs. f y \<noteq> Diverge \<and> (\<forall>e'. f y = Throw e' \<longrightarrow> e' = e)" using Cons.prems(3) by simp
    ultimately have "for_each f xs = Throw e" using Cons.IH Cons.prems(2) by blast
    with Ret show ?thesis by simp
  qed (use Cons.prems(3) in auto)
qed simp

lemma entry_wf: "matrix_wf a \<Longrightarrow> i < m_n a \<Longrightarrow> j < m_m a \<Longrightarrow> entry a i j = Ret (m_data a ! i ! j)"
  by (simp add: entry_def matrix_wf_def)

lemma Matrix_init_wf: "matrix_wf (Matrix_init n m x)"
  by (auto simp: matrix_wf_def Matrix_init_def)

lemma elementwise_Ret:
  assumes "matrix_wf a" "matrix_wf b" "m_n b = m_n a" "m_m b = m_m a"
    and "\<And>i j. i < m_n a \<Longrightarrow> j < m_m a \<Longrightarrow>
      INT_MIN \<le> f (m_data a ! i ! j) (m_data b ! i ! j) \<and> f (m_data a ! i ! j) (m_data b ! i ! j) \<le> INT_MAX"
  shows "elementwise f a b = Ret (a\<lparr>m_data := map (\<lambda>i. map (\<lambda>j. f (m_data a ! i ! j) (m_data b ! i ! j)) [0..<m_m a]) [0..<m_n a]\<rparr>)"
proof -
  have "for_each (\<lambda>j. obind (entry a i j) (\<lambda>x. obind (entry b i j) (\<lambda>y. int32 (f x y)))) [0..<m_m a]
      = Ret (map (\<lambda>j. f (m_data a ! i ! j) (m_data b ! i ! j)) [0..<m_m a])" if "i < m_n a" for i
    using assms that by (intro for_each_Ret) (simp add: entry_wf int32_Ret)
  then show ?thesis unfolding elementwise_def
    by (subst for_each_Ret [where g = "\<lambda>i. map (\<lambda>j. f (m_data a ! i ! j) (m_data b ! i ! j)) [0..<m_m a]"]) simp_all
qed

lemma grid_wf: "matrix_wf a \<Longrightarrow> map (\<lambda>i. map (\<lambda>j. m_data a ! i ! j) [0..<m_m a]) [0..<m_n a] = m_data a"
  by (auto simp: matrix_wf_def intro!: nth_equalityI)

section \<open>Properties\<close>

text \<open>
  adding a matrix of the same dimensions and then subtracting it gives the first matrix back, provided
  no sum of two entries overflows.
\<close>

theorem matrix_add_sub:
  assumes "matrix_wf a" "matrix_wf b" "m_n b = m_n a" "m_m b = m_m a"
    and "\<forall>i < m_n a. \<forall>j < m_m a. INT_MIN \<le> m_data a ! i ! j \<and> m_data a ! i ! j \<le> INT_MAX
      \<and> INT_MIN \<le> m_data a ! i ! j + m_data b ! i ! j \<and> m_data a ! i ! j + m_data b ! i ! j \<le> INT_MAX"
  shows "obind (add_assign a b) (\<lambda>c. sub_assign c b) = Ret a"
proof -
  define c where "c = a\<lparr>m_data := map (\<lambda>i. map (\<lambda>j. m_data a ! i ! j + m_data b ! i ! j) [0..<m_m a]) [0..<m_n a]\<rparr>"
  have "add_assign a b = Ret c"
    unfolding add_assign_def c_def using assms by (intro elementwise_Ret) auto
  moreover have wf: "matrix_wf c" "m_n c = m_n a" "m_m c = m_m a" by (auto simp: c_def matrix_wf_def)
  have "sub_assign c b = Ret (c\<lparr>m_data := map (\<lambda>i. map (\<lambda>j. m_data c ! i ! j - m_data b ! i ! j) [0..<m_m c]) [0..<m_n c]\<rparr>)"
    unfolding sub_assign_def using assms wf by (intro elementwise_Ret) (simp_all add: c_def)
  moreover have "c\<lparr>m_data := map (\<lambda>i. map (\<lambda>j. m_data c ! i ! j - m_data b ! i ! j) [0..<m_m c]) [0..<m_n c]\<rparr> = a"
  proof -
    have "map (\<lambda>i. map (\<lambda>j. m_data c ! i ! j - m_data b ! i ! j) [0..<m_m c]) [0..<m_n c]
        = map (\<lambda>i. map (\<lambda>j. m_data a ! i ! j) [0..<m_m a]) [0..<m_n a]"
      unfolding wf(2,3) by (intro map_cong refl) (simp add: c_def)
    also have "\<dots> = m_data a" by (rule grid_wf [OF assms(1)])
    finally show ?thesis by (simp add: c_def)
  qed
  ultimately show ?thesis by simp
qed

theorem matrix_add_sub_witness:
  "obind (add_assign (Matrix_init 2 2 1) (Matrix_init 2 2 3)) (\<lambda>c. sub_assign c (Matrix_init 2 2 3)) = Ret (Matrix_init 2 2 1)"
  by (rule matrix_add_sub [OF Matrix_init_wf Matrix_init_wf]) (simp_all add: Matrix_init_def INT_MIN_def INT_MAX_def)

text \<open>
  constructing a matrix from an array reads outside the array whenever it has more rows than columns,
  because the array has a length per column and is indexed by the row.
\<close>

theorem matrix_array_bounds:
  assumes "length xs = m" "0 < m"
  shows "Matrix_array n m xs =
    (if n \<le> m then Ret \<lparr>m_n = n, m_m = m, m_data = map (\<lambda>i. replicate m (xs ! i)) [0..<n]\<rparr> else Throw Out_of_bounds)"
proof (cases "n \<le> m")
  case True
  have "for_each (\<lambda>j. arr_get xs (int i)) [0..<m] = Ret (replicate m (xs ! i))" if "i < n" for i
    using for_each_Ret [of "[0..<m]" "\<lambda>j. arr_get xs (int i)" "\<lambda>j. xs ! i"] that True assms(1) by (simp add: map_replicate_const)
  with True show ?thesis
    unfolding Matrix_array_def
    by (subst for_each_Ret [where g = "\<lambda>i. replicate m (xs ! i)"]) simp_all
next
  case False
  have "for_each (\<lambda>j. arr_get xs (int i)) [0..<m] = (if i < m then Ret (replicate m (xs ! i)) else Throw Out_of_bounds)" for i
    using for_each_Ret [of "[0..<m]" "\<lambda>j. arr_get xs (int i)" "\<lambda>j. xs ! i"] assms
    by (cases "i < m") (simp_all add: map_replicate_const arr_get_def upt_conv_Cons)
  with False have "for_each (\<lambda>i. for_each (\<lambda>j. arr_get xs (int i)) [0..<m]) [0..<n] = Throw Out_of_bounds"
    by (intro for_each_Throw [of m "[0..<n]" "\<lambda>i. for_each (\<lambda>j. arr_get xs (int i)) [0..<m]"]) simp_all
  with False show ?thesis by (simp add: Matrix_array_def)
qed

theorem matrix_array_bounds_witness: "Matrix_array 2 1 [5] = Throw Out_of_bounds"
  using matrix_array_bounds [of "[5]" 1 2] by simp

text \<open>
  the filter of \<open>motorcontrol.hpp\<close> never corrects its prediction: the innovation subtracts the
  predicted observation from itself, so whatever the covariances and the gain are, the new state is the
  prediction \<open>F x + u\<close>.  The two coordinate transforms do the same.
\<close>

theorem motor_filter_no_correction:
  assumes "\<And>a. minus_m M a a = z" "\<And>a. times_m M a z = z" "\<And>a. plus_m M a z = a"
  shows "fst (KalmanFilter_call M x P F Q H R u) = plus_m M (times_m M F x) u
    \<and> fst (ParkTransform_call M x P F Q H R u) = plus_m M (times_m M F x) u
    \<and> fst (ClarkeTransform_call M x P F Q H R u) = plus_m M (times_m M F x) u"
  by (simp add: KalmanFilter_call_def ParkTransform_call_def ClarkeTransform_call_def Let_def assms)

theorem motor_filter_no_correction_witness:
  "fst (KalmanFilter_call real_ops 2 1 3 1 1 1 4) = 10"
  using motor_filter_no_correction [of real_ops 0 2 1 3 1 1 1 4] by (simp add: real_ops_def)

text \<open>
  for a one-dimensional system observed directly, an update moves the estimate to a weighted mean of
  itself and the measurement, and the variance shrinks to the harmonic combination
  \<open>P R / (P + R)\<close>, below both the variance before and that of the measurement.
\<close>

theorem kalman_update_scalar:
  assumes "mod_h mdl = (\<lambda>x. x)" "mod_H mdl = (\<lambda>_. 1)" "0 < kf_P s" "0 < mod_R mdl"
  shows "kf_x (kf_update real_ops mdl z s) = (mod_R mdl * kf_x s + kf_P s * z) / (kf_P s + mod_R mdl)
    \<and> kf_P (kf_update real_ops mdl z s) = kf_P s * mod_R mdl / (kf_P s + mod_R mdl)
    \<and> kf_P (kf_update real_ops mdl z s) < kf_P s \<and> kf_P (kf_update real_ops mdl z s) < mod_R mdl"
proof -
  define p r x where "p = kf_P s" and "r = mod_R mdl" and "x = kf_x s"
  have pos: "0 < p" "0 < r" using assms(3,4) by (simp_all add: p_def r_def)
  have upd: "kf_x (kf_update real_ops mdl z s) = x + p * inverse (p + r) * (z - x)"
    "kf_P (kf_update real_ops mdl z s) = (1 - p * inverse (p + r)) * p"
    by (simp_all add: kf_update_def real_ops_def assms(1,2) Let_def p_def r_def x_def)
  have "x + p * inverse (p + r) * (z - x) = (r * x + p * z) / (p + r)"
    using pos by (simp add: field_simps)
  moreover have P: "(1 - p * inverse (p + r)) * p = p * r / (p + r)"
    using pos by (simp add: field_simps)
  moreover have "p * r / (p + r) < p" "p * r / (p + r) < r" using pos by (simp_all add: field_simps)
  ultimately show ?thesis unfolding upd by (simp add: p_def r_def x_def)
qed

theorem kalman_update_scalar_witness:
  "kf_x (kf_update real_ops \<lparr>mod_f = (\<lambda>x. x), mod_F = (\<lambda>_. 1), mod_h = (\<lambda>x. x), mod_H = (\<lambda>_. 1), mod_Q = 0, mod_R = 1\<rparr>
     4 \<lparr>kf_x = 0, kf_P = 1\<rparr>) = 2"
  using kalman_update_scalar [of "\<lparr>mod_f = (\<lambda>x. x), mod_F = (\<lambda>_. 1), mod_h = (\<lambda>x. x), mod_H = (\<lambda>_. 1), mod_Q = 0, mod_R = 1\<rparr>"
      "\<lparr>kf_x = 0, kf_P = 1\<rparr>" 4]
  by simp

lemma ekf_loop_example: "ekf_loop example_model zs m = zs"
  by (induction zs arbitrary: m)
    (simp_all add: example_model_def ExtendedKalmanFilter_update_def ExampleModel_update_def Let_def)

text \<open>
  the program of the extended filter prints its measurements: an update replaces the state, so the
  predictions have no effect.
\<close>

theorem ekf_prints_measurements: "ekf_main zs = zs"
  by (simp add: ekf_main_def ekf_loop_example)

lemma fill_row_Ret: "m \<le> length row \<Longrightarrow> fill_row m x row = Ret (replicate m x @ drop m row)"
proof (induction m)
  case (Suc m)
  then have "drop m row = row ! m # drop (Suc m) row" by (simp add: Cons_nth_drop_Suc)
  with Suc show ?case
    by (simp add: fill_row_def arr_set_def list_update_append replicate_append_same [symmetric])
qed (simp add: fill_row_def)

lemma fill_row_overrun: "length row < m \<Longrightarrow> fill_row m x row = Throw Out_of_bounds"
proof (induction m)
  case (Suc m)
  then show ?case
    using fill_row_Ret [of m row x] by (cases "length row = m") (simp_all add: fill_row_def arr_set_def)
qed simp

lemma for_each_const: "for_each (\<lambda>i. Ret y) xs = Ret (map (\<lambda>_. y) xs)"
  by (induction xs) simp_all

text \<open>
  the filters and transforms are constructed only with at most as many columns as rows: a wider one
  writes behind the end of its first row.
\<close>

theorem filter_init_bounds:
  assumes "0 < n"
  shows "KalmanFilter_init n m x = (if m \<le> n
    then Ret \<lparr>m_n = n, m_m = m, m_data = replicate n (replicate m x @ replicate (n - m) 0)\<rparr> else Throw Out_of_bounds)"
proof (cases "m \<le> n")
  case True
  then show ?thesis
    by (simp add: KalmanFilter_init_def square_init_def fill_row_Ret for_each_const map_replicate_const)
next
  case False
  with assms show ?thesis
    by (cases n) (simp_all add: KalmanFilter_init_def square_init_def fill_row_overrun upt_conv_Cons del: upt_Suc)
qed

theorem filter_init_bounds_witness: "KalmanFilter_init 1 2 7 = Throw Out_of_bounds"
  using filter_init_bounds [of 1 2 7] by simp

end
