(* ===== verification/Udp_Sockets.thy ===== *)
theory Udp_Sockets
  imports Machine
begin

unbundle bit_operations_syntax

text \<open>
  The datagram sockets of \<open>cjunk/practice/UDPServer2.cc\<close> and \<open>UDPSocketServer.cc\<close>, and the terminal
  input functions of \<open>asyncio.cc\<close>.  Results of system calls are arguments; the open descriptors of
  the process are a list.  \<open>Exit n\<close> is the end of the process with status \<open>n\<close>.
\<close>

datatype stop = Exit nat | Undefined ub

section \<open>UDPServer2.cc\<close>

text \<open>The frame types with their codes, and the states of a receiving stream.\<close>

datatype FrameTypeNames =
    PADDING | PING | ACK | RESET_STREAM | STOP_SENDING | CRYPTO | NEW_TOKEN | STREAM | MAX_DATA
  | MAX_STREAM_DATA | MAX_STREAMS | DATA_BLOCKED | STREAM_DATA_BLOCKED | STREAMS_BLOCKED | NEW_CONNECTION_ID
  | RETIRE_CONNECTION_ID | PATH_CHALLANGE | PATH_RESPONSE | CONNECTION_CLOSE | HANDSHAKE_DONE

fun frame_code :: "FrameTypeNames \<Rightarrow> nat" where
  "frame_code PADDING = 0"
| "frame_code PING = 0x1"
| "frame_code ACK = 0x2"
| "frame_code RESET_STREAM = 0x4"
| "frame_code STOP_SENDING = 0x5"
| "frame_code CRYPTO = 0x6"
| "frame_code NEW_TOKEN = 0x7"
| "frame_code STREAM = 0x8"
| "frame_code MAX_DATA = 0x10"
| "frame_code MAX_STREAM_DATA = 0x11"
| "frame_code MAX_STREAMS = 0x12"
| "frame_code DATA_BLOCKED = 0x14"
| "frame_code STREAM_DATA_BLOCKED = 0x15"
| "frame_code STREAMS_BLOCKED = 0x16"
| "frame_code NEW_CONNECTION_ID = 0x18"
| "frame_code RETIRE_CONNECTION_ID = 0x19"
| "frame_code PATH_CHALLANGE = 0x1a"
| "frame_code PATH_RESPONSE = 0x1b"
| "frame_code CONNECTION_CLOSE = 0x1c"
| "frame_code HANDSHAKE_DONE = 0x1e"

datatype States =
  StateRecv | StateSizeKnown | StateDataReceived | StateDataRead | StateResetRecieved | StateResetRead

text \<open>\<open>sock\<close> is what \<open>socket\<close> returns, \<open>bound\<close> the result of \<open>bind\<close>.\<close>

definition Socket2_ctor :: "int \<Rightarrow> int \<Rightarrow> int list \<Rightarrow> (stop, int \<times> int list) outcome" where
  "Socket2_ctor sock bound fds =
     (if sock < 0 then Throw (Exit 1)
      else if bound < 0 then Throw (Exit 1)
      else Ret (sock, sock # fds))"

definition Socket2_dtor :: "int \<Rightarrow> int list \<Rightarrow> int list" where
  "Socket2_dtor sock fds = remove1 sock fds"

text \<open>
  The listening thread: \<open>m_running\<close> as each test of the loop finds it, with what \<open>recvfrom\<close> then
  returns, an error or a datagram, of which at most 1024 bytes are kept.  The result is what was
  handed to \<open>recv\<close>; a thread whose last call never returns is \<open>Diverge\<close>.
\<close>

fun SocketThread_run :: "(bool \<times> string option) list \<Rightarrow> (stop, string list) outcome" where
  "SocketThread_run [] = Diverge"
| "SocketThread_run ((m_running, r) # rs) =
     (if \<not> m_running then Ret []
      else case r of
        None \<Rightarrow> Throw (Exit 1)
      | Some datagram \<Rightarrow> omap (Cons (take 1024 datagram)) (SocketThread_run rs))"

text \<open>
  \<open>send\<close> ignores the result of \<open>sendto\<close>; what was handed to the system is recorded with its
  descriptor.
\<close>

definition Socket2_send :: "int \<Rightarrow> string \<Rightarrow> (int \<times> string) list \<Rightarrow> (int \<times> string) list" where
  "Socket2_send sock data sent = sent @ [(sock, data)]"

text \<open>The test without a thread: what was sent, and the open descriptors after it.\<close>

definition test_socket2 :: "int \<Rightarrow> int \<Rightarrow> int list \<Rightarrow> (stop, (int \<times> string) list \<times> int list) outcome" where
  "test_socket2 sock bound fds =
     obind (Socket2_ctor sock bound fds) (\<lambda>(s, open_fds).
     let sent = Socket2_send s ''hello'' [] in Ret (sent, Socket2_dtor s open_fds))"

text \<open>
  The thread object: its constructor starts the thread with \<open>m_running\<close> set, its destructor clears the
  flag and joins, and so returns what the run of the thread returns, or waits with it.  The argument is
  the course of that run; a test of the flag finds it false only after the destructor has cleared it.
\<close>

record socket_thread =
  st_socket :: int
  m_running :: bool
  st_joinable :: bool

definition SocketThread_ctor :: "int \<Rightarrow> socket_thread" where
  "SocketThread_ctor sock = \<lparr>st_socket = sock, m_running = True, st_joinable = True\<rparr>"

definition SocketThread_dtor ::
  "(bool \<times> string option) list \<Rightarrow> socket_thread \<Rightarrow> (stop, string list \<times> socket_thread) outcome" where
  "SocketThread_dtor course st =
     (let st1 = st\<lparr>m_running := False\<rparr>
      in omap (\<lambda>got. (got, st1\<lparr>st_joinable := False\<rparr>)) (SocketThread_run course))"

text \<open>The test with a thread: the lines its callback prints, what was sent and the open descriptors.\<close>

definition test_socket_thread ::
  "int \<Rightarrow> int \<Rightarrow> (bool \<times> string option) list \<Rightarrow> int list \<Rightarrow> (stop, string list \<times> (int \<times> string) list \<times> int list) outcome" where
  "test_socket_thread sock bound course fds =
     obind (Socket2_ctor sock bound fds) (\<lambda>(s, open_fds).
     let st = SocketThread_ctor s; sent = Socket2_send s ''hello'' []
     in obind (SocketThread_dtor course st) (\<lambda>(got, st').
        Ret (map (\<lambda>_. ''callback'') got, sent, Socket2_dtor s open_fds)))"

section \<open>UDPSocketServer.cc\<close>

text \<open>The data types of its frames, with their codes.\<close>

datatype DataType =
    kDataType_Padding | kDataType_PING | kDataType_ACK | kDataType_ResetStream | kDataType_StopSending
  | kDataType_Crypto | kDataType_NewToken | kDataType_Stream | kDataType_Max

fun datatype_code :: "DataType \<Rightarrow> nat" where
  "datatype_code kDataType_Padding = 0"
| "datatype_code kDataType_PING = 1"
| "datatype_code kDataType_ACK = 2"
| "datatype_code kDataType_ResetStream = 3"
| "datatype_code kDataType_StopSending = 4"
| "datatype_code kDataType_Crypto = 6"
| "datatype_code kDataType_NewToken = 7"
| "datatype_code kDataType_Stream = 8"
| "datatype_code kDataType_Max = 0x7fffffff"

record response =
  timestamp :: "16 word"
  channelName :: string
  response_type :: DataType

text \<open>
  The constructor reports a failed call and returns; only after all calls succeed does it keep the
  descriptor.  \<open>O_NONBLOCK\<close> is 0x800 on Linux.
\<close>

definition O_NONBLOCK :: "32 word" where "O_NONBLOCK = 0x800"

record udp_socket =
  u_sock :: "int option"
  u_flags :: "32 word"
  u_open :: "int list"
  u_err :: "string list"

definition udp_init :: "int list \<Rightarrow> udp_socket" where
  "udp_init fds = \<lparr>u_sock = None, u_flags = 0, u_open = fds, u_err = []\<rparr>"

definition fails :: "string \<Rightarrow> udp_socket \<Rightarrow> udp_socket" where
  "fails msg s = s\<lparr>u_err := u_err s @ [msg]\<rparr>"

definition Udp_ctor :: "int \<Rightarrow> int \<Rightarrow> (32 word) option \<Rightarrow> int \<Rightarrow> int list \<Rightarrow> udp_socket" where
  "Udp_ctor sock bound flags setfl fds =
     (let s0 = udp_init fds
      in if sock < 0 then fails ''socket() failed'' s0
      else let s1 = s0\<lparr>u_open := sock # fds\<rparr>
      in if bound < 0 then fails ''bind() failed'' s1
      else case flags of
        None \<Rightarrow> fails ''fcntl() failed'' s1
      | Some fl \<Rightarrow>
          if setfl < 0 then fails ''fcntl() failed'' s1
          else s1\<lparr>u_flags := fl OR O_NONBLOCK, u_sock := Some sock\<rparr>)"

text \<open>Using the descriptor when no constructor stored it reads an uninitialised member.\<close>

definition with_sock :: "(int \<Rightarrow> udp_socket) \<Rightarrow> udp_socket \<Rightarrow> (stop, udp_socket) outcome" where
  "with_sock f s = (case u_sock s of None \<Rightarrow> Throw (Undefined Uninitialised) | Some fd \<Rightarrow> Ret (f fd))"

definition Udp_send :: "int \<Rightarrow> udp_socket \<Rightarrow> (stop, udp_socket) outcome" where
  "Udp_send n s = with_sock (\<lambda>_. if n < 0 then fails ''send() failed'' s else s) s"

definition Udp_receive :: "int \<Rightarrow> udp_socket \<Rightarrow> (stop, udp_socket) outcome" where
  "Udp_receive n s = with_sock (\<lambda>_. if n < 0 then fails ''recv() failed'' s else s) s"

definition Udp_close :: "udp_socket \<Rightarrow> (stop, udp_socket) outcome" where
  "Udp_close s = with_sock (\<lambda>fd. s\<lparr>u_open := remove1 fd (u_open s)\<rparr>) s"

definition udp_test :: "int \<Rightarrow> int \<Rightarrow> (32 word) option \<Rightarrow> int \<Rightarrow> int \<Rightarrow> int \<Rightarrow> int list \<Rightarrow> (stop, udp_socket) outcome" where
  "udp_test sock bound flags setfl sent recvd fds =
     obind (Udp_send sent (Udp_ctor sock bound flags setfl fds)) (\<lambda>s1.
     obind (Udp_receive recvd s1) Udp_close)"

section \<open>asyncio.cc\<close>

text \<open>
  The terminal and the input: local mode flags, file status flags and the characters waiting, of which
  none is available without a wait when the list is empty.
\<close>

record terminal =
  t_lflag :: "32 word"
  t_fl :: "32 word"
  t_input :: string

definition ICANON_ECHO :: "32 word" where "ICANON_ECHO = 0x2 OR 0x8"

definition set_lflag :: "32 word \<Rightarrow> terminal \<Rightarrow> terminal" where "set_lflag l t = t\<lparr>t_lflag := l\<rparr>"

definition set_fl :: "32 word \<Rightarrow> terminal \<Rightarrow> terminal" where "set_fl f t = t\<lparr>t_fl := f\<rparr>"

definition getchar :: "terminal \<Rightarrow> char option \<times> terminal" where
  "getchar t = (case t_input t of [] \<Rightarrow> (None, t) | c # cs \<Rightarrow> (Some c, t\<lparr>t_input := cs\<rparr>))"

definition ungetc :: "char \<Rightarrow> terminal \<Rightarrow> terminal" where "ungetc c t = t\<lparr>t_input := c # t_input t\<rparr>"

definition kbhit :: "terminal \<Rightarrow> bool \<times> terminal" where
  "kbhit t0 =
     (let oldt = t_lflag t0;
          newt = oldt AND NOT ICANON_ECHO;
          t1 = set_lflag newt t0;
          oldf = t_fl t1;
          t2 = set_fl (oldf OR O_NONBLOCK) t1;
          (ch, t3) = getchar t2;
          t4 = set_lflag oldt t3;
          t5 = set_fl oldf t4
      in case ch of
           Some c \<Rightarrow> (True, ungetc c t5)
         | None \<Rightarrow> (False, t5))"

text \<open>\<open>getch\<close> and \<open>getche\<close> return NUL at the end of the input; the second also writes the character.\<close>

definition getch :: "terminal \<Rightarrow> char \<times> terminal" where
  "getch t = (case t_input t of [] \<Rightarrow> (CHR 0x00, t) | c # cs \<Rightarrow> (c, t\<lparr>t_input := cs\<rparr>))"

definition getche :: "terminal \<Rightarrow> char \<times> string \<times> terminal" where
  "getche t = (let (buf, t') = getch t in (buf, [buf], t'))"

text \<open>The input loop: what \<open>running\<close> is at each test; it prints one line per round.\<close>

fun io_loop :: "bool list \<Rightarrow> terminal \<Rightarrow> (stop, string list \<times> terminal) outcome" where
  "io_loop [] t = Diverge"
| "io_loop (running # rs) t =
     (if running then omap (\<lambda>(out, t'). (''got input'' # out, t')) (io_loop rs (snd (getch t))) else Ret ([], t))"

text \<open>
  \<open>getline\<close> takes the characters up to a newline, which it drops.  \<open>main\<close> runs the loop on another
  thread and clears \<open>running\<close> after five seconds, so that the tests of the loop find it true some
  number of times and false from then on; a loop that waits for input then is never joined.
\<close>

definition getline :: "terminal \<Rightarrow> string \<times> terminal" where
  "getline t =
     (let line = takeWhile (\<lambda>c. c \<noteq> CHR 0x0A) (t_input t)
      in (line, t\<lparr>t_input := drop (length line + 1) (t_input t)\<rparr>))"

definition asyncio_main :: "bool list \<Rightarrow> terminal \<Rightarrow> (stop, string list \<times> terminal) outcome" where
  "asyncio_main tests t =
     omap (\<lambda>(out, t'). (out @ [''waiting for future to stop'', ''complete''], t')) (io_loop tests t)"

section \<open>Properties\<close>

text \<open>
  the constructor of \<open>UDPSocketServer.cc\<close> leaks: when any call after \<open>socket\<close> fails, the
  descriptor stays open while the object does not know it, and then every use of the object reads an
  uninitialised member.  When all calls succeed the test opens the descriptor, uses it and closes it again.
\<close>

theorem udp_socket_lifetime:
  assumes "0 \<le> sock"
  shows "if bound < 0 \<or> flags = None \<or> setfl < 0
    then u_open (Udp_ctor sock bound flags setfl fds) = sock # fds
      \<and> udp_test sock bound flags setfl sent recvd fds = Throw (Undefined Uninitialised)
    else \<exists>s. udp_test sock bound flags setfl sent recvd fds = Ret s \<and> u_open s = fds
      \<and> u_err s = (if sent < 0 then [''send() failed''] else []) @ (if recvd < 0 then [''recv() failed''] else [])
      \<and> bit (u_flags s) 11"
  using assms
  by (auto simp: Udp_ctor_def udp_test_def Udp_send_def Udp_receive_def Udp_close_def with_sock_def udp_init_def
      fails_def Let_def O_NONBLOCK_def bit_simps split: option.splits)

theorem udp_socket_lifetime_witness:
  "udp_test 3 (- 1) (Some 0) 0 5 5 [0, 1, 2] = Throw (Undefined Uninitialised)"
  using udp_socket_lifetime [of 3 "- 1" "Some 0" 0 "[0, 1, 2]" 5 5] by simp

text \<open>
  the listening thread hands on every datagram that arrives before it is stopped, in order and cut to
  1024 bytes, and it ends only when a test finds \<open>m_running\<close> false; an error of \<open>recvfrom\<close> before
  that ends the whole process.
\<close>

theorem socket_thread_delivers:
  "SocketThread_run (map (\<lambda>d. (True, Some d)) ds @ [(False, r)]) = Ret (map (take 1024) ds)
   \<and> SocketThread_run (map (\<lambda>d. (True, Some d)) ds @ (True, None) # rs) = Throw (Exit 1)
   \<and> SocketThread_run (map (\<lambda>d. (True, Some d)) ds) = Diverge"
  by (induction ds) auto

lemma frame_code_inj: "inj frame_code"
proof (rule injI)
  show "frame_code x = frame_code y \<Longrightarrow> x = y" for x y by (cases x; cases y) simp_all
qed

text \<open>Constants of an enumeration are compared by their codes.\<close>

instantiation FrameTypeNames :: linorder
begin

definition less_eq_FrameTypeNames :: "FrameTypeNames \<Rightarrow> FrameTypeNames \<Rightarrow> bool" where
  "x \<le> y \<longleftrightarrow> frame_code x \<le> frame_code y"

definition less_FrameTypeNames :: "FrameTypeNames \<Rightarrow> FrameTypeNames \<Rightarrow> bool" where
  "x < y \<longleftrightarrow> frame_code x < frame_code y"

instance
  by standard (auto simp: less_eq_FrameTypeNames_def less_FrameTypeNames_def dest: injD [OF frame_code_inj])

end

lemma SocketThread_run_Ret:
  "SocketThread_run course = Ret got \<Longrightarrow>
     \<exists>ds r rest. course = map (\<lambda>d. (True, Some d)) ds @ (False, r) # rest \<and> got = map (take 1024) ds"
proof (induction course arbitrary: got rule: SocketThread_run.induct)
  case (2 m_running r rs)
  show ?case
  proof (cases "m_running")
    case True
    with "2.prems" obtain d got' where d: "r = Some d" "SocketThread_run rs = Ret got'" "got = take 1024 d # got'"
      by (auto simp: outcome_iff split: option.splits)
    with "2.IH" True obtain ds q rest where "rs = map (\<lambda>d. (True, Some d)) ds @ (False, q) # rest" "got' = map (take 1024) ds"
      by blast
    with True d show ?thesis by (intro exI [of _ "d # ds"]) auto
  next
    case False
    with "2.prems" show ?thesis by (intro exI [of _ "[]"]) auto
  qed
qed simp

text \<open>
  the test of the listening thread ends in one of four ways: it ends the process when the socket
  cannot be opened or bound, or when a read fails; it returns, with the socket closed, one datagram sent and
  one line printed for each datagram received, only if a read came back after the destructor had cleared the
  flag; and otherwise it waits for ever, because the destructor does not wake the thread.
\<close>

theorem socket_thread_test:
  "(sock < 0 \<or> bound < 0 \<longrightarrow> test_socket_thread sock bound course fds = Throw (Exit 1))
   \<and> (\<forall>out sent fds'. test_socket_thread sock bound course fds = Ret (out, sent, fds') \<longrightarrow>
        fds' = fds \<and> sent = [(sock, ''hello'')]
        \<and> (\<exists>ds r rest. course = map (\<lambda>d. (True, Some d)) ds @ (False, r) # rest \<and> out = replicate (length ds) ''callback''))
   \<and> (0 \<le> sock \<and> 0 \<le> bound \<longrightarrow>
        test_socket_thread sock bound (map (\<lambda>d. (True, Some d)) ds) fds = Diverge
        \<and> test_socket_thread sock bound (map (\<lambda>d. (True, Some d)) ds @ (True, None) # rest) fds = Throw (Exit 1))"
proof (intro conjI impI allI)
  note defs = test_socket_thread_def Socket2_ctor_def SocketThread_dtor_def SocketThread_ctor_def Socket2_send_def
    Socket2_dtor_def Let_def
  show "test_socket_thread sock bound course fds = Throw (Exit 1)" if "sock < 0 \<or> bound < 0"
    using that by (auto simp: defs)
  have runs: "SocketThread_run (map (\<lambda>d. (True, Some d)) ds) = Diverge"
    "SocketThread_run (map (\<lambda>d. (True, Some d)) ds @ (True, None) # rest) = Throw (Exit 1)"
    by (induction ds) auto
  show "test_socket_thread sock bound (map (\<lambda>d. (True, Some d)) ds) fds = Diverge"
    "test_socket_thread sock bound (map (\<lambda>d. (True, Some d)) ds @ (True, None) # rest) fds = Throw (Exit 1)"
    if "0 \<le> sock \<and> 0 \<le> bound" using that by (simp_all add: defs runs)
  fix out sent fds'
  assume "test_socket_thread sock bound course fds = Ret (out, sent, fds')"
  then obtain got where got: "SocketThread_run course = Ret got" "fds' = fds" "sent = [(sock, ''hello'')]"
      "out = map (\<lambda>_. ''callback'') got"
    by (auto simp: defs outcome_iff split: if_splits)
  obtain es q tl where es: "course = map (\<lambda>d. (True, Some d)) es @ (False, q) # tl" "got = map (take 1024) es"
    using SocketThread_run_Ret [OF got(1)] by blast
  have "out = replicate (length es) ''callback''" using got(4) es(2) by (simp add: map_replicate_const)
  with got es(1) show "fds' = fds" "sent = [(sock, ''hello'')]"
    "\<exists>ds r rest. course = map (\<lambda>d. (True, Some d)) ds @ (False, r) # rest \<and> out = replicate (length ds) ''callback''"
    by blast+
qed

theorem socket_thread_test_witness:
  "test_socket_thread 4 0 [(True, Some ''hello'')] [0, 1, 2] = Diverge"
  using socket_thread_test [of 4 0 "[]" "[0, 1, 2]" "[''hello'']" "[]"] by simp

text \<open>
  \<open>kbhit\<close> leaves the terminal exactly as it was, with its modes restored and no character
  consumed, and says whether one is available.
\<close>

theorem kbhit_restores: "kbhit t = (t_input t \<noteq> [], t)"
  by (cases "t_input t") (simp_all add: kbhit_def getchar_def ungetc_def set_lflag_def set_fl_def Let_def)

text \<open>
  the input loop ends at the first test that finds \<open>running\<close> false and not before: it consumes one
  character per round, and none is ever printed.
\<close>

theorem io_loop_rounds:
  "io_loop (replicate n True @ [False]) t = Ret (replicate n ''got input'', t\<lparr>t_input := drop n (t_input t)\<rparr>)
   \<and> io_loop (replicate n True) t = Diverge"
proof (induction n arbitrary: t)
  case (Suc n)
  then show ?case by (cases "t_input t") (simp_all add: getch_def)
qed simp

end
