(* ===== verification/Image_Classifier.thy ===== *)
theory Image_Classifier
  imports Cxx_Lib Machine
begin

text \<open>
  \<open>cjunk/practice/ImageNeuralNetwork.cpp\<close>: reading the data sets, preparing the matrices for the
  network and measuring its accuracy.  The image functions and the network belong to OpenCV and are
  arguments: \<open>imread\<close> (\<open>None\<close> for an empty image), \<open>prepare\<close> (resizing and thresholding to an
  image of 28 times 28 bytes, as a list), the training of the network and its answer to a row, already
  converted to \<open>int\<close>.  The entries of the matrices are of any type \<open>'f\<close>, with the conversion
  \<open>flt\<close> of an integer to it.  \<open>exit(1)\<close> and \<open>return 1\<close> of \<open>main\<close> are
  \<open>Exit1\<close>, with the line printed.
\<close>

datatype classifier_stop =
    Exit1 string
  | Raised std_exception
  | Undef ub

section \<open>Image and DataSet\<close>

type_synonym image = "8 word list"

definition Image :: "(string \<Rightarrow> 'r option) \<Rightarrow> ('r \<Rightarrow> image) \<Rightarrow> string \<Rightarrow> (classifier_stop, image) outcome" where
  "Image imread prepare filename =
     (case imread filename of
        None \<Rightarrow> Throw (Exit1 (''Error: cannot open file '' @ filename))
      | Some raw \<Rightarrow> Ret (prepare raw))"

text \<open>\<open>ss >> word\<close> skips white space and takes the characters up to the next.\<close>

definition next_word :: "string \<Rightarrow> string \<times> string" where
  "next_word s = (let t = dropWhile isspace s in (takeWhile (\<lambda>c. \<not> isspace c) t, dropWhile (\<lambda>c. \<not> isspace c) t))"

definition raised :: "(std_exception, 'a) outcome \<Rightarrow> (classifier_stop, 'a) outcome" where
  "raised m = (case m of Ret x \<Rightarrow> Ret x | Throw e \<Rightarrow> Throw (Raised e) | Diverge \<Rightarrow> Diverge)"

record data_set =
  labels :: "int list"
  images :: "image list"

fun load_lines ::
  "(string \<Rightarrow> 'r option) \<Rightarrow> ('r \<Rightarrow> image) \<Rightarrow> string list \<Rightarrow> data_set \<Rightarrow> (classifier_stop, data_set) outcome" where
  "load_lines imread prepare [] d = Ret d"
| "load_lines imread prepare (line # ls) d =
     (let (label, ss) = next_word line
      in obind (raised (stoi label)) (\<lambda>i.
         let d1 = d\<lparr>labels := labels d @ [i]\<rparr>; (filename, ss') = next_word ss
         in obind (Image imread prepare filename) (\<lambda>im.
            load_lines imread prepare ls (d1\<lparr>images := images d1 @ [im]\<rparr>))))"

definition DataSet ::
  "(string \<Rightarrow> string list option) \<Rightarrow> (string \<Rightarrow> 'r option) \<Rightarrow> ('r \<Rightarrow> image) \<Rightarrow> string \<Rightarrow> (classifier_stop, data_set) outcome" where
  "DataSet open_file imread prepare filename =
     (case open_file filename of
        None \<Rightarrow> Throw (Exit1 (''Error: cannot open file '' @ filename))
      | Some ls \<Rightarrow> load_lines imread prepare ls \<lparr>labels = [], images = []\<rparr>)"

section \<open>NeuralNetwork\<close>

text \<open>
  The matrices are created without initialisation (\<open>garbage\<close> are their contents) and only the first
  column of each row is assigned.
\<close>

definition first_pixel :: "image \<Rightarrow> (classifier_stop, 8 word) outcome" where
  "first_pixel im = (case im of [] \<Rightarrow> Throw (Undef Out_of_bounds) | x # _ \<Rightarrow> Ret x)"

fun fill_rows :: "(int \<Rightarrow> 'f) \<Rightarrow> 'f list list \<Rightarrow> image list \<Rightarrow> (classifier_stop, 'f list list) outcome" where
  "fill_rows flt garbage [] = Ret garbage"
| "fill_rows flt [] (im # ims) = Throw (Undef Out_of_bounds)"
| "fill_rows flt (row # garbage) (im # ims) =
     obind (first_pixel im) (\<lambda>x. omap (Cons (row[0 := flt (uint x)])) (fill_rows flt garbage ims))"

definition train ::
  "(int \<Rightarrow> 'f) \<Rightarrow> (nat \<Rightarrow> nat \<Rightarrow> 'f list list) \<Rightarrow> ('f list list \<Rightarrow> 'f list \<Rightarrow> 'net) \<Rightarrow> data_set \<Rightarrow> (classifier_stop, 'net) outcome" where
  "train flt garbage net d =
     (case images d of
        [] \<Rightarrow> Throw (Undef Out_of_bounds)
      | im # _ \<Rightarrow> obind (fill_rows flt (garbage (length (images d)) (length im)) (images d)) (\<lambda>inputs.
          if length (labels d) < length (images d) then Throw (Undef Out_of_bounds)
          else Ret (net inputs (map flt (take (length (images d)) (labels d))))))"

definition predict ::
  "(int \<Rightarrow> 'f) \<Rightarrow> (nat \<Rightarrow> nat \<Rightarrow> 'f list list) \<Rightarrow> ('net \<Rightarrow> 'f list \<Rightarrow> int) \<Rightarrow> 'net \<Rightarrow> image \<Rightarrow> (classifier_stop, int) outcome" where
  "predict flt garbage answer network im =
     obind (fill_rows flt (garbage 1 (length im)) [im]) (\<lambda>inputs. Ret (answer network (hd inputs)))"

section \<open>main\<close>

fun count_correct :: "(image \<Rightarrow> (classifier_stop, int) outcome) \<Rightarrow> image list \<Rightarrow> int list \<Rightarrow> (classifier_stop, nat) outcome" where
  "count_correct p [] ls = Ret 0"
| "count_correct p (im # ims) [] = Throw (Undef Out_of_bounds)"
| "count_correct p (im # ims) (l # ls) =
     obind (p im) (\<lambda>label. omap (\<lambda>n. if label = l then n + 1 else n) (count_correct p ims ls))"

text \<open>The result is the number of correct answers and the number of images it is divided by.\<close>

definition classifier_main ::
  "(string \<Rightarrow> string list option) \<Rightarrow> (string \<Rightarrow> 'r option) \<Rightarrow> ('r \<Rightarrow> image) \<Rightarrow> (int \<Rightarrow> 'f) \<Rightarrow> (nat \<Rightarrow> nat \<Rightarrow> 'f list list) \<Rightarrow>
   ('f list list \<Rightarrow> 'f list \<Rightarrow> 'net) \<Rightarrow> ('net \<Rightarrow> 'f list \<Rightarrow> int) \<Rightarrow> string list \<Rightarrow> (classifier_stop, nat \<times> nat) outcome" where
  "classifier_main open_file imread prepare flt garbage net answer argv =
     (if length argv \<noteq> 3 then Throw (Exit1 (''Usage: '' @ concat (take 1 argv) @ '' train_file test_file''))
      else obind (DataSet open_file imread prepare (argv ! 1)) (\<lambda>training.
           obind (DataSet open_file imread prepare (argv ! 2)) (\<lambda>test.
           obind (train flt garbage net training) (\<lambda>network.
           omap (\<lambda>n. (n, length (images test)))
             (count_correct (predict flt garbage answer network) (images test) (labels test))))))"

section \<open>Lemmas\<close>

lemma to_string_not_space: "\<forall>c \<in> set (to_string i). \<not> isspace c"
  using nat_to_string_digits isdigit_not_space by (auto simp: to_string_def)

lemma next_word_plain:
  "w \<noteq> [] \<Longrightarrow> \<forall>c \<in> set w. \<not> isspace c \<Longrightarrow> isspace b \<Longrightarrow> next_word (w @ b # t) = (w, b # t)"
  by (cases w) (simp_all add: next_word_def Let_def takeWhile_append2 dropWhile_append2)

lemma next_word_last: "isspace b \<Longrightarrow> w \<noteq> [] \<Longrightarrow> \<forall>c \<in> set w. \<not> isspace c \<Longrightarrow> next_word (b # w) = (w, [])"
  by (cases w) (simp_all add: next_word_def Let_def)

lemma isspace_blank [simp]: "isspace (CHR '' '')"
  by (simp add: isspace_def)

lemma load_lines_append:
  "load_lines imread prepare ls d = Ret d' \<Longrightarrow>
     length (labels d') = length (labels d) + length ls \<and> length (images d') = length (images d) + length ls"
  by (induction ls arbitrary: d) (force simp: split_beta Let_def outcome_iff)+

lemma fill_rows_first:
  assumes "length g = length ims" "length h = length ims" "\<forall>im \<in> set ims. im \<noteq> []"
    and "\<forall>i < length ims. tl (g ! i) = tl (h ! i) \<and> g ! i \<noteq> [] \<and> h ! i \<noteq> []"
    and "map hd ims = map hd jms" "\<forall>im \<in> set jms. im \<noteq> []"
  shows "fill_rows flt g ims = fill_rows flt h jms \<and> returns (fill_rows flt g ims)"
  using assms
proof (induction ims arbitrary: g h jms)
  case Nil
  then show ?case by simp
next
  case (Cons im ims)
  obtain r g' where g: "g = r # g'" using Cons.prems(1) by (cases g) auto
  obtain q h' where h: "h = q # h'" using Cons.prems(2) by (cases h) auto
  obtain jm jms' where j: "jms = jm # jms'" using Cons.prems(5) by (cases jms) auto
  have heads: "im \<noteq> []" "jm \<noteq> []" "hd im = hd jm"
    using Cons.prems(3,5,6) j by simp_all
  have rows: "tl r = tl q" "r \<noteq> []" "q \<noteq> []" using Cons.prems(4) g h by (auto dest: spec [of _ 0])
  have "fill_rows flt g' ims = fill_rows flt h' jms' \<and> returns (fill_rows flt g' ims)"
  proof (rule Cons.IH)
    show "\<forall>i < length ims. tl (g' ! i) = tl (h' ! i) \<and> g' ! i \<noteq> [] \<and> h' ! i \<noteq> []"
      using Cons.prems(4) g h by (auto dest: spec [of _ "Suc i" for i])
  qed (use Cons.prems g h j in auto)
  moreover have "r[0 := flt (uint (hd im))] = q[0 := flt (uint (hd jm))]"
    using rows heads(3) by (cases r; cases q) auto
  moreover have "first_pixel im = Ret (hd im)" "first_pixel jm = Ret (hd jm)"
    using heads(1,2) by (simp_all add: first_pixel_def split: list.split)
  moreover from calculation(1) obtain rows where "fill_rows flt h' jms' = Ret rows"
    by (metis returns_iff)
  ultimately show ?case by (simp add: g h j)
qed

section \<open>Properties\<close>

text \<open>
  loading a file whose lines are a label, a blank and a file name gives the labels and the prepared
  images in the order of the lines.
\<close>

theorem data_set_load:
  assumes "\<forall>(i, f) \<in> set items. INT_MIN \<le> i \<and> i \<le> INT_MAX \<and> f \<noteq> [] \<and> (\<forall>c \<in> set f. \<not> isspace c) \<and> imread f \<noteq> None"
    and "open_file name = Some (map (\<lambda>(i, f). to_string i @ CHR '' '' # f) items)"
  shows "DataSet open_file imread prepare name =
    Ret \<lparr>labels = map fst items, images = map (\<lambda>(i, f). prepare (the (imread f))) items\<rparr>"
proof -
  have "load_lines imread prepare (map (\<lambda>(i, f). to_string i @ CHR '' '' # f) items) d =
      Ret (d\<lparr>labels := labels d @ map fst items, images := images d @ map (\<lambda>(i, f). prepare (the (imread f))) items\<rparr>)" for d
    using assms(1)
  proof (induction items arbitrary: d)
    case (Cons item items)
    obtain i f where item: "item = (i, f)" by (cases item)
    with Cons.prems obtain raw where raw: "imread f = Some raw" by auto
    have "next_word (to_string i @ CHR '' '' # f) = (to_string i, CHR '' '' # f)"
      by (rule next_word_plain) (simp_all add: to_string_not_space)
    moreover have "next_word (CHR '' '' # f) = (f, [])" using Cons.prems item by (intro next_word_last) auto
    ultimately show ?case
      using Cons item raw by (simp add: stoi_to_string raised_def Image_def Let_def)
  qed simp
  with assms(2) show ?thesis by (simp add: DataSet_def)
qed

theorem data_set_load_witness:
  "DataSet (\<lambda>_. Some [''7 a.png'']) (\<lambda>f. Some f) (\<lambda>f. [1]) ''list'' = Ret \<lparr>labels = [7], images = [[1]]\<rparr>"
proof -
  have "to_string 7 = ''7''" by code_simp
  then show ?thesis
    using data_set_load [of "[(7, ''a.png'')]" "\<lambda>f. Some f" "\<lambda>_. Some [''7 a.png'']" "''list''" "\<lambda>f. [1]"]
    by (simp add: INT_MIN_def INT_MAX_def isspace_def)
qed

text \<open>
  the network sees nothing of an image but its first pixel: two images that agree there, whatever the
  other pixels are, give the same prediction, and so do two training sets that agree on all first pixels
  and labels, as far as the uninitialised rest of the matrices is the same.
\<close>

theorem classifier_first_pixel_only:
  assumes "x \<noteq> []" "y \<noteq> []" "hd x = hd y" "length x = length y"
    and "\<forall>n m. length (garbage n m) = n \<and> (0 < m \<longrightarrow> (\<forall>row \<in> set (garbage n m). row \<noteq> []))"
  shows "predict flt garbage answer network x = predict flt garbage answer network y
    \<and> returns (predict flt garbage answer network x)"
proof -
  have g: "length (garbage 1 (length x)) = 1" "\<forall>row \<in> set (garbage 1 (length x)). row \<noteq> []"
    using assms(1,5) by auto
  have "fill_rows flt (garbage 1 (length x)) [x] = fill_rows flt (garbage 1 (length x)) [y]
      \<and> returns (fill_rows flt (garbage 1 (length x)) [x])"
    by (rule fill_rows_first) (use assms(1-3) g in auto)
  moreover have "length y = length x" using assms(4) by simp
  moreover from calculation(1) obtain rows where "fill_rows flt (garbage 1 (length x)) [y] = Ret rows"
    by (metis returns_iff)
  ultimately show ?thesis by (simp add: predict_def)
qed

theorem classifier_first_pixel_only_witness:
  "predict id (\<lambda>n m. replicate n (replicate m 0)) (\<lambda>_ row. hd row) () [5, 1] =
   predict id (\<lambda>n m. replicate n (replicate m 0)) (\<lambda>_ row. hd row) () [5, 9]"
  using classifier_first_pixel_only [of "[5, 1]" "[5, 9]" "\<lambda>n m. replicate n (replicate m 0)" id "\<lambda>_ row. hd row" "()"]
  by simp

text \<open>
  the accuracy counts exactly the images whose predicted label is the stored one, and every data set
  that was loaded has as many labels as images, so that the count never leaves the label vector.
\<close>

theorem accuracy_counts:
  assumes "DataSet open_file imread prepare name = Ret d" "\<forall>im \<in> set (images d). p im = Ret (f im)"
  shows "length (labels d) = length (images d)
    \<and> count_correct p (images d) (labels d)
      = Ret (length (filter (\<lambda>(im, l). f im = l) (zip (images d) (labels d))))"
proof
  show len: "length (labels d) = length (images d)"
    using assms(1) by (auto simp: DataSet_def split: option.splits dest: load_lines_append)
  have "length ls = length ims \<Longrightarrow> \<forall>im \<in> set ims. p im = Ret (f im) \<Longrightarrow>
      count_correct p ims ls = Ret (length (filter (\<lambda>(im, l). f im = l) (zip ims ls)))" for ims ls
    by (induction p ims ls rule: count_correct.induct) auto
  with len assms(2) show "count_correct p (images d) (labels d)
      = Ret (length (filter (\<lambda>(im, l). f im = l) (zip (images d) (labels d))))" by simp
qed

theorem accuracy_counts_witness:
  "count_correct (\<lambda>im. Ret 7) [[1]] [7] = Ret 1"
proof -
  have "to_string 7 = ''7''" by code_simp
  then have d: "DataSet (\<lambda>_. Some [''7 a'']) (\<lambda>f. Some f) (\<lambda>f. [1]) ''list'' = Ret \<lparr>labels = [7], images = [[1]]\<rparr>"
    by code_simp
  show ?thesis using accuracy_counts [OF d, of "\<lambda>im. Ret 7" "\<lambda>im. 7"] by simp
qed

end
