(* ===== verification/Event_Handlers.thy ===== *)
theory Event_Handlers
  imports Step_System Cxx_Lib Machine
begin

text \<open>
  Programs that consist of callbacks and tasks: the call-back class of
  \<open>cjunk/practice/quicServer.cpp\<close>, the actor of \<open>cjunk/practice/actorReturningVoid.cc\<close> with its
  asynchronous calls, the task of \<open>cjunk/pocoJunk/main.cpp\<close>, \<open>cjunk/practice/isatty.cc\<close>, the
  interface test of \<open>cjunk/main.cpp\<close> and \<open>middleware/src/first.h\<close>.  A line written with
  \<open>std::endl\<close> is one string of a list.
\<close>

section \<open>quicServer.cpp\<close>

record quic_request =
  req_method :: string
  path :: string
  version :: string
  host :: string
  content_type :: string
  req_body :: string
  req_header :: string
  response :: string
  response_header :: string
  response_body :: string
  response_status :: string

record quic_response =
  status :: string
  header :: string
  body :: string

text \<open>
  What the constructors hand to the base class, the address and the configuration the server is started
  with, the lines printed and the objects whose visitors are set to the server.
\<close>

datatype quic_object = Connection nat | Session nat | Stream nat

record 'c quic_server =
  base_config :: 'c
  base_files :: "string \<times> string \<times> string"
  started :: "string \<times> 'c"
  printed :: "string list"
  debug_visitor :: "quic_object list"
  visitor :: "quic_object list"

definition QuicServer_config :: "'c \<Rightarrow> string \<Rightarrow> 'c \<Rightarrow> string \<Rightarrow> string \<Rightarrow> string \<Rightarrow> 'c quic_server" where
  "QuicServer_config default_config server_address config config_file cert_file key_file =
     \<lparr>base_config = default_config, base_files = (config_file, cert_file, key_file),
      started = (server_address, config), printed = [], debug_visitor = [], visitor = []\<rparr>"

definition QuicServer :: "'c \<Rightarrow> string \<Rightarrow> string \<Rightarrow> string \<Rightarrow> string \<Rightarrow> 'c quic_server" where
  "QuicServer default_config server_address config_file cert_file key_file =
     QuicServer_config default_config server_address default_config config_file cert_file key_file"

definition says :: "string \<Rightarrow> 'c quic_server \<Rightarrow> 'c quic_server" where
  "says l q = q\<lparr>printed := printed q @ [l]\<rparr>"

definition visit_object :: "quic_object \<Rightarrow> 'c quic_server \<Rightarrow> 'c quic_server" where
  "visit_object x q = (let q1 = q\<lparr>debug_visitor := debug_visitor q @ [x]\<rparr> in q1\<lparr>visitor := visitor q1 @ [x]\<rparr>)"

text \<open>The call-backs, with the objects they are given; the remaining arguments are not used by the code.\<close>

datatype quic_event =
    OnConnection nat | OnSession nat | OnStream nat
  | OnSessionClosed nat | OnStreamClosed nat | OnSessionReady nat | OnStreamReady nat
  | OnSessionConnectTimeout nat | OnStreamConnectTimeout nat | OnSessionTicket nat | OnStreamFrame nat
  | OnRstStream | OnConnectionClose | OnApplicationClose
  | OnHandshakeDoneReceived nat | OnHandshakeDoneSent nat | OnConnectionClosed nat | OnWriteBlocked
  | OnMessageReceived nat | OnMessageSent nat

fun on_event :: "quic_event \<Rightarrow> 'c quic_server \<Rightarrow> 'c quic_server" where
  "on_event (OnConnection c) q = visit_object (Connection c) (says ''OnConnection'' q)"
| "on_event (OnSession s) q = visit_object (Session s) (says ''OnSession'' q)"
| "on_event (OnStream s) q = visit_object (Stream s) (says ''OnStream'' q)"
| "on_event (OnSessionClosed s) q = says ''OnSessionClosed'' q"
| "on_event (OnStreamClosed s) q = says ''OnStreamClosed'' q"
| "on_event (OnSessionReady s) q = says ''OnSessionReady'' q"
| "on_event (OnStreamReady s) q = says ''OnStreamReady'' q"
| "on_event (OnSessionConnectTimeout s) q = says ''OnSessionConnectTimeout'' q"
| "on_event (OnStreamConnectTimeout s) q = says ''OnStreamConnectTimeout'' q"
| "on_event (OnSessionTicket s) q = says ''OnSessionTicket'' q"
| "on_event (OnStreamFrame s) q = says ''OnStreamFrame'' q"
| "on_event OnRstStream q = says ''OnRstStream'' q"
| "on_event OnConnectionClose q = says ''OnConnectionClose'' q"
| "on_event OnApplicationClose q = says ''OnApplicationClose'' q"
| "on_event (OnHandshakeDoneReceived c) q = says ''OnHandshakeDoneReceived'' q"
| "on_event (OnHandshakeDoneSent c) q = says ''OnHandshakeDoneSent'' q"
| "on_event (OnConnectionClosed c) q = says ''OnConnectionClosed'' q"
| "on_event OnWriteBlocked q = says ''OnWriteBlocked'' q"
| "on_event (OnMessageReceived c) q = says ''OnMessageReceived'' q"
| "on_event (OnMessageSent c) q = says ''OnMessageSent'' q"

definition quic_run :: "quic_event list \<Rightarrow> 'c quic_server \<Rightarrow> 'c quic_server" where
  "quic_run es q = fold on_event es q"

fun announced :: "quic_event \<Rightarrow> quic_object list" where
  "announced (OnConnection c) = [Connection c]"
| "announced (OnSession s) = [Session s]"
| "announced (OnStream s) = [Stream s]"
| "announced _ = []"

section \<open>actorReturningVoid.cc\<close>

text \<open>
  The call operator of \<open>Foo\<close> makes three insertions into the stream.  An actor holds a shared pointer,
  \<open>None\<close> when it is null.
\<close>

definition Foo_call :: "int \<Rightarrow> string list" where
  "Foo_call i = [''Foo: '', to_string i, [newline]]"

definition make_actor :: "('a \<Rightarrow> string list) option \<Rightarrow> ('a \<Rightarrow> string list) option" where
  "make_actor ptr = ptr"

definition Actor_call :: "('a \<Rightarrow> string list) option \<Rightarrow> 'a \<Rightarrow> (ub, string list) outcome" where
  "Actor_call ptr args = (case ptr of None \<Rightarrow> Throw Null_dereference | Some f \<Rightarrow> Ret (f args))"

definition call_actor :: "('a \<Rightarrow> string list) option \<Rightarrow> 'a \<Rightarrow> (ub, string list) outcome" where
  "call_actor ptr args = Actor_call ptr args"

text \<open>
  \<open>main\<close> after its first call: the insertions made so far, each with the asynchronous call that made it (\<open>None\<close>
  for the first, synchronous one), those that each started call has still to make, and where \<open>main\<close> itself
  stands: in the loop that starts the calls, before the wait for call \<open>k\<close>, or at its end.  The calls run on
  threads of their own, so that any of them, or \<open>main\<close>, may take the next step.
\<close>

datatype main_at = Launching | Waiting nat | Main_end

record actor_main =
  inserted :: "(nat option \<times> string) list"
  tasks :: "string list list"
  main_at :: main_at

definition actor_main_start :: "(ub, actor_main) outcome" where
  "actor_main_start =
     (let actor = make_actor (Some Foo_call)
      in omap (\<lambda>first. \<lparr>inserted = map (Pair None) first, tasks = [], main_at = Launching\<rparr>) (call_actor actor 42))"

inductive actor_step :: "actor_main \<Rightarrow> actor_main \<Rightarrow> bool" where
  launch: "main_at s = Launching \<Longrightarrow> length (tasks s) < 10 \<Longrightarrow>
     call_actor (make_actor (Some Foo_call)) (int (length (tasks s))) = Ret t \<Longrightarrow>
     actor_step s (s\<lparr>tasks := tasks s @ [t]\<rparr>)"
| all_launched: "main_at s = Launching \<Longrightarrow> \<not> length (tasks s) < 10 \<Longrightarrow> actor_step s (s\<lparr>main_at := Waiting 0\<rparr>)"
| waited: "main_at s = Waiting k \<Longrightarrow> k < length (tasks s) \<Longrightarrow> tasks s ! k = [] \<Longrightarrow>
     actor_step s (s\<lparr>main_at := Waiting (Suc k)\<rparr>)"
| all_waited: "main_at s = Waiting k \<Longrightarrow> \<not> k < length (tasks s) \<Longrightarrow> actor_step s (s\<lparr>main_at := Main_end\<rparr>)"
| inserts: "i < length (tasks s) \<Longrightarrow> tasks s ! i = p # ps \<Longrightarrow>
     actor_step s (s\<lparr>inserted := inserted s @ [(Some i, p)], tasks := (tasks s)[i := ps]\<rparr>)"

inductive_cases actor_stepE: "actor_step s s'"

abbreviation actor_start :: "actor_main \<Rightarrow> bool" where
  "actor_start s \<equiv> actor_main_start = Ret s"

section \<open>pocoJunk/main.cpp\<close>

text \<open>
  The argument is what \<open>isCancelled\<close> returns at each test of the loop; a task that is never cancelled
  is \<open>Diverge\<close>.  The result is the final number of jumps.
\<close>

fun task_loop :: "bool list \<Rightarrow> int \<Rightarrow> (ub, int) outcome" where
  "task_loop [] jumps = Diverge"
| "task_loop (cancelled # cs) jumps =
     (if cancelled then Ret jumps else obind (int32 (jumps + 1)) (task_loop cs))"

definition runTask :: "string \<Rightarrow> bool list \<Rightarrow> (ub, string list) outcome" where
  "runTask name cs =
     omap (\<lambda>jumps. [''starting task '' @ name, name @ '' jumped '' @ to_string jumps @ ''times.'']) (task_loop cs 0)"

text \<open>What the program writes to the standard streams; the messages of the logger are Poco's.\<close>

definition task_from_pocoThreadPool :: "string list" where
  "task_from_pocoThreadPool = [''started t1.'', ''requested cancel t1.'']"

definition poco_main :: "string list" where
  "poco_main = [''log1''] @ task_from_pocoThreadPool @ [''log2'']"

text \<open>
  \<open>TEST_CASE\<close>, whose call is commented out: two tasks on the stack are started and cancelled.  The task
  manager owns the tasks it is given and deletes each when it has finished; each task is given with the place
  where it lives, and deleting one that is not on the heap is undefined.
\<close>

datatype task_storage = On_stack | On_heap

fun finish_tasks :: "(string \<times> task_storage) list \<Rightarrow> (ub, string list) outcome" where
  "finish_tasks [] = Ret []"
| "finish_tasks ((name, where_at) # ts) =
     (if where_at = On_heap then omap (Cons name) (finish_tasks ts) else Throw Use_after_close)"

definition poco_TEST_CASE :: "(ub, string list) outcome" where
  "poco_TEST_CASE = finish_tasks [(''first'', On_stack), (''second'', On_stack)]"

section \<open>isatty.cc, main.cpp, first.h\<close>

definition isatty_main :: "(nat \<Rightarrow> bool) \<Rightarrow> string list" where
  "isatty_main isatty =
     [if isatty 0 then ''stdin is a terminal'' else ''stdin is not a terminal'',
      if isatty 1 then ''stdout is a terminal'' else ''stdout is not a terminal'',
      if isatty 2 then ''stderr is a terminal'' else ''stderr is not a terminal'']"

definition log_text :: "string \<Rightarrow> string \<Rightarrow> string" where
  "log_text c out = out @ c"

definition I2cLibImpl_ctor :: "string \<Rightarrow> string" where
  "I2cLibImpl_ctor out = log_text ''lib constructor'' out"

definition I2cLibImpl_dtor :: "string \<Rightarrow> string" where
  "I2cLibImpl_dtor out = log_text ''lib destructor'' out"

definition I2cInterface_read :: "8 word \<Rightarrow> string \<Rightarrow> string" where
  "I2cInterface_read addr out = out"

definition i2cTest :: "string \<Rightarrow> string" where
  "i2cTest out =
     I2cLibImpl_dtor (I2cInterface_read 0 (I2cLibImpl_ctor (out @ ''i2cTest'' @ [newline])))"

definition otherFunction :: "bool \<Rightarrow> string" where
  "otherFunction v = (if v then ''true'' else ''false'')"

section \<open>Lemmas\<close>

lemma on_event_visitors:
  "visitor (on_event e q) = visitor q @ announced e" "debug_visitor (on_event e q) = debug_visitor q @ announced e"
  "length (printed (on_event e q)) = Suc (length (printed q))"
  "base_config (on_event e q) = base_config q" "started (on_event e q) = started q"
  by (cases e; simp add: says_def visit_object_def Let_def)+

lemma call_Foo: "call_actor (make_actor (Some Foo_call)) i = Ret (Foo_call i)"
  by (simp add: call_actor_def make_actor_def Actor_call_def)

text \<open>What one call has inserted.\<close>

definition inserted_by :: "nat option \<Rightarrow> actor_main \<Rightarrow> string list" where
  "inserted_by c s = map snd (filter (\<lambda>x. fst x = c) (inserted s))"

definition calls_inv :: "actor_main \<Rightarrow> bool" where
  "calls_inv s \<longleftrightarrow> length (tasks s) \<le> 10 \<and> inserted_by None s = Foo_call 42
     \<and> (\<forall>i. length (tasks s) \<le> i \<longrightarrow> inserted_by (Some i) s = [])
     \<and> (\<forall>i < length (tasks s). inserted_by (Some i) s @ tasks s ! i = Foo_call (int i))
     \<and> (case main_at s of
          Launching \<Rightarrow> True
        | Waiting k \<Rightarrow> length (tasks s) = 10 \<and> k \<le> 10 \<and> (\<forall>i < k. tasks s ! i = [])
        | Main_end \<Rightarrow> length (tasks s) = 10 \<and> (\<forall>i < 10. tasks s ! i = []))"

definition calls_left :: "actor_main \<Rightarrow> nat" where
  "calls_left s = 4 * (10 - length (tasks s)) + sum_list (map length (tasks s))
     + (case main_at s of Launching \<Rightarrow> 12 | Waiting k \<Rightarrow> 11 - k | Main_end \<Rightarrow> 0)"

lemma actor_start_state:
  "actor_start s \<longleftrightarrow> s = \<lparr>inserted = map (Pair None) (Foo_call 42), tasks = [], main_at = Launching\<rparr>"
  by (auto simp: actor_main_start_def call_Foo)

lemma calls_inv_start: "actor_start s \<Longrightarrow> calls_inv s"
  unfolding actor_start_state by (simp add: calls_inv_def inserted_by_def filter_map comp_def)

lemma inserted_by_update [simp]:
  "inserted_by c (s\<lparr>tasks := ts\<rparr>) = inserted_by c s" "inserted_by c (s\<lparr>main_at := a\<rparr>) = inserted_by c s"
  "inserted_by c (s\<lparr>inserted := inserted s @ [(Some i, p)]\<rparr>)
    = inserted_by c s @ (if c = Some i then [p] else [])"
  by (simp_all add: inserted_by_def)

lemma calls_inv_insert:
  assumes inv: "calls_inv s" and i: "i < length (tasks s)" "tasks s ! i = p # ps"
  shows "calls_inv (s\<lparr>inserted := inserted s @ [(Some i, p)], tasks := (tasks s)[i := ps]\<rparr>)"
proof -
  have "inserted_by (Some i) s @ p # ps = Foo_call (int i)" using inv i by (auto simp: calls_inv_def)
  moreover have "\<not> (main_at s = Waiting k \<and> i < k)" "main_at s \<noteq> Main_end" for k
    using inv i by (auto simp: calls_inv_def)
  ultimately show ?thesis
    using inv i by (auto simp: calls_inv_def nth_list_update split: main_at.splits)
qed

lemma calls_inv_step:
  assumes "calls_inv s" "actor_step s s'"
  shows "calls_inv s'"
  using assms(2)
proof cases
  case (launch t)
  then show ?thesis using assms(1) by (auto simp: calls_inv_def call_Foo nth_append less_Suc_eq)
next
  case (waited k)
  then show ?thesis using assms(1) by (auto simp: calls_inv_def less_Suc_eq)
next
  case (inserts i p ps)
  then show ?thesis using calls_inv_insert [OF assms(1)] by simp
qed (use assms(1) in \<open>auto simp: calls_inv_def\<close>)

lemma calls_left_step:
  assumes "calls_inv s" "actor_step s s'"
  shows "calls_left s' < calls_left s"
  using assms(2)
proof cases
  case (launch t)
  then show ?thesis by (auto simp: calls_left_def call_Foo Foo_call_def)
next
  case (waited k)
  then show ?thesis using assms(1) by (auto simp: calls_left_def calls_inv_def)
next
  case (all_waited k)
  then show ?thesis using assms(1) by (auto simp: calls_left_def calls_inv_def)
next
  case (inserts i p ps)
  then have "0 < map length (tasks s) ! i" "map length (tasks s) ! i \<le> sum_list (map length (tasks s))"
    by (simp, intro elem_le_sum_list) simp
  with inserts show ?thesis by (simp add: calls_left_def map_update sum_list_update)
qed (auto simp: calls_left_def)

interpretation actor: step_measure actor_start actor_step calls_inv calls_left
  by unfold_locales (auto intro: calls_inv_start calls_inv_step calls_left_step)

lemma tasks_length:
  assumes "calls_inv s"
  shows "sum_list (map length (tasks s)) \<le> 3 * length (tasks s)"
proof -
  have "length (tasks s ! i) \<le> 3" if "i < length (tasks s)" for i
  proof -
    have "inserted_by (Some i) s @ tasks s ! i = Foo_call (int i)" using assms that by (simp add: calls_inv_def)
    from arg_cong [OF this, of length] show ?thesis by (simp add: Foo_call_def)
  qed
  then have "\<forall>t \<in> set (tasks s). length t \<le> 3" by (metis in_set_conv_nth)
  then have "sum_list (map length (tasks s)) \<le> sum_list (map (\<lambda>_. 3) (tasks s))" by (intro sum_list_mono) simp
  then show ?thesis by (simp add: sum_list_triv)
qed

lemma calls_inv_left: "calls_inv s \<Longrightarrow> calls_left s \<le> 52"
  using tasks_length [of s] by (auto simp: calls_left_def calls_inv_def split: main_at.splits)

lemma actor_stuck:
  assumes "\<not> (\<exists>u. actor_step s u)"
  shows "main_at s = Main_end"
proof (rule ccontr)
  assume "main_at s \<noteq> Main_end"
  then consider "main_at s = Launching" | k where "main_at s = Waiting k" by (cases "main_at s") auto
  then show False
  proof cases
    case 1
    then show False using assms launch [OF 1 _ call_Foo] all_launched [OF 1] by blast
  next
    case (2 k)
    then show False
      using assms waited [OF 2] all_waited [OF 2] inserts [of k s] by (cases "tasks s ! k") blast+
  qed
qed

section \<open>Properties\<close>

text \<open>
  after any sequence of call-backs the server visits exactly the connections, sessions and streams
  that were announced to it, both as visitor and as debug visitor, and has printed one line for each
  call-back.  Its base class keeps the default configuration; only the start sees the one it was given.
\<close>

theorem quic_visits_announced:
  assumes "q = quic_run es (QuicServer_config default_config address config cf cert key)"
  shows "set (visitor q) = (\<Union>e \<in> set es. set (announced e)) \<and> debug_visitor q = visitor q
    \<and> length (printed q) = length es \<and> base_config q = default_config \<and> started q = (address, config)"
proof -
  have "visitor (quic_run es r) = visitor r @ concat (map announced es)
      \<and> debug_visitor (quic_run es r) = debug_visitor r @ concat (map announced es)
      \<and> length (printed (quic_run es r)) = length (printed r) + length es
      \<and> base_config (quic_run es r) = base_config r \<and> started (quic_run es r) = started r" for r :: "'a quic_server"
    by (induction es arbitrary: r) (simp_all add: quic_run_def on_event_visitors)
  then show ?thesis by (simp add: assms QuicServer_config_def)
qed

theorem quic_visits_announced_witness:
  "\<exists>q. q = quic_run [OnConnection 1, OnMessageSent 1, OnStream 2] (QuicServer_config (0 :: nat) ''a'' 5 ''c'' ''d'' ''e'')
     \<and> set (visitor q) = {Connection 1, Stream 2} \<and> length (printed q) = 3 \<and> base_config q = 0"
  using quic_visits_announced [OF refl, of "[OnConnection 1, OnMessageSent 1, OnStream 2]" "0 :: nat" "''a''" 5 "''c''" "''d''" "''e''"]
  by auto

text \<open>
  C21: however the ten asynchronous calls and \<open>main\<close> interleave, call \<open>i\<close> makes the insertions \<open>"Foo: "\<close>, the
  number \<open>i\<close> and the end of the line in this order, next to those of the call with 42 that comes first; no
  execution takes more than 52 steps, none gets stuck before \<open>main\<close> has waited for all calls, and at the end of
  \<open>main\<close> every call has made all its insertions.  (The insertions of different calls may mix within a line.)
\<close>

theorem actor_calls_complete:
  assumes "reachable actor_start actor_step s"
  shows "inserted_by None s = [''Foo: '', ''42'', [newline]]
    \<and> (\<forall>i < 10. \<exists>k. inserted_by (Some i) s = take k [''Foo: '', to_string (int i), [newline]])
    \<and> (\<forall>n t. (actor_step ^^ n) s t \<longrightarrow> n \<le> 52)
    \<and> (\<not> (\<exists>u. actor_step s u) \<longrightarrow> main_at s = Main_end)
    \<and> (main_at s = Main_end \<longrightarrow> (\<forall>i < 10. inserted_by (Some i) s = [''Foo: '', to_string (int i), [newline]]))"
proof (intro conjI)
  note inv = actor.reachable_inv [OF assms]
  have text_42: "to_string 42 = ''42''" by code_simp
  show "inserted_by None s = [''Foo: '', ''42'', [newline]]"
    using inv text_42 by (simp add: calls_inv_def Foo_call_def)
  show "\<forall>i < 10. \<exists>k. inserted_by (Some i) s = take k [''Foo: '', to_string (int i), [newline]]"
  proof (intro allI impI)
    fix i :: nat assume "i < 10"
    show "\<exists>k. inserted_by (Some i) s = take k [''Foo: '', to_string (int i), [newline]]"
    proof (cases "i < length (tasks s)")
      case True
      then have "inserted_by (Some i) s @ tasks s ! i = [''Foo: '', to_string (int i), [newline]]"
        using inv by (simp add: calls_inv_def Foo_call_def)
      then show ?thesis by (metis append_eq_conv_conj)
    next
      case False
      then show ?thesis using inv by (intro exI [of _ 0]) (simp add: calls_inv_def)
    qed
  qed
  show "\<forall>n t. (actor_step ^^ n) s t \<longrightarrow> n \<le> 52"
    using actor.run_bound [OF _ inv] calls_inv_left [OF inv] by fastforce
  show "\<not> (\<exists>u. actor_step s u) \<longrightarrow> main_at s = Main_end" using actor_stuck by blast
  show "main_at s = Main_end \<longrightarrow> (\<forall>i < 10. inserted_by (Some i) s = [''Foo: '', to_string (int i), [newline]])"
    using inv by (auto simp: calls_inv_def Foo_call_def)
qed

theorem actor_calls_complete_witness:
  "\<exists>t. reachable actor_start actor_step t \<and> main_at t = Main_end
      \<and> inserted_by (Some 7) t = [''Foo: '', to_string 7, [newline]]"
proof -
  obtain s where "actor_start s" using actor_start_state by blast
  then have "reachable actor_start actor_step s" by (rule reachable_start)
  from actor.reachable_ends [OF this] reachable_steps [OF _ this] obtain t
    where t: "reachable actor_start actor_step t" "\<not> (\<exists>u. actor_step t u)" by blast
  show ?thesis using actor_calls_complete [OF t(1)] t by (intro exI [of _ t]) auto
qed

text \<open>
  a task counts one jump for every test before it is cancelled and reports the count; after
  \<open>2^31 - 1\<close> of them the counter overflows, and a task that is never cancelled does not return.
\<close>

theorem task_counts_jumps:
  "runTask name (replicate n False @ [True]) =
     (if int n \<le> INT_MAX
      then Ret [''starting task '' @ name, name @ '' jumped '' @ to_string (int n) @ ''times.'']
      else Throw Signed_overflow)
   \<and> (int n \<le> INT_MAX \<longrightarrow> runTask name (replicate n False) = Diverge)"
proof -
  have loop: "0 \<le> j \<Longrightarrow> j \<le> INT_MAX \<Longrightarrow> task_loop (replicate n False @ [True]) j =
      (if j + int n \<le> INT_MAX then Ret (j + int n) else Throw Signed_overflow)" for j
  proof (induction n arbitrary: j)
    case (Suc n)
    then show ?case by (simp add: int32_def INT_MIN_def INT_MAX_def)
  qed simp
  have never: "0 \<le> j \<Longrightarrow> j + int n \<le> INT_MAX \<Longrightarrow> task_loop (replicate n False) j = Diverge" for j
  proof (induction n arbitrary: j)
    case (Suc n)
    then show ?case by (simp add: int32_def INT_MIN_def INT_MAX_def)
  qed simp
  show ?thesis using loop [of 0] never [of 0] by (simp add: runTask_def INT_MAX_def)
qed

theorem task_counts_jumps_witness: "runTask ''t'' [False] = Diverge"
  using task_counts_jumps [of "''t''" 1] by (simp add: INT_MAX_def)

text \<open>The disabled test deletes an object on the stack.\<close>

lemma poco_TEST_CASE_undefined: "poco_TEST_CASE = Throw Use_after_close"
  by (simp add: poco_TEST_CASE_def)

end
