(* ===== verification/Json_Grammar.thy ===== *)
theory Json_Grammar
  imports Json_Progress
begin

text \<open>
  The language of \<open>class JsonParser\<close> (\<open>middleware/src/nonworking_json.cpp\<close>) as a
  grammar: relations between a text, the value it denotes and the text that follows it, with
  neither positions nor fuel.  The parser accepts exactly this grammar and returns the value the
  grammar gives.  The grammar is the one of the code: white space is \<open>std::isspace\<close> (so it
  includes vertical tab and form feed), a string may hold any character but a quote and a
  backslash, there are no \<open>\u\<close> escapes, a number may have leading zeros, no digits after
  the point or the exponent sign, or none after the minus sign, and the digits of an integer or of
  a fraction must be followed by another character.
\<close>

section \<open>Tokens\<close>

definition blank :: "string \<Rightarrow> bool" where
  "blank w \<longleftrightarrow> (\<forall>c \<in> set w. isspace c)"

text \<open>The text between the quotes and the string it stands for.\<close>

inductive chars :: "string \<Rightarrow> string \<Rightarrow> bool" where
  chars_end: "chars [] []"
| chars_plain: "c \<noteq> CHR 0x22 \<Longrightarrow> c \<noteq> CHR 0x5C \<Longrightarrow> chars u s \<Longrightarrow> chars (c # u) (c # s)"
| chars_escape: "escaped e = Some x \<Longrightarrow> chars u s \<Longrightarrow> chars (CHR 0x5C # e # u) (x # s)"

text \<open>A maximal run of digits.\<close>

definition digit_run :: "string \<Rightarrow> string \<Rightarrow> bool" where
  "digit_run ds r \<longleftrightarrow> (\<forall>d \<in> set ds. isdigit d) \<and> (r = [] \<or> \<not> isdigit (hd r))"

text \<open>The optional parts of a number: text, the part itself, and what follows.\<close>

inductive gfraction :: "string \<Rightarrow> string \<Rightarrow> string \<Rightarrow> bool" where
  no_fraction: "c \<noteq> CHR ''.'' \<Longrightarrow> gfraction (c # r) [] (c # r)"
| fraction: "digit_run ds r \<Longrightarrow> gfraction (CHR ''.'' # ds @ r) (CHR ''.'' # ds) r"

inductive gexponent :: "string \<Rightarrow> string \<Rightarrow> string \<Rightarrow> bool" where
  no_exponent: "c \<notin> {CHR ''e'', CHR ''E''} \<Longrightarrow> gexponent (c # r) [] (c # r)"
| exponent_plain: "e \<in> {CHR ''e'', CHR ''E''} \<Longrightarrow> digit_run ds r \<Longrightarrow> ds @ r = c # t \<Longrightarrow>
    c \<notin> {CHR ''+'', CHR ''-''} \<Longrightarrow> gexponent (e # ds @ r) (e # ds) r"
| exponent_sign: "e \<in> {CHR ''e'', CHR ''E''} \<Longrightarrow> digit_run ds r \<Longrightarrow>
    c \<in> {CHR ''+'', CHR ''-''} \<Longrightarrow> gexponent (e # c # ds @ r) (e # c # ds) r"

definition number_value :: "'d double_lib \<Rightarrow> bool \<Rightarrow> string \<Rightarrow> (std_exception, 'd JsonValue) outcome" where
  "number_value D b u =
     (if b then omap JDouble (of_sum (stod D u)) else omap JLong (stoll u))"

inductive gnumber :: "'d double_lib \<Rightarrow> string \<Rightarrow> 'd JsonValue \<Rightarrow> string \<Rightarrow> bool" for D where
  number: "sg \<in> {[], ''-''} \<Longrightarrow> sg @ ds \<noteq> [] \<Longrightarrow> digit_run ds x \<Longrightarrow> gfraction x fr y \<Longrightarrow>
    gexponent y ex r \<Longrightarrow> number_value D (fr @ ex \<noteq> []) (sg @ ds @ fr @ ex) = Ret v \<Longrightarrow>
    gnumber D (sg @ ds @ x) v r"

section \<open>Values\<close>

inductive gvalue :: "'d double_lib \<Rightarrow> string \<Rightarrow> 'd JsonValue \<Rightarrow> string \<Rightarrow> bool"
  and gelements :: "'d double_lib \<Rightarrow> string \<Rightarrow> 'd JsonArray \<Rightarrow> string \<Rightarrow> bool"
  and gmembers :: "'d double_lib \<Rightarrow> string \<Rightarrow> 'd JsonObject \<Rightarrow> string \<Rightarrow> bool"
  for D where
  gstring: "blank w \<Longrightarrow> chars u s \<Longrightarrow> gvalue D (w @ CHR 0x22 # u @ CHR 0x22 # r) (JString s) r"
| gnum: "blank w \<Longrightarrow> gnumber D t v r \<Longrightarrow> gvalue D (w @ t) v r"
| gtrue: "blank w \<Longrightarrow> gvalue D (w @ ''true'' @ r) (JBool True) r"
| gfalse: "blank w \<Longrightarrow> gvalue D (w @ ''false'' @ r) (JBool False) r"
| gnull: "blank w \<Longrightarrow> gvalue D (w @ ''null'' @ r) JNull r"
| gempty_array: "blank w \<Longrightarrow> blank x \<Longrightarrow> gvalue D (w @ CHR ''['' # x @ CHR '']'' # r) (JArray []) r"
| garray: "blank w \<Longrightarrow> gelements D t vs r \<Longrightarrow> gvalue D (w @ CHR ''['' # t) (JArray vs) r"
| gempty_object: "blank w \<Longrightarrow> blank x \<Longrightarrow> gvalue D (w @ CHR ''{'' # x @ CHR ''}'' # r) (JObject []) r"
| gobject: "blank w \<Longrightarrow> gmembers D t ms r \<Longrightarrow>
    gvalue D (w @ CHR ''{'' # t) (JObject (fold (\<lambda>(k, v). map_assign k v) ms [])) r"
| glast: "gvalue D t v (w @ CHR '']'' # r) \<Longrightarrow> blank w \<Longrightarrow> gelements D t [v] r"
| gmore: "gvalue D t v (w @ CHR '','' # t') \<Longrightarrow> blank w \<Longrightarrow> gelements D t' vs r \<Longrightarrow>
    gelements D t (v # vs) r"
| glast_member: "blank w \<Longrightarrow> chars u k \<Longrightarrow> blank x \<Longrightarrow> gvalue D t v (y @ CHR ''}'' # r) \<Longrightarrow> blank y \<Longrightarrow>
    gmembers D (w @ CHR 0x22 # u @ CHR 0x22 # x @ CHR '':'' # t) [(k, v)] r"
| gmore_members: "blank w \<Longrightarrow> chars u k \<Longrightarrow> blank x \<Longrightarrow> gvalue D t v (y @ CHR '','' # t') \<Longrightarrow> blank y \<Longrightarrow>
    gmembers D t' ms r \<Longrightarrow>
    gmembers D (w @ CHR 0x22 # u @ CHR 0x22 # x @ CHR '':'' # t) ((k, v) # ms) r"

section \<open>The token functions of the parser accept exactly the tokens\<close>

lemma blank_split: "blank w \<Longrightarrow> \<not> isspace c \<Longrightarrow>
    takeWhile isspace (w @ c # t) = w \<and> dropWhile isspace (w @ c # t) = c # t"
  by (simp add: blank_def takeWhile_stop dropWhile_stop)

lemma blank_takeWhile [simp]: "blank (takeWhile isspace t)"
  by (auto simp: blank_def dest: set_takeWhileD)

lemma rest_skip [simp]: "rest (skip_whitespace p) = dropWhile isspace (rest p)"
  by (simp add: skip_whitespace_view dropWhile_eq_drop)

lemma skip_idem [simp]: "skip_whitespace (skip_whitespace p) = skip_whitespace p"
proof -
  have "takeWhile isspace (dropWhile isspace t) = []" for t :: string
    by (induction t) auto
  then show ?thesis by (simp add: skip_whitespace_view [of "skip_whitespace p"])
qed

lemma not_space_tokens [simp]:
  "\<not> isspace (CHR 0x22)" "\<not> isspace (CHR ''['')" "\<not> isspace (CHR '']'')" "\<not> isspace (CHR ''{'')"
  "\<not> isspace (CHR ''}'')" "\<not> isspace (CHR '','')" "\<not> isspace (CHR '':'')"
  by (simp_all add: isspace_def)

lemma expect_iff:
  assumes "\<not> isspace c"
  shows "expect c p = Ret p' \<longleftrightarrow>
    (\<exists>w t. rest p = w @ c # t \<and> blank w \<and> p' = adv (length w + 1) p)"
proof
  assume e: "expect c p = Ret p'"
  then obtain t where t: "dropWhile isspace (rest p) = c # t" and p': "p' = adv 1 (skip_whitespace p)"
    by (auto simp: expect_def Let_def outcome_iff peek_view consume_view split: list.splits if_splits)
  have "rest p = takeWhile isspace (rest p) @ c # t" by (simp flip: t)
  with p' show "\<exists>w t. rest p = w @ c # t \<and> blank w \<and> p' = adv (length w + 1) p"
    by (metis adv_adv blank_takeWhile skip_whitespace_view)
next
  assume "\<exists>w t. rest p = w @ c # t \<and> blank w \<and> p' = adv (length w + 1) p"
  with assms show "expect c p = Ret p'"
    by (metis blank_def expect_match)
qed

lemma expect_skip [simp]: "expect c (skip_whitespace p) = expect c p"
  by (simp add: expect_def)

lemma parse_string_skip [simp]: "parse_string (skip_whitespace p) = parse_string p"
  by (simp add: parse_string_def)

lemma string_loop_sound:
  "parse_string_loop p s = Ret (s', p') \<Longrightarrow>
   \<exists>u x t. rest p = u @ CHR 0x22 # t \<and> chars u x \<and> s' = s @ x \<and> p' = adv (length u) p"
proof (induction "length (rest p)" arbitrary: p s rule: less_induct)
  case less
  have step: "\<exists>u x t. rest p = u @ CHR 0x22 # t \<and> chars u x \<and> s' = s @ x \<and> p' = adv (length u) p"
    if run: "parse_string_loop (adv (length h) p) (s @ [y]) = Ret (s', p')"
      and h: "rest p = h @ r" "h \<noteq> []" and c: "\<And>u x. chars u x \<Longrightarrow> chars (h @ u) (y # x)" for h r y
  proof -
    have "length (rest (adv (length h) p)) < length (rest p)" using h by simp
    from less.hyps [OF this run] obtain u x t where
      u: "r = u @ CHR 0x22 # t" "chars u x" "s' = s @ y # x" "p' = adv (length h + length u) p"
      using h(1) by auto
    then show ?thesis using h(1) c [OF u(2)]
      by (intro exI [of _ "h @ u"] exI [of _ "y # x"] exI [of _ t]) simp
  qed
  show ?case
  proof (cases "rest p")
    case Nil
    with less.prems show ?thesis by (subst (asm) parse_string_loop_view) simp
  next
    case (Cons c r)
    consider (quote) "c = CHR 0x22" | (escape) e q x where "c = CHR 0x5C" "r = e # q" "escaped e = Some x"
        "parse_string_loop (adv 2 p) (s @ [x]) = Ret (s', p')"
      | (plain) "c \<noteq> CHR 0x22" "c \<noteq> CHR 0x5C" "parse_string_loop (adv 1 p) (s @ [c]) = Ret (s', p')"
      using less.prems Cons by (subst (asm) parse_string_loop_view)
        (auto split: if_splits list.splits option.splits)
    then show ?thesis
    proof cases
      case quote
      with less.prems Cons have "s' = s \<and> p' = p" by (subst (asm) parse_string_loop_view) simp
      with Cons quote show ?thesis 
        by (intro exI [of _ "[]"] exI [of _ r]) (simp add: chars_end)
    next
      case escape
      then show ?thesis
        using step [of "[c, e]" x q] Cons by (simp add: chars_escape numeral_2_eq_2)
    next
      case plain
      then show ?thesis using step [of "[c]" c r] Cons by (simp add: chars_plain)
    qed
  qed
qed

lemma string_loop_complete:
  "chars u x \<Longrightarrow> rest p = u @ CHR 0x22 # t \<Longrightarrow> parse_string_loop p s = Ret (s @ x, adv (length u) p)"
proof (induction u x arbitrary: p s rule: chars.induct)
  case chars_end
  then show ?case by (subst parse_string_loop_view) simp
next
  case (chars_plain c u x)
  then show ?case by (subst parse_string_loop_view) simp
next
  case (chars_escape e x u xs)
  then show ?case by (subst parse_string_loop_view) simp
qed

lemma parse_string_iff:
  "parse_string p = Ret (s, p') \<longleftrightarrow>
   (\<exists>w u t. rest p = w @ CHR 0x22 # u @ CHR 0x22 # t \<and> blank w \<and> chars u s
      \<and> p' = adv (length w + length u + 2) p)" (is "?L = ?R")
proof
  assume ?L
  then obtain p1 p2 where p: "expect (CHR 0x22) p = Ret p1" "parse_string_loop p1 [] = Ret (s, p2)"
    "expect (CHR 0x22) p2 = Ret p'"
    by (auto simp: parse_string_def outcome_iff)
  from p(1) obtain w t where w: "rest p = w @ CHR 0x22 # t" "blank w" "p1 = adv (length w + 1) p"
    by (auto simp: expect_iff)
  from string_loop_sound [OF p(2)] w obtain u r where
    u: "t = u @ CHR 0x22 # r" "chars u s" "p2 = adv (length w + 1 + length u) p"
    by auto
  have "rest p2 = CHR 0x22 # r" using w u by simp
  with p(3) u have "p' = adv (length w + length u + 2) p" by (simp add: expect_here)
  with w u show ?R by auto
next
  assume ?R
  then obtain w u t where r: "rest p = w @ CHR 0x22 # u @ CHR 0x22 # t" "blank w" "chars u s"
    "p' = adv (length w + length u + 2) p" by blast
  have e: "expect (CHR 0x22) p = Ret (adv (length w + 1) p)"
    using r by (intro expect_iff [THEN iffD2]) auto
  have l: "parse_string_loop (adv (length w + 1) p) [] = Ret (s, adv (length w + 1 + length u) p)"
    using string_loop_complete [OF r(3), of "adv (length w + 1) p" t "[]"] r(1) by simp
  have "rest (adv (length w + 1 + length u) p) = CHR 0x22 # t" using r(1) by simp
  then show ?L using e l r(4) by (simp add: parse_string_def expect_here)
qed

lemma digit_run_split:
  "digit_run ds r \<Longrightarrow> takeWhile isdigit (ds @ r) = ds \<and> dropWhile isdigit (ds @ r) = r"
  using takeWhile_stop [of ds isdigit r] dropWhile_stop [of ds isdigit r]
  unfolding digit_run_def by blast

lemma digit_run_exists: "digit_run (takeWhile isdigit t) (dropWhile isdigit t)"
  using hd_dropWhile [of isdigit t] by (auto simp: digit_run_def dest: set_takeWhileD)

lemma gfraction_append: "gfraction t fr r \<Longrightarrow> t = fr @ r"
  by (induction rule: gfraction.induct) simp_all

lemma gexponent_append: "gexponent t ex r \<Longrightarrow> t = ex @ r"
  by (induction rule: gexponent.induct) simp_all

lemma parse_fraction_iff:
  "parse_fraction p = Ret (b, p') \<longleftrightarrow>
   (\<exists>fr r. gfraction (rest p) fr r \<and> b = (fr \<noteq> []) \<and> p' = adv (length fr) p)"
proof
  assume f: "parse_fraction p = Ret (b, p')"
  then obtain c t where t: "rest p = c # t"
    by (auto simp: parse_fraction_def outcome_iff peek_view split: list.splits)
  show "\<exists>fr r. gfraction (rest p) fr r \<and> b = (fr \<noteq> []) \<and> p' = adv (length fr) p"
  proof (cases "c = CHR ''.''")
    case True
    have "gfraction (c # t) (c # takeWhile isdigit t) (dropWhile isdigit t)"
      using fraction [OF digit_run_exists [of t]] True by simp
    with f t True show ?thesis
      by (fastforce simp: parse_fraction_def view outcome_iff)
  next
    case False
    with f t show ?thesis
      by (auto simp: parse_fraction_def view outcome_iff intro: no_fraction)
  qed
next
  assume "\<exists>fr r. gfraction (rest p) fr r \<and> b = (fr \<noteq> []) \<and> p' = adv (length fr) p"
  then show "parse_fraction p = Ret (b, p')"
    by (auto elim!: gfraction.cases simp: parse_fraction_def view digit_run_split)
qed

lemma parse_exponent_iff:
  "parse_exponent p = Ret (b, p') \<longleftrightarrow>
   (\<exists>ex r. gexponent (rest p) ex r \<and> b = (ex \<noteq> []) \<and> p' = adv (length ex) p)"
proof
  assume f: "parse_exponent p = Ret (b, p')"
  then obtain c t where t: "rest p = c # t"
    by (auto simp: parse_exponent_def outcome_iff peek_view split: list.splits)
  show "\<exists>ex r. gexponent (rest p) ex r \<and> b = (ex \<noteq> []) \<and> p' = adv (length ex) p"
  proof (cases "c \<in> {CHR ''e'', CHR ''E''}")
    case True
    with f t obtain d u where u: "t = d # u"
      by (auto simp: parse_exponent_def parse_sign_def view outcome_iff split: list.splits)
    show ?thesis
    proof (cases "d \<in> {CHR ''+'', CHR ''-''}")
      case sign: True
      have "gexponent (c # d # u) (c # d # takeWhile isdigit u) (dropWhile isdigit u)"
        using exponent_sign [OF True digit_run_exists [of u] sign] by simp
      with f t u True sign show ?thesis
        by (fastforce simp: parse_exponent_def parse_sign_def view outcome_iff)
    next
      case plain: False
      have "gexponent (c # t) (c # takeWhile isdigit t) (dropWhile isdigit t)"
        using exponent_plain [OF True digit_run_exists [of t] _ plain] u by simp
      with f t u True plain show ?thesis
        by (fastforce simp: parse_exponent_def parse_sign_def view outcome_iff)
    qed
  next
    case False
    with f t show ?thesis
      by (auto simp: parse_exponent_def view outcome_iff intro: no_exponent)
  qed
next
  assume "\<exists>ex r. gexponent (rest p) ex r \<and> b = (ex \<noteq> []) \<and> p' = adv (length ex) p"
  then obtain ex r where g: "gexponent (rest p) ex r" and b: "b = (ex \<noteq> [])" "p' = adv (length ex) p"
    by blast
  from g show "parse_exponent p = Ret (b, p')"
  proof cases
    case (exponent_plain e ds c t)
    then have "rest p = e # c # t" "takeWhile isdigit (c # t) = ds"
      using digit_run_split by fastforce+
    with exponent_plain b show ?thesis by (simp add: parse_exponent_def parse_sign_def view)
  qed (use b in \<open>simp_all add: parse_exponent_def parse_sign_def view digit_run_split\<close>)
qed

lemma number_text: "take (pos (adv k p) - pos p) (drop (pos p) (json_str p)) = take k (rest p)"
  by (simp add: adv_def rest_def)

lemma parse_number_parts:
  assumes "parse_sign {CHR ''-''} p = Ret (adv (length sg) p)" "rest p = sg @ ds @ x"
    and "digit_run ds x" "gfraction x fr y" "gexponent y ex r"
  shows "parse_number D p =
    omap (\<lambda>v. (v, adv (length (sg @ ds @ fr @ ex)) p)) (number_value D (fr @ ex \<noteq> []) (sg @ ds @ fr @ ex))"
proof -
  define q where "q k = adv k p" for k
  have q: "rest (q k) = drop k (sg @ ds @ x)" "adv m (q k) = q (k + m)"
    "take (pos (q k) - pos p) (drop (pos p) (json_str p)) = take k (sg @ ds @ x)" for k m
    using number_text [of k p] by (simp_all add: q_def assms(2))
  have d: "consume_digits (q (length sg)) = Ret (q (length (sg @ ds)))"
    using digit_run_split [OF assms(3)] by (simp add: view q)
  have f: "parse_fraction (q (length (sg @ ds))) = Ret (fr \<noteq> [], q (length (sg @ ds @ fr)))"
    using assms(4) by (intro parse_fraction_iff [THEN iffD2]) (auto simp: q add.assoc)
  have e: "parse_exponent (q (length (sg @ ds @ fr))) = Ret (ex \<noteq> [], q (length (sg @ ds @ fr @ ex)))"
    using assms(5) gfraction_append [OF assms(4)]
    by (intro parse_exponent_iff [THEN iffD2]) (auto simp: q add.assoc)
  have t: "take (length (sg @ ds @ fr @ ex)) (sg @ ds @ x) = sg @ ds @ fr @ ex"
    using gfraction_append [OF assms(4)] gexponent_append [OF assms(5)] by simp
  have s: "parse_sign {CHR ''-''} p = Ret (q (length sg))" using assms(1) by (simp add: q_def)
  show ?thesis
    unfolding q_def [symmetric] parse_number_def s d f e Let_def q(3) t obind.simps prod.case
    by (simp add: number_value_def omap_omap)
qed

lemma parse_number_sound:
  assumes n: "parse_number D p = Ret (v, p')" and c: "rest p = c # t" "c = CHR ''-'' \<or> isdigit c"
  shows "gnumber D (rest p) v (rest p')"
proof -
  define sg where "sg = (if c = CHR ''-'' then [c] else [])"
  define ds where "ds = takeWhile isdigit (drop (length sg) (rest p))"
  define x where "x = dropWhile isdigit (drop (length sg) (rest p))"
  have sg: "parse_sign {CHR ''-''} p = Ret (adv (length sg) p)" "sg \<in> {[], ''-''}"
    using c by (auto simp: sg_def parse_sign_def view)
  have r: "rest p = sg @ ds @ x" "sg @ ds \<noteq> []" "digit_run ds x"
    using c digit_run_exists by (auto simp: sg_def ds_def x_def)
  have "consume_digits (adv (length sg) p) = Ret (adv (length (sg @ ds)) p)"
    by (simp add: view ds_def)
  with n sg obtain fb p3 eb where f: "parse_fraction (adv (length (sg @ ds)) p) = Ret (fb, p3)"
    and e: "parse_exponent p3 = Ret (eb, p')"
    by (auto simp: parse_number_def outcome_iff Let_def split: if_splits)
  from f r(1) obtain fr y where fr: "gfraction x fr y" and p3: "p3 = adv (length (sg @ ds @ fr)) p"
    by (auto simp: parse_fraction_iff add.assoc)
  have "rest p3 = y" using gfraction_append [OF fr] r(1) p3 by simp
  with e p3 obtain ex z where ex: "gexponent y ex z" and p': "p' = adv (length (sg @ ds @ fr @ ex)) p"
    by (auto simp: parse_exponent_iff add.assoc)
  have z: "rest p' = z" using gfraction_append [OF fr] gexponent_append [OF ex] r(1) p' by simp
  have "number_value D (fr @ ex \<noteq> []) (sg @ ds @ fr @ ex) = Ret v"
    using n parse_number_parts [OF sg(1) r(1,3) fr ex, of D] by (auto simp: outcome_iff)
  then show ?thesis unfolding z r(1) by (rule number [OF sg(2) r(2,3) fr ex])
qed

lemma parse_number_complete:
  assumes "gnumber D (rest p) v r"
  obtains p' where "parse_number D p = Ret (v, p')" "rest p' = r"
  using assms
proof cases
  case (number sg ds x fr y ex)
  have "sg = [] \<Longrightarrow> \<exists>d t. rest p = d # t \<and> d \<noteq> CHR ''-''"
    using number(1,3,4) by (cases ds) (auto simp: digit_run_def isdigit_def)
  then have sg: "parse_sign {CHR ''-''} p = Ret (adv (length sg) p)"
    using number(1,2) by (auto simp: parse_sign_def view)
  have "rest (adv (length (sg @ ds @ fr @ ex)) p) = r"
    unfolding rest_adv number(1) gfraction_append [OF number(5)] gexponent_append [OF number(6)] by simp
  moreover have "parse_number D p = Ret (v, adv (length (sg @ ds @ fr @ ex)) p)"
    unfolding parse_number_parts [OF sg number(1,4,5,6)] number(7) by simp
  ultimately show thesis by (rule that [rotated])
qed

lemma gnumber_start:
  assumes "gnumber D t v r"
  obtains c t' where "t = c # t'" "c = CHR ''-'' \<or> isdigit c"
  using assms
proof cases
  case (number sg ds x fr y ex)
  then show thesis using that by (cases ds) (auto simp: digit_run_def)
qed

lemma literal_iff:
  "parse_literal_loop l cs p = Ret p' \<longleftrightarrow> (\<exists>t. rest p = cs @ t) \<and> p' = adv (length cs) p"
proof (induction l cs p rule: parse_literal_loop.induct)
  case (2 l c cs p)
  have upd: "p\<lparr>pos := pos p + 1\<rparr> = adv 1 p" by (simp add: adv_def)
  show ?case
  proof (cases "\<exists>t. rest p = c # t")
    case True
    then obtain t where t: "rest p = c # t" by blast
    then have ok: "\<not> (pos p \<ge> length (json_str p) \<or> json_str p ! pos p \<noteq> c)"
      using in_range_iff [of p] cur_char [of p] by simp
    show ?thesis using 2 [OF ok] t unfolding upd by (simp add: ok upd [unfolded One_nat_def] adv_Suc0)
  next
    case False
    then have "pos p \<ge> length (json_str p) \<or> json_str p ! pos p \<noteq> c"
      using in_range_iff [of p] cur_char [of p] by (cases "rest p") auto
    with False show ?thesis by auto
  qed
qed auto

lemma parse_literal_iff:
  "parse_literal l w p = Ret (v, p') \<longleftrightarrow> v = w \<and> (\<exists>t. rest p = l @ t) \<and> p' = adv (length l) p"
  by (auto simp: parse_literal_def outcome_iff literal_iff)

section \<open>Soundness\<close>

lemma recursion_skip [simp]:
  "parse_value D n (skip_whitespace p) = parse_value D n p"
  "parse_array D n (skip_whitespace p) = parse_array D n p"
  "parse_array_loop D n arr (skip_whitespace p) = parse_array_loop D n arr p"
  "parse_object D n (skip_whitespace p) = parse_object D n p"
  "parse_object_loop D n obj (skip_whitespace p) = parse_object_loop D n obj p"
proof -
  show v: "parse_value D n (skip_whitespace p) = parse_value D n p" for n by (cases n) simp_all
  show "parse_array D n (skip_whitespace p) = parse_array D n p" by (cases n) simp_all
  show "parse_array_loop D n arr (skip_whitespace p) = parse_array_loop D n arr p"
    by (cases n) (simp_all add: v)
  show "parse_object D n (skip_whitespace p) = parse_object D n p" by (cases n) simp_all
  show "parse_object_loop D n obj (skip_whitespace p) = parse_object_loop D n obj p"
    by (cases n) simp_all
qed

text \<open>What follows a value: blanks and the character the loops look at.\<close>

lemma next_char:
  assumes "peek (skip_whitespace p) = Ret c"
  obtains w r where "rest p = w @ c # r" "blank w" "rest (skip_whitespace p) = c # r"
proof -
  obtain r where r: "dropWhile isspace (rest p) = c # r"
    using assms by (auto simp: peek_view split: list.splits)
  show thesis
    by (rule that [of "takeWhile isspace (rest p)" r]) (simp_all add: r flip: r)
qed

lemma consume_peek: "consume p = Ret (c, q) \<Longrightarrow> peek p = Ret c \<and> q = adv 1 p"
  by (cases "rest p") (simp_all add: peek_view consume_view)

lemma consume_char:
  assumes "consume (skip_whitespace p) = Ret (c, q)"
  obtains w where "rest p = w @ c # rest q" "blank w"
proof -
  obtain w r where "rest p = w @ c # r" "blank w" "rest (skip_whitespace p) = c # r"
    using consume_peek [OF assms] by (blast elim: next_char)
  with that show thesis using consume_peek [OF assms] by fastforce
qed

lemma expect_rest:
  assumes "expect c p = Ret p'" "\<not> isspace c"
  obtains w where "rest p = w @ c # rest p'" "blank w"
  using assms by (auto simp: expect_iff)

lemma string_rest:
  assumes "parse_string p = Ret (s, p')"
  obtains w u where "rest p = w @ CHR 0x22 # u @ CHR 0x22 # rest p'" "blank w" "chars u s"
  using assms by (auto simp: parse_string_iff)

lemma literal_sound:
  assumes "parse_literal l w (skip_whitespace p) = Ret (v, p')"
    and "(l, w) \<in> {(''true'', JBool True), (''false'', JBool False), (''null'', JNull)}"
  shows "gvalue D (rest p) v (rest p')"
proof -
  obtain t where t: "dropWhile isspace (rest p) = l @ t" "p' = adv (length l) (skip_whitespace p)" "v = w"
    using assms(1) by (auto simp: parse_literal_iff)
  have "rest p = takeWhile isspace (rest p) @ l @ rest p'"
    using t takeWhile_dropWhile_id [of isspace "rest p"] by simp
  with assms(2) t(3) show ?thesis
    using gtrue [of "takeWhile isspace (rest p)" D "rest p'"]
      gfalse [of "takeWhile isspace (rest p)" D "rest p'"]
      gnull [of "takeWhile isspace (rest p)" D "rest p'"] by auto
qed

lemma number_sound:
  assumes "parse_number D (skip_whitespace p) = Ret (v, p')"
    and "peek (skip_whitespace p) = Ret c" "c = CHR ''-'' \<or> isdigit c"
  shows "gvalue D (rest p) v (rest p')"
proof -
  from assms(2) obtain r where "rest (skip_whitespace p) = c # r" by (rule next_char)
  from parse_number_sound [OF assms(1) this assms(3)]
  show ?thesis using gnum [of "takeWhile isspace (rest p)" D] by fastforce
qed

lemma parser_sound:
  "parse_value D n p = Ret (v, p') \<Longrightarrow> gvalue D (rest p) v (rest p')"
  "parse_array D n p = Ret (v, p') \<Longrightarrow> gvalue D (rest p) v (rest p')"
  "parse_array_loop D n arr p = Ret (arr', p') \<Longrightarrow>
     \<exists>vs r. arr' = arr @ vs \<and> rest p' = CHR '']'' # r \<and> gelements D (rest p) vs r"
  "parse_object D n p = Ret (v, p') \<Longrightarrow> gvalue D (rest p) v (rest p')"
  "parse_object_loop D n obj p = Ret (obj', p') \<Longrightarrow>
     \<exists>ms r. obj' = fold (\<lambda>(k, v). map_assign k v) ms obj \<and> rest p' = CHR ''}'' # r
       \<and> gmembers D (rest p) ms r"
proof (induction n arbitrary: p v p' arr arr' obj obj')
  case (Suc n)
  {
    case 1
    then show ?case
    proof (cases rule: parse_value_RetE)
      case (string s)
      then show ?thesis by (simp, elim string_rest) (simp add: gstring)
    qed (use Suc.IH(2,4) number_sound literal_sound in \<open>simp_all, blast+\<close>)
  next
    case 2
    then obtain p1 arr p3 where p1: "expect (CHR ''['') p = Ret p1" and v: "v = JArray arr"
      and els: "parse_array_loop D n [] p1 = Ret (arr, p3) \<or> arr = [] \<and> p3 = skip_whitespace p1"
      and p': "expect (CHR '']'') p3 = Ret p'"
      by (elim parse_array_RetE) simp
    from p1 obtain w where w: "rest p = w @ CHR ''['' # rest p1" "blank w" by (elim expect_rest) simp
    from els show ?case
    proof
      assume "parse_array_loop D n [] p1 = Ret (arr, p3)"
      from Suc.IH(3) [OF this] p' w v show ?thesis by (auto simp: expect_here garray)
    next
      assume "arr = [] \<and> p3 = skip_whitespace p1"
      with p' obtain x where "rest p1 = x @ CHR '']'' # rest p'" "blank x" by (auto elim: expect_rest)
      with w v \<open>arr = [] \<and> _\<close> show ?thesis by (simp add: gempty_array)
    qed
  next
    case 3
    then obtain v p1 where v: "parse_value D n p = Ret (v, p1)" and
      tail: "(\<exists>p3. consume (skip_whitespace p1) = Ret (CHR '','', p3)
        \<and> parse_array_loop D n (arr @ [v]) p3 = Ret (arr', p'))
       \<or> peek (skip_whitespace p1) = Ret (CHR '']'') \<and> arr' = arr @ [v] \<and> p' = skip_whitespace p1"
      by (elim parse_array_loop_RetE) blast
    note gv = Suc.IH(1) [OF v]
    from tail show ?case
    proof (elim disjE exE conjE)
      fix p3 assume c: "consume (skip_whitespace p1) = Ret (CHR '','', p3)"
        and l: "parse_array_loop D n (arr @ [v]) p3 = Ret (arr', p')"
      from c obtain w where "rest p1 = w @ CHR '','' # rest p3" "blank w" by (rule consume_char)
      with gv gmore Suc.IH(3) [OF l] show ?thesis by fastforce
    next
      assume c: "peek (skip_whitespace p1) = Ret (CHR '']'')" and e: "arr' = arr @ [v]" "p' = skip_whitespace p1"
      from c obtain w r where "rest p1 = w @ CHR '']'' # r" "blank w" "rest p' = CHR '']'' # r"
        unfolding e(2) by (rule next_char)
      with gv e glast show ?thesis by fastforce
    qed
  next
    case 4
    then obtain p1 obj p3 where p1: "expect (CHR ''{'') p = Ret p1" and v: "v = JObject obj"
      and els: "parse_object_loop D n [] p1 = Ret (obj, p3) \<or> obj = [] \<and> p3 = skip_whitespace p1"
      and p': "expect (CHR ''}'') p3 = Ret p'"
      by (elim parse_object_RetE) simp
    from p1 obtain w where w: "rest p = w @ CHR ''{'' # rest p1" "blank w" by (elim expect_rest) simp
    from els show ?case
    proof
      assume "parse_object_loop D n [] p1 = Ret (obj, p3)"
      from Suc.IH(5) [OF this] p' w v show ?thesis by (auto simp: expect_here gobject)
    next
      assume "obj = [] \<and> p3 = skip_whitespace p1"
      with p' obtain x where "rest p1 = x @ CHR ''}'' # rest p'" "blank x" by (auto elim: expect_rest)
      with w v \<open>obj = [] \<and> _\<close> show ?thesis by (simp add: gempty_object)
    qed
  next
    case 5
    then obtain key p1 p2 v p3 where k: "parse_string p = Ret (key, p1)" "expect (CHR '':'') p1 = Ret p2"
      and v: "parse_value D n p2 = Ret (v, p3)" and
      tail: "(\<exists>p5. consume (skip_whitespace p3) = Ret (CHR '','', p5)
        \<and> parse_object_loop D n (map_assign key v obj) p5 = Ret (obj', p'))
       \<or> peek (skip_whitespace p3) = Ret (CHR ''}'') \<and> obj' = map_assign key v obj \<and> p' = skip_whitespace p3"
      by (elim parse_object_loop_RetE) blast
    from k obtain w u x where key: "rest p = w @ CHR 0x22 # u @ CHR 0x22 # x @ CHR '':'' # rest p2"
      "blank w" "chars u key" "blank x" by (elim string_rest expect_rest) auto
    note gv = Suc.IH(1) [OF v]
    from tail show ?case
    proof (elim disjE exE conjE)
      fix p5 assume c: "consume (skip_whitespace p3) = Ret (CHR '','', p5)"
        and l: "parse_object_loop D n (map_assign key v obj) p5 = Ret (obj', p')"
      from c obtain y where y: "rest p3 = y @ CHR '','' # rest p5" "blank y" by (rule consume_char)
      from Suc.IH(5) [OF l] obtain ms r where ms: "obj' = fold (\<lambda>(k, v). map_assign k v) ms (map_assign key v obj)"
        "rest p' = CHR ''}'' # r" "gmembers D (rest p5) ms r" by blast
      have "gmembers D (rest p) ((key, v) # ms) r"
        unfolding key(1) by (rule gmore_members [OF key(2-4) gv [unfolded y(1)] y(2) ms(3)])
      with ms show ?thesis by (intro exI [of _ "(key, v) # ms"] exI [of _ r]) simp
    next
      assume c: "peek (skip_whitespace p3) = Ret (CHR ''}'')" and e: "obj' = map_assign key v obj"
        "p' = skip_whitespace p3"
      from c obtain y r where y: "rest p3 = y @ CHR ''}'' # r" "blank y" "rest p' = CHR ''}'' # r"
        unfolding e(2) by (rule next_char)
      have "gmembers D (rest p) [(key, v)] r"
        unfolding key(1) by (rule glast_member [OF key(2-4) gv [unfolded y(1)] y(2)])
      with e y show ?thesis by (intro exI [of _ "[(key, v)]"] exI [of _ r]) simp
    qed
  }
qed simp_all

section \<open>Completeness\<close>

text \<open>
  On a text of the grammar no amount of fuel makes the parser do anything but return the
  value, unless the fuel runs out.
\<close>

lemma fuel_le_bind_Ret:
  "fuel_le m (Ret x) \<Longrightarrow> fuel_le (f x) (Ret y) \<Longrightarrow> fuel_le (obind m f) (Ret y)"
  by (auto simp: fuel_le_def)

lemma value_dispatch:
  assumes "rest p = w @ c # t" "blank w" "\<not> isspace c"
  shows "parse_value D (Suc n) p =
    (if c = CHR 0x22 then omap (\<lambda>(s, p'). (JString s, p')) (parse_string p)
     else if c = CHR ''-'' \<or> isdigit c then parse_number D (skip_whitespace p)
     else if c = CHR ''['' then parse_array D n p
     else if c = CHR ''{'' then parse_object D n p
     else if c = CHR ''t'' then parse_literal ''true'' (JBool True) (skip_whitespace p)
     else if c = CHR ''f'' then parse_literal ''false'' (JBool False) (skip_whitespace p)
     else if c = CHR ''n'' then parse_literal ''null'' JNull (skip_whitespace p)
     else Throw (runtime_error (''Unexpected character: '' @ [CHR 0x27, c, CHR 0x27]
            @ '' at position '' @ nat_to_string (pos (skip_whitespace p)))))"
  using blank_split [OF assms(2,3), of t] assms(1) by (simp add: peek_view)

lemma literal_complete:
  assumes "rest p = w @ l @ r" "blank w"
    and "(l, v) \<in> {(''true'', JBool True), (''false'', JBool False), (''null'', JNull)}"
  shows "\<exists>p'. rest p' = r \<and> (\<forall>n. fuel_le (parse_value D n p) (Ret (v, p')))"
proof (intro exI conjI allI)
  obtain c t where l: "l = c # t" "\<not> isspace c" "c \<noteq> CHR 0x22" "c \<noteq> CHR ''-''" "\<not> isdigit c"
      "c \<noteq> CHR ''[''" "c \<noteq> CHR ''{''" "c = CHR ''t'' \<longleftrightarrow> l = ''true''" "c = CHR ''f'' \<longleftrightarrow> l = ''false''"
      "c = CHR ''n'' \<longleftrightarrow> l = ''null''"
    using assms(3) by (auto simp: isspace_def isdigit_def)
  have skip: "rest (skip_whitespace p) = l @ r"
    using assms(1) blank_split [OF assms(2) l(2), of "t @ r"] l(1) by simp
  show "rest (adv (length l) (skip_whitespace p)) = r" using skip by simp
  show "fuel_le (parse_value D n p) (Ret (v, adv (length l) (skip_whitespace p)))" for n
  proof (cases n)
    case (Suc m)
    have "parse_literal l v (skip_whitespace p) = Ret (v, adv (length l) (skip_whitespace p))"
      using skip by (simp add: parse_literal_iff)
    moreover have "parse_value D (Suc m) p = parse_literal l v (skip_whitespace p)"
    proof -
      have "rest p = w @ c # t @ r" using assms(1) l(1) by simp
      from value_dispatch [OF this assms(2) l(2)] show ?thesis
        using assms(3) l(3-) by (elim insertE emptyE) simp_all
    qed
    ultimately show ?thesis using Suc by (simp del: parse_value.simps)
  qed simp
qed

lemma gvalue_start:
  "gvalue D t v r \<Longrightarrow> \<exists>c t'. dropWhile isspace t = c # t' \<and> c \<noteq> CHR '']''"
proof (induction rule: gvalue.cases)
  case (gnum w t v r)
  then obtain c t' where "t = c # t'" "c = CHR ''-'' \<or> isdigit c" by (auto elim: gnumber_start)
  moreover from this have "\<not> isspace c" "c \<noteq> CHR '']''"
    by (auto simp: isdigit_not_space isdigit_def)
  ultimately show ?case using gnum blank_split [of w c t'] by auto
next
  case (gtrue w r)
  then show ?case using blank_split [of w "CHR ''t''" "''rue'' @ r"] by (simp add: isspace_def)
next
  case (gfalse w r)
  then show ?case using blank_split [of w "CHR ''f''" "''alse'' @ r"] by (simp add: isspace_def)
next
  case (gnull w r)
  then show ?case using blank_split [of w "CHR ''n''" "''ull'' @ r"] by (simp add: isspace_def)
qed (simp_all add: blank_split)

lemma gelements_start:
  "gelements D t vs r \<Longrightarrow> \<exists>c t'. dropWhile isspace t = c # t' \<and> c \<noteq> CHR '']''"
  by (erule gelements.cases) (auto dest: gvalue_start)

lemma gmembers_start: "gmembers D t ms r \<Longrightarrow> \<exists>t'. dropWhile isspace t = CHR 0x22 # t'"
  by (erule gmembers.cases) (simp_all add: blank_split)

lemma at_token:
  assumes "rest p = w @ c # t" "blank w" "\<not> isspace c"
  shows "peek (skip_whitespace p) = Ret c" "consume (skip_whitespace p) = Ret (c, adv (length w + 1) p)"
    "expect c p = Ret (adv (length w + 1) p)" "rest (adv (length w + 1) p) = t"
    "rest (skip_whitespace p) = c # t"
  using assms blank_split [OF assms(2,3), of t] expect_iff [OF assms(3)]
  by (simp_all add: view del: rest_adv) (auto simp: rest_adv)

lemma bracket_value:
  assumes "rest p = w @ c # t" "blank w" "c = CHR ''['' \<or> c = CHR ''{''"
    and "\<And>m. c = CHR ''['' \<Longrightarrow> fuel_le (parse_array D m p) (Ret x)"
    and "\<And>m. c = CHR ''{'' \<Longrightarrow> fuel_le (parse_object D m p) (Ret x)"
  shows "fuel_le (parse_value D n p) (Ret x)"
proof (cases n)
  case (Suc m)
  have "\<not> isspace c" "c \<noteq> CHR 0x22" "\<not> (c = CHR ''-'' \<or> isdigit c)"
    using assms(3) by (auto simp: isdigit_def)
  with value_dispatch [OF assms(1,2), of D m] assms(3-5) show ?thesis
    unfolding Suc by (elim disjE) (simp_all del: parse_value.simps)
qed simp

lemma array_complete:
  assumes p: "rest p = w @ CHR ''['' # t" "blank w" and q: "q = adv (length w + 1) p"
    and c: "dropWhile isspace t = c # t'" "c \<noteq> CHR '']''"
    and loop: "\<And>m. fuel_le (parse_array_loop D m [] q) (Ret (vs, p3))" "rest p3 = CHR '']'' # r"
  shows "fuel_le (parse_value D n p) (Ret (JArray vs, adv 1 p3))"
proof (rule bracket_value [OF p])
  have "peek (skip_whitespace q) = Ret c" "expect (CHR '']'') p3 = Ret (adv 1 p3)"
    using at_token(4) [OF p] c loop(2) by (simp_all add: q peek_view expect_here)
  then have at: "expect (CHR ''['') p = Ret q" "peek (skip_whitespace q) = Ret c"
      "expect (CHR '']'') p3 = Ret (adv 1 p3)"
    using at_token(3) [OF p] q by simp_all
  show "fuel_le (parse_array D m p) (Ret (JArray vs, adv 1 p3))" for m
  proof (cases m)
    case (Suc k)
    have "parse_array D m p = obind (parse_array_loop D k [] q)
        (\<lambda>(xs, p3). obind (expect (CHR '']'') p3) (\<lambda>p4. Ret (JArray xs, p4)))"
      using c(2) by (simp add: Suc at Let_def)
    also have "fuel_le \<dots> (Ret (JArray vs, adv 1 p3))"
      by (rule fuel_le_bind_Ret [OF loop(1)]) (simp add: at)
    finally show ?thesis .
  qed simp
qed simp_all

lemma object_complete:
  assumes p: "rest p = w @ CHR ''{'' # t" "blank w" and q: "q = adv (length w + 1) p"
    and c: "dropWhile isspace t = CHR 0x22 # t'"
    and loop: "\<And>m. fuel_le (parse_object_loop D m [] q) (Ret (ms, p3))" "rest p3 = CHR ''}'' # r"
  shows "fuel_le (parse_value D n p) (Ret (JObject ms, adv 1 p3))"
proof (rule bracket_value [OF p])
  have "peek (skip_whitespace q) = Ret (CHR 0x22)" "expect (CHR ''}'') p3 = Ret (adv 1 p3)"
    using at_token(4) [OF p] c loop(2) by (simp_all add: q peek_view expect_here)
  then have at: "expect (CHR ''{'') p = Ret q" "peek (skip_whitespace q) = Ret (CHR 0x22)"
      "expect (CHR ''}'') p3 = Ret (adv 1 p3)"
    using at_token(3) [OF p] q by simp_all
  show "fuel_le (parse_object D m p) (Ret (JObject ms, adv 1 p3))" for m
  proof (cases m)
    case (Suc k)
    have "parse_object D m p = obind (parse_object_loop D k [] q)
        (\<lambda>(xs, p3). obind (expect (CHR ''}'') p3) (\<lambda>p4. Ret (JObject xs, p4)))"
      by (simp add: Suc at Let_def)
    also have "fuel_le \<dots> (Ret (JObject ms, adv 1 p3))"
      by (rule fuel_le_bind_Ret [OF loop(1)]) (simp add: at)
    finally show ?thesis .
  qed simp
qed simp_all

lemma empty_complete:
  assumes p: "rest p = w @ CHR ''['' # x @ CHR '']'' # r" "blank w" "blank x"
  shows "\<exists>p'. rest p' = r \<and> (\<forall>n. fuel_le (parse_value D n p) (Ret (JArray [], p')))"
proof (intro exI conjI allI)
  note at = at_token [OF p(1,2)]
  note at' = at_token [OF at(4) [OF not_space_tokens(2)] p(3)]
  show "rest (adv (length x + 1) (adv (length w + 1) p)) = r" by (rule at'(4)) simp
  show "fuel_le (parse_value D n p) (Ret (JArray [], adv (length x + 1) (adv (length w + 1) p)))" for n
  proof (rule bracket_value [OF p(1,2)])
    show "fuel_le (parse_array D m p) (Ret (JArray [], adv (length x + 1) (adv (length w + 1) p)))" for m
      using at(3) at'(1,3) by (cases m) (simp_all add: Let_def del: adv_adv)
  qed simp_all
qed

lemma empty_object_complete:
  assumes p: "rest p = w @ CHR ''{'' # x @ CHR ''}'' # r" "blank w" "blank x"
  shows "\<exists>p'. rest p' = r \<and> (\<forall>n. fuel_le (parse_value D n p) (Ret (JObject [], p')))"
proof (intro exI conjI allI)
  note at = at_token [OF p(1,2)]
  note at' = at_token [OF at(4) [OF not_space_tokens(4)] p(3)]
  show "rest (adv (length x + 1) (adv (length w + 1) p)) = r" by (rule at'(4)) simp
  show "fuel_le (parse_value D n p) (Ret (JObject [], adv (length x + 1) (adv (length w + 1) p)))" for n
  proof (rule bracket_value [OF p(1,2)])
    show "fuel_le (parse_object D m p) (Ret (JObject [], adv (length x + 1) (adv (length w + 1) p)))" for m
      using at(3) at'(1,3) by (cases m) (simp_all add: Let_def del: adv_adv)
  qed simp_all
qed

lemma string_complete:
  assumes "rest p = w @ CHR 0x22 # u @ CHR 0x22 # r" "blank w" "chars u s"
  obtains p' where "parse_string p = Ret (s, p')" "rest p' = r"
proof (rule that)
  show "parse_string p = Ret (s, adv (length w + length u + 2) p)"
    using assms by (auto simp: parse_string_iff)
  show "rest (adv (length w + length u + 2) p) = r" using assms(1) by simp
qed

lemma string_value_complete:
  assumes "rest p = w @ CHR 0x22 # u @ CHR 0x22 # r" "blank w" "chars u s"
  shows "\<exists>p'. rest p' = r \<and> (\<forall>n. fuel_le (parse_value D n p) (Ret (JString s, p')))"
proof -
  obtain p' where p': "parse_string p = Ret (s, p')" "rest p' = r" using string_complete [OF assms] .
  have "fuel_le (parse_value D n p) (Ret (JString s, p'))" for n
    using value_dispatch [OF assms(1,2), of D] p'(1) by (cases n) (simp_all del: parse_value.simps(2))
  with p'(2) show ?thesis by blast
qed

lemma number_complete:
  assumes "rest p = w @ t" "blank w" "gnumber D t v r"
  shows "\<exists>p'. rest p' = r \<and> (\<forall>n. fuel_le (parse_value D n p) (Ret (v, p')))"
proof -
  from assms(3) obtain c t' where c: "t = c # t'" "c = CHR ''-'' \<or> isdigit c" by (rule gnumber_start)
  then have d: "\<not> isspace c" "c \<noteq> CHR 0x22" by (auto simp: isdigit_not_space isdigit_def)
  have p: "rest p = w @ c # t'" using assms(1) c(1) by simp
  have "gnumber D (rest (skip_whitespace p)) v r"
    using assms(3) at_token(5) [OF p assms(2) d(1)] c(1) by simp
  then obtain p' where p': "parse_number D (skip_whitespace p) = Ret (v, p')" "rest p' = r"
    by (rule parse_number_complete)
  have "fuel_le (parse_value D n p) (Ret (v, p'))" for n
    using value_dispatch [OF p assms(2) d(1), of D] c(2) d(2) p'(1)
    by (cases n) (simp_all del: parse_value.simps(2))
  with p'(2) show ?thesis by blast
qed

lemma parser_complete:
  "gvalue D t v r \<Longrightarrow> rest p = t \<Longrightarrow>
     \<exists>p'. rest p' = r \<and> (\<forall>n. fuel_le (parse_value D n p) (Ret (v, p')))"
  "gelements D t vs r \<Longrightarrow> rest p = t \<Longrightarrow>
     \<exists>p'. rest p' = CHR '']'' # r \<and> (\<forall>n arr. fuel_le (parse_array_loop D n arr p) (Ret (arr @ vs, p')))"
  "gmembers D t ms r \<Longrightarrow> rest p = t \<Longrightarrow>
     \<exists>p'. rest p' = CHR ''}'' # r
       \<and> (\<forall>n obj. fuel_le (parse_object_loop D n obj p) (Ret (fold (\<lambda>(k, v). map_assign k v) ms obj, p')))"
proof (induction arbitrary: p and p and p rule: gvalue_gelements_gmembers.inducts)
  case (garray w t vs r)
  obtain c t' where c: "dropWhile isspace t = c # t'" "c \<noteq> CHR '']''"
    using gelements_start [OF \<open>gelements D t vs r\<close>] by blast
  from garray.IH(2) [OF at_token(4) [OF garray.prems \<open>blank w\<close> not_space_tokens(2)]] obtain p3 where
    p3: "rest p3 = CHR '']'' # r" "fuel_le (parse_array_loop D m [] (adv (length w + 1) p)) (Ret ([] @ vs, p3))" for m
    by blast
  from array_complete [OF garray.prems \<open>blank w\<close> refl c p3(2) [unfolded append_Nil] p3(1)] p3(1) show ?case
    by (intro exI [of _ "adv 1 p3"]) simp
next
  case (gobject w t ms r)
  obtain t' where c: "dropWhile isspace t = CHR 0x22 # t'" using gmembers_start [OF \<open>gmembers D t ms r\<close>] by blast
  from gobject.IH(2) [OF at_token(4) [OF gobject.prems \<open>blank w\<close> not_space_tokens(4)]] obtain p3 where
    p3: "rest p3 = CHR ''}'' # r" "fuel_le (parse_object_loop D m [] (adv (length w + 1) p))
       (Ret (fold (\<lambda>(k, v). map_assign k v) ms [], p3))" for m
    by blast
  from object_complete [OF gobject.prems \<open>blank w\<close> refl c p3(2,1)] p3(1) show ?case
    by (intro exI [of _ "adv 1 p3"]) simp
next
  case (glast t v w r)
  from glast.IH(2) [OF glast.prems] obtain p1 where p1: "rest p1 = w @ CHR '']'' # r"
    "fuel_le (parse_value D m p) (Ret (v, p1))" for m by blast
  have "fuel_le (parse_array_loop D n arr p) (Ret (arr @ [v], skip_whitespace p1))" for n arr
  proof (cases n)
    case (Suc m)
    show ?thesis unfolding Suc parse_array_loop.simps
      by (rule fuel_le_bind_Ret [OF p1(2)]) (simp add: at_token(1) [OF p1(1) \<open>blank w\<close>])
  qed simp
  then show ?case using at_token(5) [OF p1(1) \<open>blank w\<close>] by (intro exI [of _ "skip_whitespace p1"]) simp
next
  case (gmore t v w t' vs r)
  from gmore.IH(2) [OF gmore.prems] obtain p1 where p1: "rest p1 = w @ CHR '','' # t'"
    "fuel_le (parse_value D m p) (Ret (v, p1))" for m by blast
  note at = at_token [OF p1(1) \<open>blank w\<close> not_space_tokens(6)]
  from gmore.IH(4) [OF at(4)] obtain p' where p': "rest p' = CHR '']'' # r"
    "fuel_le (parse_array_loop D m acc (adv (length w + 1) p1)) (Ret (acc @ vs, p'))" for m acc by blast
  have "fuel_le (parse_array_loop D n arr p) (Ret (arr @ v # vs, p'))" for n arr
  proof (cases n)
    case (Suc m)
    show ?thesis unfolding Suc parse_array_loop.simps
      by (rule fuel_le_bind_Ret [OF p1(2)])
        (use p'(2) [of m "arr @ [v]"] in \<open>simp add: at(1,2)\<close>)
  qed simp
  with p'(1) show ?case by blast
next
  case (glast_member w u k x t v y r)
  obtain p1 where k: "parse_string p = Ret (k, p1)" "rest p1 = x @ CHR '':'' # t"
    using string_complete [OF glast_member.prems \<open>blank w\<close> \<open>chars u k\<close>] .
  note at = at_token [OF k(2) \<open>blank x\<close> not_space_tokens(7)]
  from glast_member.IH(2) [OF at(4)] obtain p3 where p3: "rest p3 = y @ CHR ''}'' # r"
    "fuel_le (parse_value D m (adv (length x + 1) p1)) (Ret (v, p3))" for m by blast
  have "fuel_le (parse_object_loop D n obj p) (Ret (map_assign k v obj, skip_whitespace p3))" for n obj
  proof (cases n)
    case (Suc m)
    show ?thesis unfolding Suc parse_object_loop.simps k(1) at(3) obind.simps prod.case
      by (rule fuel_le_bind_Ret [OF p3(2)]) (simp add: at_token(1) [OF p3(1) \<open>blank y\<close>])
  qed simp
  then show ?case using at_token(5) [OF p3(1) \<open>blank y\<close>]
    by (intro exI [of _ "skip_whitespace p3"]) simp
next
  case (gmore_members w u k x t v y t' ms r)
  obtain p1 where k: "parse_string p = Ret (k, p1)" "rest p1 = x @ CHR '':'' # t"
    using string_complete [OF gmore_members.prems \<open>blank w\<close> \<open>chars u k\<close>] .
  note at = at_token [OF k(2) \<open>blank x\<close> not_space_tokens(7)]
  from gmore_members.IH(2) [OF at(4)] obtain p3 where p3: "rest p3 = y @ CHR '','' # t'"
    "fuel_le (parse_value D m (adv (length x + 1) p1)) (Ret (v, p3))" for m by blast
  note at' = at_token [OF p3(1) \<open>blank y\<close> not_space_tokens(6)]
  from gmore_members.IH(4) [OF at'(4)] obtain p' where p': "rest p' = CHR ''}'' # r"
    "fuel_le (parse_object_loop D m acc (adv (length y + 1) p3))
       (Ret (fold (\<lambda>(k, v). map_assign k v) ms acc, p'))" for m acc by blast
  have "fuel_le (parse_object_loop D n obj p)
      (Ret (fold (\<lambda>(k, v). map_assign k v) ((k, v) # ms) obj, p'))" for n obj
  proof (cases n)
    case (Suc m)
    show ?thesis unfolding Suc parse_object_loop.simps k(1) at(3) obind.simps prod.case
      by (rule fuel_le_bind_Ret [OF p3(2)])
        (use p'(2) [of m "map_assign k v obj"] in \<open>simp add: at'(1,2)\<close>)
  qed simp
  with p'(1) show ?case by blast
qed (blast intro: string_value_complete number_complete literal_complete empty_complete empty_object_complete)+

section \<open>The parser and the grammar agree\<close>

lemma blank_iff: "blank t \<longleftrightarrow> dropWhile isspace t = []"
  by (simp add: blank_def)

lemma at_end_iff:
  "parser_ok p \<Longrightarrow> pos (skip_whitespace p) = length (json_str (skip_whitespace p)) \<longleftrightarrow> blank (rest p)"
  using skip_whitespace_remaining(2) [of p] in_range_iff [of "skip_whitespace p"]
  by (auto simp: parser_ok_def blank_iff)

lemma parse_value_grammar:
  "gvalue D s v r \<longleftrightarrow>
   (\<exists>p. parse_value D (parse_fuel s) (JsonParser s) = Ret (v, p) \<and> rest p = r)"
proof
  assume "gvalue D s v r"
  then obtain p where "rest p = r" "fuel_le (parse_value D (parse_fuel s) (JsonParser s)) (Ret (v, p))"
    using parser_complete(1) [of D s v r "JsonParser s"] by auto
  with parse_value_total [of D s]
  show "\<exists>p. parse_value D (parse_fuel s) (JsonParser s) = Ret (v, p) \<and> rest p = r"
    by (auto simp: fuel_le_def)
next
  assume "\<exists>p. parse_value D (parse_fuel s) (JsonParser s) = Ret (v, p) \<and> rest p = r"
  then show "gvalue D s v r" using parser_sound(1) [of D "parse_fuel s" "JsonParser s" v] by auto
qed

lemma parse_after_value:
  assumes "parse_value D (parse_fuel s) (JsonParser s) = Ret (v, p)"
  shows "parse D s = (if blank (rest p) then Ret v
    else Throw (runtime_error (''Extra characters after JSON value at position ''
           @ nat_to_string (pos (skip_whitespace p)))))"
proof -
  have "parser_ok p" using parse_progress(1) [OF assms] by (auto simp: lt_pos_def le_pos_def)
  then show ?thesis using at_end_iff [of p] by (simp add: parse_def assms Let_def)
qed

lemma grammar_unambiguous: "gvalue D s v r \<Longrightarrow> gvalue D s v' r' \<Longrightarrow> v' = v \<and> r' = r"
  by (auto simp: parse_value_grammar)

lemma parse_Ret_grammar: "parse D s = Ret v \<longleftrightarrow> (\<exists>r. gvalue D s v r \<and> blank r)"
proof -
  have "parse D s = Ret v \<longleftrightarrow>
      (\<exists>p. parse_value D (parse_fuel s) (JsonParser s) = Ret (v, p) \<and> blank (rest p))"
  proof (cases "\<exists>v' p. parse_value D (parse_fuel s) (JsonParser s) = Ret (v', p)")
    case True
    then obtain v' p where r: "parse_value D (parse_fuel s) (JsonParser s) = Ret (v', p)" by blast
    show ?thesis by (auto simp: parse_after_value [OF r] r)
  next
    case False
    then show ?thesis by (auto simp: parse_def outcome_iff)
  qed
  then show ?thesis by (auto simp: parse_value_grammar)
qed

lemma parse_not_Diverge: "parse D s \<noteq> Diverge"
  using parse_value_total [of D s] by (auto simp: parse_def outcome_iff Let_def split: if_splits)

text \<open>
  C2: the parser implements its grammar.  \<open>parse\<close> returns a value exactly when the grammar
  derives that value from the text with only blanks left over, and it throws on every text from
  which the grammar derives no value in this way.
\<close>

theorem json_parse_grammar:
  "(parse D s = Ret v \<longleftrightarrow> (\<exists>r. gvalue D s v r \<and> blank r))
   \<and> (throws (parse D s) \<longleftrightarrow> \<not> (\<exists>v r. gvalue D s v r \<and> blank r))"
proof -
  have "throws (parse D s) \<longleftrightarrow> \<not> (\<exists>v. parse D s = Ret v)"
    using parse_not_Diverge [of D s] by (cases "parse D s") auto
  then show ?thesis by (auto simp: parse_Ret_grammar)
qed

end
