(* ===== verification/Node_Store.thy ===== *)
theory Node_Store
  imports Node_Variants Step_System
begin

text \<open>
  The sharing behind \<open>struct Node\<close> of \<open>cjunk/trivialJson/json.hpp\<close>.  A list node holds a
  \<open>std::shared_ptr\<close> to its vector, so copies of a node share the vector, \<open>operator!=\<close> compares
  the pointers, and a vector that was reached through a shared pointer may be made to contain
  itself.  Vectors are the cells of an explicit store; \<open>JsonVisitor\<close> of \<open>json.cpp\<close> runs on the
  store with one unit of fuel per vector it enters.  The theory \<open>Small_Json\<close> describes nodes as
  trees: the visitor on the store prints the tree that the store unfolds to, when there is one.
  What is modelled of the visitor is the text it returns; the lines it also writes to \<open>std::cout\<close>
  while it runs are left out.
\<close>

section \<open>Nodes with addresses\<close>

datatype 'd Storage =
    StSmall string
  | StInt int
  | StDouble 'd
  | StPtr "nat option"

text \<open>The vectors by address; addresses below \<open>fresh\<close> are allocated.\<close>

record 'd heap =
  vec :: "nat \<Rightarrow> 'd Storage list"
  fresh :: nat

definition heap_empty :: "'d heap" where
  "heap_empty = \<lparr>vec = (\<lambda>_. []), fresh = 0\<rparr>"

text \<open>
  What a client of the header may do to vectors of nodes: create one, and append to one through a
  pointer it kept.  No program of the repository does it; the two operations stand for any client.
\<close>

definition make_list :: "'d Storage list \<Rightarrow> 'd heap \<Rightarrow> 'd heap \<times> 'd Storage" where
  "make_list xs h = (h\<lparr>vec := (vec h)(fresh h := xs), fresh := fresh h + 1\<rparr>, StPtr (Some (fresh h)))"

definition list_push :: "nat \<Rightarrow> 'd Storage \<Rightarrow> 'd heap \<Rightarrow> 'd heap" where
  "list_push a x h = h\<lparr>vec := (vec h)(a := vec h a @ [x])\<rparr>"

text \<open>
  \<open>operator!=\<close> of the two variants: different alternatives differ; otherwise the contents are
  compared, arrays by their characters, doubles by \<open>dne\<close> (the \<open>!=\<close> of \<open>double\<close>), pointers by address.
\<close>

fun node_ne :: "('d \<Rightarrow> 'd \<Rightarrow> bool) \<Rightarrow> 'd Storage \<Rightarrow> 'd Storage \<Rightarrow> bool" where
  "node_ne dne (StSmall a) (StSmall b) = (a \<noteq> b)"
| "node_ne dne (StInt i) (StInt j) = (i \<noteq> j)"
| "node_ne dne (StDouble x) (StDouble y) = dne x y"
| "node_ne dne (StPtr p) (StPtr q) = (p \<noteq> q)"
| "node_ne dne _ _ = True"

section \<open>The visitor on the store\<close>

text \<open>The loop over the vector: the first text that is not produced ends it.\<close>

fun visit_all :: "('a \<Rightarrow> ('e, string) outcome) \<Rightarrow> bool \<Rightarrow> 'a list \<Rightarrow> ('e, string) outcome" where
  "visit_all f first [] = Ret []"
| "visit_all f first (x # xs) =
     obind (f x) (\<lambda>t. omap (\<lambda>u. (if first then t else CHR '','' # t) @ u) (visit_all f False xs))"

fun visit_storage :: "('d \<Rightarrow> string) \<Rightarrow> 'd heap \<Rightarrow> nat \<Rightarrow> 'd Storage \<Rightarrow> (std_exception, string) outcome" where
  "visit_storage D h n (StPtr None) = Ret ''nullptr!!!''"
| "visit_storage D h 0 (StPtr (Some a)) = Diverge"
| "visit_storage D h (Suc n) (StPtr (Some a)) =
     omap (\<lambda>t. ''['' @ t @ '']'') (visit_all (visit_storage D h n) True (vec h a))"
| "visit_storage D h n (StSmall str) = Ret ([CHR 0x22] @ until_nul str @ [CHR 0x22])"
| "visit_storage D h n (StInt i) = Ret (to_string i)"
| "visit_storage D h n (StDouble d) = Ret (D d)"

text \<open>\<open>Node::visit\<close> and the friend function of the same name apply the visitor to the storage.\<close>

definition Node_visit :: "('d Storage \<Rightarrow> 'r) \<Rightarrow> 'd Storage \<Rightarrow> 'r" where
  "Node_visit v storage = v storage"

section \<open>Trees behind the store\<close>

text \<open>The node \<open>x\<close> of the heap \<open>h\<close> unfolds to a tree of depth at most \<open>n\<close>.\<close>

inductive unfolds :: "'d heap \<Rightarrow> nat \<Rightarrow> 'd Storage \<Rightarrow> 'd Node \<Rightarrow> bool" for h where
  unfolds_null: "unfolds h n (StPtr None) (NList None)"
| unfolds_list: "list_all2 (unfolds h n) (vec h a) ts \<Longrightarrow> unfolds h (Suc n) (StPtr (Some a)) (NList (Some ts))"
| unfolds_small: "unfolds h n (StSmall s) (NSmall s)"
| unfolds_int: "unfolds h n (StInt i) (NInt i)"
| unfolds_double: "unfolds h n (StDouble d) (NDouble d)"

inductive_cases unfoldsE: "unfolds h n (StPtr (Some a)) t"

text \<open>A heap whose vectors only point to vectors created before them.\<close>

definition pts_below :: "nat \<Rightarrow> 'd Storage \<Rightarrow> bool" where
  "pts_below m x = (case x of StPtr (Some a) \<Rightarrow> a < m | _ \<Rightarrow> True)"

definition layered :: "'d heap \<Rightarrow> bool" where
  "layered h \<longleftrightarrow> (\<forall>a < fresh h. \<forall>x \<in> set (vec h a). pts_below a x)"

lemma visit_all_map:
  "list_all2 (\<lambda>x t. f x = Ret (g t)) xs ts \<Longrightarrow> visit_all f first xs = Ret (join_comma first (map g ts))"
  by (induction xs ts arbitrary: first rule: list_all2_induct) auto

lemma visit_all_Diverge:
  "x \<in> set xs \<Longrightarrow> f x = Diverge \<Longrightarrow> (\<And>y e. f y \<noteq> Throw e) \<Longrightarrow> visit_all f first xs = Diverge"
proof (induction xs arbitrary: first)
  case (Cons y ys)
  show ?case
  proof (cases "f y")
    case (Ret t)
    with Cons show ?thesis by auto
  next
    case (Throw e)
    with Cons.prems(3) show ?thesis by blast
  qed simp
qed simp

lemma visit_all_no_throw: "(\<And>y e. f y \<noteq> Throw e) \<Longrightarrow> visit_all f first xs \<noteq> Throw e"
proof (induction xs arbitrary: first e)
  case (Cons y ys)
  then show ?case by (cases "f y"; cases "visit_all f False ys") auto
qed simp

lemma visit_storage_no_throw: "visit_storage D h n x \<noteq> Throw e"
proof (induction D h n x arbitrary: e rule: visit_storage.induct)
  case (3 D h n a)
  have "visit_all (visit_storage D h n) True (vec h a) \<noteq> Throw e" for e
    using 3 by (intro visit_all_no_throw) auto
  then show ?case by (cases "visit_all (visit_storage D h n) True (vec h a)") auto
qed simp_all

lemma unfolds_visit: "unfolds h n x t \<Longrightarrow> visit_storage D h n x = Ret (visit_node D t)"
proof (induction n arbitrary: x t)
  case 0
  then show ?case by (cases rule: unfolds.cases) simp_all
next
  case (Suc n)
  from Suc.prems show ?case
  proof cases
    case (unfolds_list a ts)
    then have "list_all2 (\<lambda>x t. visit_storage D h n x = Ret (visit_node D t)) (vec h a) ts"
      using Suc.IH by (auto elim!: list_all2_mono)
    with unfolds_list show ?thesis by (simp add: visit_all_map)
  qed simp_all
qed

lemma list_all2_choice: "\<forall>y \<in> set ys. \<exists>t. P y t \<Longrightarrow> \<exists>ts. list_all2 P ys ts"
  by (induction ys) (auto simp: list_all2_Cons1)

lemma layered_unfolds:
  "layered h \<Longrightarrow> n \<le> fresh h \<Longrightarrow> pts_below n x \<Longrightarrow> \<exists>t. unfolds h n x t"
proof (induction n arbitrary: x)
  case 0
  then show ?case
    by (cases x) (auto simp: pts_below_def split: option.splits intro: unfolds.intros)
next
  case (Suc n)
  show ?case
  proof (cases x)
    case (StPtr p)
    show ?thesis
    proof (cases p)
      case (Some a)
      with StPtr Suc.prems have a: "a \<le> n" "a < fresh h" by (auto simp: pts_below_def)
      have "\<forall>y \<in> set (vec h a). pts_below n y"
        using Suc.prems(1) a by (fastforce simp: layered_def pts_below_def split: Storage.splits option.splits)
      then have "\<forall>y \<in> set (vec h a). \<exists>t. unfolds h n y t" using Suc by simp
      then have "\<exists>ts. list_all2 (unfolds h n) (vec h a) ts" by (rule list_all2_choice)
      then show ?thesis using StPtr Some by (blast intro: unfolds_list)
    qed (use StPtr in \<open>blast intro: unfolds_null\<close>)
  qed (blast intro: unfolds.intros)+
qed

section \<open>Vectors built from existing nodes\<close>

text \<open>A client that only creates vectors, from nodes it already has.\<close>

inductive create_step :: "'d heap \<Rightarrow> 'd heap \<Rightarrow> bool" where
  create: "\<forall>x \<in> set xs. pts_below (fresh h) x \<Longrightarrow> create_step h (fst (make_list xs h))"

inductive_cases create_stepE: "create_step h h'"

interpretation creating: step_invariant "(=) heap_empty" create_step layered
proof
  show "layered s" if "heap_empty = s" for s :: "'a heap"
    using that by (auto simp: layered_def heap_empty_def)
  show "layered s'" if "layered s" "create_step s s'" for s s' :: "'a heap"
    using that by (elim create_stepE) (auto simp: layered_def make_list_def less_Suc_eq)
qed

text \<open>
  a client that builds its vectors from nodes it already has never builds a cycle.  Every
  node of such a store unfolds to a tree, and the visitor, which follows the shared pointers,
  returns the text of that tree.
\<close>

theorem shared_lists_serialize:
  assumes "reachable ((=) heap_empty) create_step h" and "pts_below (fresh h) x"
  shows "\<exists>t. unfolds h (fresh h) x t \<and> visit_storage D h (fresh h) x = Ret (serialize_node D t)"
  using layered_unfolds [OF creating.reachable_inv [OF assms(1)] order_refl assms(2)]
  by (auto simp: serialize_node_def dest: unfolds_visit)

definition sharing_example :: "nat heap \<times> nat Storage" where
  "sharing_example = (let (h, p) = make_list [StInt 1] heap_empty in make_list [p, p] h)"

lemma sharing_example_reachable:
  "reachable ((=) heap_empty) create_step (fst sharing_example)"
  "pts_below (fresh (fst sharing_example)) (snd sharing_example)"
proof -
  have "reachable ((=) heap_empty) create_step (fst (make_list [StInt (1 :: int)] (heap_empty :: nat heap)))"
    by (intro reachable_step [OF reachable_initial] create) (simp add: pts_below_def)
  then show "reachable ((=) heap_empty) create_step (fst sharing_example)"
    unfolding sharing_example_def Let_def case_prod_beta
    by (elim reachable_step) (intro create, simp add: make_list_def pts_below_def heap_empty_def)
  show "pts_below (fresh (fst sharing_example)) (snd sharing_example)"
    by (simp add: sharing_example_def Let_def make_list_def pts_below_def heap_empty_def)
qed

theorem shared_lists_serialize_witness:
  "(\<exists>t. unfolds (fst sharing_example) (fresh (fst sharing_example)) (snd sharing_example) t
      \<and> visit_storage (\<lambda>_. []) (fst sharing_example) (fresh (fst sharing_example)) (snd sharing_example)
        = Ret (serialize_node (\<lambda>_. []) t))
   \<and> visit_storage (\<lambda>_. []) (fst sharing_example) (fresh (fst sharing_example)) (snd sharing_example)
        = Ret ''[[1],[1]]''"
proof
  show "visit_storage (\<lambda>_. []) (fst sharing_example) (fresh (fst sharing_example)) (snd sharing_example)
      = Ret ''[[1],[1]]''"
    by code_simp
qed (rule shared_lists_serialize [OF sharing_example_reachable])

text \<open>
  a vector that is made to contain a pointer to itself is never printed: the visitor recurses
  without end, whatever the fuel.
\<close>

theorem self_containing_list_diverges:
  "visit_storage D (list_push a (StPtr (Some a)) h) n (StPtr (Some a)) = Diverge"
proof (induction n)
  case (Suc n)
  have "visit_all (visit_storage D (list_push a (StPtr (Some a)) h) n) True
      (vec (list_push a (StPtr (Some a)) h) a) = Diverge"
    by (rule visit_all_Diverge [of "StPtr (Some a)"]) (simp_all add: list_push_def Suc [unfolded list_push_def] visit_storage_no_throw)
  then show ?case by simp
qed simp

text \<open>
  nodes that \<open>operator!=\<close> does not tell apart print the same text, provided equal doubles do, but
  not conversely: two vectors with the same elements are different nodes.
\<close>

theorem node_ne_printing:
  assumes "\<And>u v. \<not> dne u v \<Longrightarrow> D u = D v" and "\<not> node_ne dne x y"
  shows "visit_storage D h n x = visit_storage D h n y"
  using assms by (cases x; cases y; cases n) auto

theorem node_ne_by_address:
  assumes "make_list xs h = (h1, p)" "make_list xs h1 = (h2, q)"
  shows "node_ne dne p q \<and> vec h2 (fresh h) = vec h2 (fresh h1)"
  using assms by (auto simp: make_list_def)

end
