(* ===== verification/Small_Parse.thy ===== *)
theory Small_Parse
  imports Machine Cxx_Lib "HOL-Library.AList"
begin

text \<open>
  \<open>fromJsonString\<close> of \<open>cjunk/trivialJson/SmallMemoryModel.cpp\<close>.  The function is disabled by the
  preprocessor and writes alternatives that the node's variant does not have; it is modelled with the
  meaning of its text: a node is empty, as its default constructor leaves it, or owns a map, a vector of
  integers, a string or a number.  The iterators are the rest of the text that they point to.
\<close>

section \<open>The parser\<close>

datatype small_node =
    Default
  | Map_of "(string \<times> small_node) list"
  | Ints "int list"
  | Str string
  | Long int

text \<open>\<open>*it - '0'\<close> with the sign of \<open>char\<close>.\<close>

definition char_offset :: "char \<Rightarrow> int" where
  "char_offset c = (let v = (of_char c :: int) in (if v < 128 then v else v - 256) - 48)"

definition accumulate :: "int \<Rightarrow> char \<Rightarrow> (ub, int) outcome" where
  "accumulate val c = obind (int32 (val * 10)) (\<lambda>v. int32 (v + char_offset c))"

fun int_loop :: "int \<Rightarrow> string \<Rightarrow> (ub, int \<times> string) outcome" where
  "int_loop val [] = Ret (val, [])"
| "int_loop val (c # s) =
     (if c \<noteq> CHR '','' \<and> c \<noteq> CHR '']'' then obind (accumulate val c) (\<lambda>v. int_loop v s) else Ret (val, c # s))"

lemma int_loop_length: "int_loop val s = Ret (v, r) \<Longrightarrow> length r \<le> length s"
  by (induction val s arbitrary: v r rule: int_loop.induct) (auto simp: outcome_iff split: if_splits intro: le_SucI)

lemma int_loop_stop: "int_loop val s = Ret (v, c # r) \<Longrightarrow> c = CHR '','' \<or> c = CHR '']''"
  by (induction val s arbitrary: v rule: int_loop.induct) (auto simp: outcome_iff split: if_splits)

lemma int_loop_less:
  "int_loop val s = Ret (v, CHR '']'' # r) \<Longrightarrow> s \<noteq> [] \<Longrightarrow> hd s \<noteq> CHR '']'' \<Longrightarrow> length r + 1 < length s"
  by (cases s) (fastforce simp: outcome_iff split: if_splits dest: int_loop_length)+

text \<open>A number that the text ends in is not stored.\<close>

function (sequential) array_loop :: "string \<Rightarrow> int list \<Rightarrow> (ub, small_node) outcome" where
  "array_loop [] vs = Ret (Ints vs)"
| "array_loop (c # s) vs =
     (if c = CHR '']'' then Ret (Ints vs)
      else obind (int_loop 0 (c # s)) (\<lambda>(v, r).
        if r = [] then Ret (Ints vs)
        else if hd r = CHR '','' then array_loop (tl r) (vs @ [v])
        else array_loop r (vs @ [v])))"
  by pat_completeness auto
termination
proof (relation "measure (\<lambda>(s, vs). length s)", goal_cases)
  case (2 c s vs x v r)
  then show ?case using int_loop_length [of 0 "c # s" v r] by (cases r) auto
next
  case (3 c s vs x v r)
  then show ?case
    using int_loop_less [of 0 "c # s" v "tl r"] int_loop_stop [of 0 "c # s" v "hd r" "tl r"] by (cases r) auto
qed simp

declare array_loop.simps(2) [simp del]

text \<open>Both loops below make a new object for every character.\<close>

fun string_loop :: "string \<Rightarrow> small_node \<Rightarrow> small_node" where
  "string_loop [] n = n"
| "string_loop (c # s) n = (if c \<noteq> CHR 0x22 then string_loop s (Str [c]) else n)"

fun long_loop :: "string \<Rightarrow> small_node \<Rightarrow> small_node" where
  "long_loop [] n = n"
| "long_loop (c # s) n =
     (if c \<noteq> CHR '','' \<and> c \<noteq> CHR ''}'' then long_loop s (Long (0 * 10 + char_offset c)) else n)"

lemma length_after: "dropWhile P s = c # r \<Longrightarrow> length r < length s"
  by (metis Suc_le_lessD length_Cons length_dropWhile_le)

text \<open>
  A key is everything up to the colon.  The value is parsed from a copy of the rest of the text, and its
  end is then looked for from its start, at the first comma or closing brace.
\<close>

function (sequential) fromJsonString :: "string \<Rightarrow> (ub, small_node) outcome"
  and object_loop :: "string \<Rightarrow> (string \<times> small_node) list \<Rightarrow> (ub, small_node) outcome" where
  "fromJsonString [] = Ret Default"
| "fromJsonString (c # s) =
     (if c = CHR ''{'' then object_loop s []
      else if c = CHR ''['' then array_loop s []
      else if c = CHR 0x22 then Ret (string_loop s Default)
      else Ret (long_loop (c # s) Default))"
| "object_loop [] m = Ret (Map_of m)"
| "object_loop (c # s) m =
     (if c = CHR ''}'' then Ret (Map_of m)
      else let key = takeWhile (\<lambda>x. x \<noteq> CHR '':'') (c # s)
           in case dropWhile (\<lambda>x. x \<noteq> CHR '':'') (c # s) of
                [] \<Rightarrow> Ret (Map_of m)
              | _ # rest \<Rightarrow>
                  obind (fromJsonString rest) (\<lambda>val.
                    let m' = AList.update key val m
                    in case dropWhile (\<lambda>x. x \<noteq> CHR '','' \<and> x \<noteq> CHR ''}'') rest of
                         [] \<Rightarrow> Ret (Map_of m')
                       | d # r \<Rightarrow> if d = CHR '','' then object_loop r m' else object_loop (d # r) m'))"
  by pat_completeness auto
termination
proof (relation "measure (case_sum length (\<lambda>(s, m). length s))", goal_cases)
  case (3 c s m x colon rest)
  then show ?case using length_after by fastforce
next
  case (4 c s m x colon rest val y d r)
  then show ?case using length_after [of _ "c # s" colon rest] length_after [of _ rest d r] by fastforce
next
  case (5 c s m x colon rest val y d r)
  then show ?case using length_after [of _ "c # s" colon rest] length_after [of _ rest d r] by fastforce
qed simp_all

declare fromJsonString.simps(2) [simp del] object_loop.simps(2) [simp del]

section \<open>Properties\<close>

lemma char_offset_digits: "\<forall>c \<in> set ''0123456789''. char_offset c = int (digit_val c)"
  by code_simp

lemma char_offset_digit: "isdigit c \<Longrightarrow> char_offset c = int (digit_val c)"
  using char_offset_digits by (simp only: isdigit_def)

abbreviation decimal :: "nat \<Rightarrow> string \<Rightarrow> nat" where
  "decimal a ds \<equiv> foldl (\<lambda>a c. 10 * a + digit_val c) a ds"

lemma decimal_le: "a \<le> decimal a ds"
proof (induction ds arbitrary: a)
  case (Cons c ds)
  have "a \<le> 10 * a + digit_val c" by simp
  also have "\<dots> \<le> decimal (10 * a + digit_val c) ds" by (rule Cons)
  finally show ?case by simp
qed simp

lemma accumulate_digit:
  assumes "isdigit c" "int (10 * a + digit_val c) \<le> INT_MAX"
  shows "accumulate (int a) c = Ret (int (10 * a + digit_val c))"
  using assms int32_nat [of "10 * a"] int32_nat [of "10 * a + digit_val c"]
  by (simp add: accumulate_def char_offset_digit mult.commute)

lemma isdigit_not_separator: "isdigit c \<Longrightarrow> c \<noteq> CHR '','' \<and> c \<noteq> CHR '']'' \<and> c \<noteq> CHR ''}''"
  by (auto simp: isdigit_def)

lemma int_loop_decimal:
  assumes "\<forall>c \<in> set ds. isdigit c" "int (decimal a ds) \<le> INT_MAX" "d = CHR '','' \<or> d = CHR '']''"
  shows "int_loop (int a) (ds @ d # r) = Ret (int (decimal a ds), d # r)"
  using assms
proof (induction ds arbitrary: a)
  case (Cons c ds)
  have "int (10 * a + digit_val c) \<le> INT_MAX" using decimal_le [of "10 * a + digit_val c" ds] Cons.prems(2) by simp
  moreover have "int_loop (int (10 * a + digit_val c)) (ds @ d # r) = Ret (int (decimal a (c # ds)), d # r)"
    using Cons by (subst Cons.IH) auto
  ultimately show ?case
    using Cons.prems(1) accumulate_digit [of c a] isdigit_not_separator [of c] by simp
qed auto

lemma int_loop_nat:
  "int n \<le> INT_MAX \<Longrightarrow> d = CHR '','' \<or> d = CHR '']'' \<Longrightarrow>
   int_loop 0 (nat_to_string n @ d # r) = Ret (int n, d # r)"
  using int_loop_decimal [of "nat_to_string n" 0 d r] nat_to_string_digits [of n] digits_val_nat_to_string [of n]
  by (simp add: digits_val_def)

lemma array_loop_nat:
  assumes "int n \<le> INT_MAX" "d = CHR '','' \<or> d = CHR '']''"
  shows "array_loop (nat_to_string n @ d # r) vs
    = (if d = CHR '','' then array_loop r (vs @ [int n]) else Ret (Ints (vs @ [int n])))"
proof -
  obtain c ds where cs: "nat_to_string n = c # ds" using nat_to_string_nonempty [of n] by (cases "nat_to_string n") auto
  then have "isdigit c" using hd_nat_to_string [of n] by simp
  with cs isdigit_not_separator [of c] int_loop_nat [OF assms, of r] assms(2) show ?thesis
    by (auto simp: array_loop.simps(2))
qed

fun comma_separated :: "string list \<Rightarrow> string" where
  "comma_separated [] = []"
| "comma_separated [x] = x"
| "comma_separated (x # xs) = x @ CHR '','' # comma_separated xs"

lemma array_loop_text:
  "ns \<noteq> [] \<Longrightarrow> \<forall>n \<in> set ns. int n \<le> INT_MAX \<Longrightarrow>
   array_loop (comma_separated (map nat_to_string ns) @ CHR '']'' # r) vs = Ret (Ints (vs @ map int ns))"
proof (induction ns arbitrary: vs rule: induct_list012)
  case (2 n)
  then show ?case using array_loop_nat [of n "CHR '']''" r vs] by simp
next
  case (3 n m ns)
  then show ?case
    using array_loop_nat [of n "CHR '',''" "comma_separated (map nat_to_string (m # ns)) @ CHR '']'' # r" vs] by simp
qed simp

text \<open>
  \<open>fromJsonString\<close> reads back the arrays of numbers that fit an \<open>int\<close>, from their decimal texts
  separated by commas.
\<close>

theorem from_json_array_roundtrip:
  assumes "\<forall>n \<in> set ns. int n \<le> INT_MAX"
  shows "fromJsonString (''['' @ comma_separated (map nat_to_string ns) @ '']'') = Ret (Ints (map int ns))"
  using assms array_loop_text [of ns "[]" "[]"]
  by (cases ns) (simp_all add: fromJsonString.simps(2) array_loop.simps(2))

theorem from_json_array_roundtrip_witness:
  "fromJsonString (''['' @ comma_separated (map nat_to_string [7, 42]) @ '']'') = Ret (Ints [7, 42])"
  using from_json_array_roundtrip [of "[7, 42]"] by (simp add: INT_MAX_def)

lemma string_loop_last: "\<forall>c \<in> set s. c \<noteq> CHR 0x22 \<Longrightarrow> s \<noteq> [] \<Longrightarrow> string_loop (s @ CHR 0x22 # r) n = Str [last s]"
  by (induction s arbitrary: n) auto

lemma long_loop_last: "\<forall>c \<in> set s. isdigit c \<Longrightarrow> s \<noteq> [] \<Longrightarrow> long_loop s n = Long (int (digit_val (last s)))"
  by (induction s arbitrary: n) (auto simp: char_offset_digit isdigit_not_separator)

text \<open>
  Strings and numbers outside arrays lose all but their last character, since every round of the
  loops replaces the object; an array element beyond the range of \<open>int\<close> overflows; and an object whose
  value is an object loses what follows, since the end of the inner one is taken for its own.
\<close>

theorem from_json_keeps_last_character:
  "(s \<noteq> [] \<and> CHR 0x22 \<notin> set s \<longrightarrow> fromJsonString (CHR 0x22 # s @ [CHR 0x22]) = Ret (Str [last s]))
   \<and> fromJsonString (nat_to_string n) = Ret (Long (int (n mod 10)))"
proof (intro conjI impI)
  assume "s \<noteq> [] \<and> CHR 0x22 \<notin> set s"
  then show "fromJsonString (CHR 0x22 # s @ [CHR 0x22]) = Ret (Str [last s])"
    using string_loop_last [of s "[]" Default] by (auto simp: fromJsonString.simps(2))
next
  obtain c ds where cs: "nat_to_string n = c # ds" using nat_to_string_nonempty [of n] by (cases "nat_to_string n") auto
  have c: "isdigit c" using hd_nat_to_string [of n] cs by simp
  have "digit_val (last (nat_to_string n)) = n mod 10" by (subst nat_to_string.simps) simp
  moreover have "fromJsonString (nat_to_string n) = Ret (long_loop (nat_to_string n) Default)"
    using c by (auto simp: cs fromJsonString.simps(2) isdigit_def)
  ultimately show "fromJsonString (nat_to_string n) = Ret (Long (int (n mod 10)))"
    using long_loop_last [of "nat_to_string n" Default] nat_to_string_digits [of n] by simp
qed

lemma from_json_overflow: "fromJsonString ''[2147483648]'' = Throw Signed_overflow"
  by (simp add: fromJsonString.simps(2) array_loop.simps(2) accumulate_def char_offset_def int32_def INT_MIN_def INT_MAX_def)

lemma from_json_nested_object:
  "fromJsonString ''{a:{b:1},c:2}'' = Ret (Map_of [(''a'', Map_of [(''b'', Long 1)])])"
  by (simp add: fromJsonString.simps(2) object_loop.simps(2) char_offset_def)

end
