(* ===== verification/Decoder_Memory.thy ===== *)
theory Decoder_Memory
  imports Network_Stream
begin

text \<open>
  The memory of \<open>X264FrameDecoder\<close> in \<open>cjunk/practice/networkframeStream.cpp\<close>: which of its
  pointers \<open>open\<close> sets to objects of its own and which to parts of the format context, and what the
  destructor makes of them.  A block of memory is an address, the blocks in use are a set; releasing a
  block that is not in use is undefined and gives \<open>Use_after_close\<close>.  As documented, the library
  releases the format context itself when opening the input fails, and \<open>avformat_close_input\<close> releases it with
  its streams and their codec contexts.  The constructor hands its null packet to \<open>av_init_packet\<close>, which writes to
  it, so that no decoder is ever constructed; the lemmas below say what the other functions do to a decoder
  whose members are as the constructor's initialisers leave them.
\<close>

section \<open>Model\<close>

record format_context =
  fmt_addr :: nat
  fmt_streams :: "(nat \<times> nat) list"

text \<open>The packet and \<open>av_frame_\<close> are null throughout.\<close>

record decoder_memory =
  in_use :: "nat set"
  p_packet :: "nat option"
  p_frame :: "nat option"
  p_codec_context :: "nat option"
  p_frame_stream :: "nat option"
  p_codec_context_stream :: "nat option"
  p_format_context :: "format_context option"

definition memory_init :: decoder_memory where
  "memory_init = \<lparr>in_use = {}, p_packet = None, p_frame = None, p_codec_context = None, p_frame_stream = None,
     p_codec_context_stream = None, p_format_context = None\<rparr>"

definition X264FrameDecoder_ctor :: "(ub, decoder_memory) outcome" where
  "X264FrameDecoder_ctor = (case p_packet memory_init of None \<Rightarrow> Throw Null_dereference | Some _ \<Rightarrow> Ret memory_init)"

definition context_blocks :: "format_context \<Rightarrow> nat list" where
  "context_blocks fmt = map fst (fmt_streams fmt) @ map snd (fmt_streams fmt) @ [fmt_addr fmt]"

text \<open>
  \<open>ctx\<close> is the block of the new codec context, \<open>None\<close> when there is no memory for it, and \<open>frame\<close> that of the new
  frame, which is overwritten at once.
\<close>

definition memory_open ::
  "open_results \<Rightarrow> format_context \<Rightarrow> nat option \<Rightarrow> nat \<Rightarrow> decoder_memory \<Rightarrow> (ub, decoder_memory) outcome" where
  "memory_open L fmt ctx frame m =
     (if r_open_input L \<noteq> 0 then Ret (m\<lparr>p_format_context := None\<rparr>)
      else let m1 = m\<lparr>in_use := in_use m \<union> set (context_blocks fmt), p_format_context := Some fmt\<rparr>
      in if r_find_stream_info L < 0 \<or> r_best_stream L < 0 then Ret m1
      else case ctx of None \<Rightarrow> Throw Null_dereference | Some c \<Rightarrow>
        let m2 = m1\<lparr>in_use := insert c (in_use m1), p_codec_context := Some c,
                    p_codec_context_stream := Some (fst (fmt_streams fmt ! nat (r_best_stream L)))\<rparr>
      in if \<not> r_find_decoder L \<or> r_open2 L < 0 then Ret m2
      else let m3 = m2\<lparr>in_use := insert frame (in_use m2), p_frame_stream := Some frame\<rparr>
      in if r_best_stream_again L < 0 then Ret m3
      else Ret (m3\<lparr>p_frame_stream := Some (snd (fmt_streams fmt ! nat (r_best_stream_again L)))\<rparr>))"

fun release :: "nat list \<Rightarrow> nat set \<Rightarrow> (ub, nat set) outcome" where
  "release [] used = Ret used"
| "release (a # as) used = (if a \<in> used then release as (used - {a}) else Throw Use_after_close)"

definition av_free :: "nat option \<Rightarrow> nat set \<Rightarrow> (ub, nat set) outcome" where
  "av_free p used = (case p of None \<Rightarrow> Ret used | Some a \<Rightarrow> release [a] used)"

definition avformat_close_input :: "format_context option \<Rightarrow> nat set \<Rightarrow> (ub, nat set) outcome" where
  "avformat_close_input p used = (case p of None \<Rightarrow> Ret used | Some fmt \<Rightarrow> release (context_blocks fmt) used)"

definition X264FrameDecoder_dtor :: "decoder_memory \<Rightarrow> (ub, nat set) outcome" where
  "X264FrameDecoder_dtor m =
     obind (av_free (p_packet m) (in_use m)) (\<lambda>u1.
     obind (av_free (p_frame m) u1) (\<lambda>u2.
     obind (av_free (p_codec_context m) u2) (\<lambda>u3.
     obind (av_free (p_frame_stream m) u3) (\<lambda>u4.
     obind (av_free (p_codec_context_stream m) u4) (avformat_close_input (p_format_context m))))))"

section \<open>Properties\<close>

lemma release_distinct:
  "distinct as \<Longrightarrow> release as used = (if set as \<subseteq> used then Ret (used - set as) else Throw Use_after_close)"
  by (induction as arbitrary: used) auto

definition opened :: "open_results \<Rightarrow> bool" where
  "opened L \<longleftrightarrow> r_open_input L = 0 \<and> \<not> r_find_stream_info L < 0 \<and> \<not> r_best_stream L < 0"

lemma stream_block: "i < length (fmt_streams fmt) \<Longrightarrow> fst (fmt_streams fmt ! i) \<in> set (context_blocks fmt)"
  by (simp add: context_blocks_def)

text \<open>A release succeeds or finds a block that is not in use.\<close>

definition releases :: "(ub, nat set) outcome \<Rightarrow> bool" where
  "releases r \<longleftrightarrow> r = Throw Use_after_close \<or> (\<exists>u. r = Ret u)"

lemma releases_release: "releases (release as used)"
  by (induction as arbitrary: used) (auto simp: releases_def)

lemma releases_free: "releases (av_free p used)" "releases (avformat_close_input f used)"
  by (auto simp: av_free_def avformat_close_input_def releases_release split: option.split)
    (auto simp: releases_def)

lemma releases_obind: "releases r \<Longrightarrow> (\<And>u. releases (f u)) \<Longrightarrow> releases (obind r f)"
  by (cases r) (simp_all add: releases_def)

lemma dtor_releases: "releases (X264FrameDecoder_dtor m)"
  unfolding X264FrameDecoder_dtor_def by (intro releases_obind releases_free)

lemma dtor_after_stream:
  assumes "p_codec_context_stream m = Some s" "p_format_context m = Some fmt" "s \<in> set (context_blocks fmt)"
    and "distinct (context_blocks fmt)"
  shows "X264FrameDecoder_dtor m = Throw Use_after_close"
proof -
  have "X264FrameDecoder_dtor m \<noteq> Ret u" for u
  proof
    assume "X264FrameDecoder_dtor m = Ret u"
    then obtain u4 where "avformat_close_input (Some fmt) (u4 - {s}) = Ret u"
      using assms(1,2) by (auto simp: X264FrameDecoder_dtor_def av_free_def outcome_iff split: if_splits)
    then show False using assms(3,4) by (auto simp: avformat_close_input_def release_distinct split: if_splits)
  qed
  then show ?thesis using dtor_releases [of m] by (simp add: releases_def)
qed

lemma memory_not_opened:
  assumes "\<not> opened L"
  shows "memory_open L fmt ctx frame memory_init \<in>
    {Ret memory_init, Ret (memory_init\<lparr>in_use := set (context_blocks fmt), p_format_context := Some fmt\<rparr>)}"
  using assms by (auto simp: opened_def memory_open_def memory_init_def Let_def)

lemma dtor_not_opened:
  "X264FrameDecoder_dtor memory_init = Ret {}"
  "distinct (context_blocks fmt) \<Longrightarrow>
   X264FrameDecoder_dtor (memory_init\<lparr>in_use := set (context_blocks fmt), p_format_context := Some fmt\<rparr>) = Ret {}"
  by (simp_all add: X264FrameDecoder_dtor_def memory_init_def av_free_def avformat_close_input_def release_distinct)

lemma no_decoder: "X264FrameDecoder_ctor = Throw Null_dereference"
  by (simp add: X264FrameDecoder_ctor_def memory_init_def)

text \<open>
  The destructor releases memory twice once \<open>open\<close> has found a video stream: the stream, which
  belongs to the format context, is released on its own and again with the context.  When
  \<open>open\<close> fails before that, everything it took is released exactly once.
\<close>

theorem decoder_dtor_double_release:
  assumes "distinct (context_blocks fmt)" "nat (r_best_stream L) < length (fmt_streams fmt)"
    and "memory_open L fmt ctx frame memory_init = Ret m"
  shows "X264FrameDecoder_dtor m = (if opened L then Throw Use_after_close else Ret {})"
proof (cases "opened L")
  case True
  then have "p_codec_context_stream m = Some (fst (fmt_streams fmt ! nat (r_best_stream L)))" "p_format_context m = Some fmt"
    using assms(3) by (auto simp: memory_open_def opened_def Let_def split: option.splits if_splits)
  with dtor_after_stream [OF _ _ stream_block [OF assms(2)] assms(1)] True show ?thesis by simp
next
  case False
  then show ?thesis using memory_not_opened [of L fmt ctx frame] dtor_not_opened assms(1,3) by auto
qed

end
