(* ===== verification/Cython_Cache.thy ===== *)
theory Cython_Cache
  imports Prelude
begin

text \<open>
  The cache of code objects in the checked-in extension module \<open>cjunk/cython/simple.cpp\<close>: a
  growing array sorted by line number, searched by bisection, and \<open>__Pyx_AddTraceback\<close>, which
  uses it.  Every array access checks its index, so a run that returns stayed inside the block.
  What Python does is a parameter: whether the allocator and the constructors of code and frame
  objects succeed.  The reference counts are those that the file itself takes and gives back.
\<close>

section \<open>A finite map with failing updates\<close>

text \<open>
  The contract of a cache: a lookup returns what the last successful update of the same key
  stored, and an update that fails changes nothing.
\<close>

locale cache_spec =
  fixes ok :: "'s \<Rightarrow> bool"
    and find :: "'s \<Rightarrow> int \<Rightarrow> 'v option"
    and store :: "bool \<Rightarrow> int \<Rightarrow> 'v \<Rightarrow> 's \<Rightarrow> 's"
    and needs_memory :: "'s \<Rightarrow> int \<Rightarrow> bool"
  assumes store_ok: "ok s \<Longrightarrow> ok (store mem k v s)"
    and find_store: "ok s \<Longrightarrow> k \<noteq> 0 \<Longrightarrow> mem \<or> \<not> needs_memory s k \<Longrightarrow>
      find (store mem k v s) = (find s)(k \<mapsto> v)"
    and store_fail: "ok s \<Longrightarrow> k = 0 \<or> \<not> mem \<and> needs_memory s k \<Longrightarrow> find (store mem k v s) = find s"
    and find_zero: "ok s \<Longrightarrow> find s 0 = None"
begin

text \<open>A sequence of updates leaves the last successful value of every key.\<close>

fun store_all :: "(bool \<times> int \<times> 'v) list \<Rightarrow> 's \<Rightarrow> 's" where
  "store_all [] s = s"
| "store_all ((mem, k, v) # us) s = store_all us (store mem k v s)"

lemma store_all_ok: "ok s \<Longrightarrow> ok (store_all us s)"
  by (induction us s rule: store_all.induct) (simp_all add: store_ok)

lemma store_all_find:
  "ok s \<Longrightarrow> \<forall>(mem, k, v) \<in> set us. mem \<and> k \<noteq> 0 \<Longrightarrow>
   find (store_all us s) = find s ++ map_of (rev (map snd us))"
proof (induction us s rule: store_all.induct)
  case (2 mem k v us s)
  have "find (store mem k v s) = (find s)(k \<mapsto> v)"
    using "2.prems" by (intro find_store) auto
  moreover have "find (store_all us (store mem k v s)) = find (store mem k v s) ++ map_of (rev (map snd us))"
    using "2.prems" store_ok by (intro "2.IH") auto
  ultimately show ?case by simp
qed simp

end

section \<open>The array\<close>

datatype access = Out_of_bounds

record 'o cache_entry =
  code_object :: 'o
  code_line :: int

record 'o code_cache =
  count :: nat
  max_count :: nat
  entries :: "'o cache_entry list option"

definition code_cache_init :: "'o code_cache" where
  "code_cache_init = \<lparr>count = 0, max_count = 0, entries = None\<rparr>"

definition entry_at :: "'a list \<Rightarrow> int \<Rightarrow> (access, 'a) outcome" where
  "entry_at xs i = (if 0 \<le> i \<and> nat i < length xs then Ret (xs ! nat i) else Throw Out_of_bounds)"

definition set_entry :: "'a list \<Rightarrow> int \<Rightarrow> 'a \<Rightarrow> (access, 'a list) outcome" where
  "set_entry xs i x = (if 0 \<le> i \<and> nat i < length xs then Ret (xs[nat i := x]) else Throw Out_of_bounds)"

section \<open>Bisection\<close>

function bisect_loop :: "'o cache_entry list \<Rightarrow> int \<Rightarrow> int \<Rightarrow> int \<Rightarrow> int \<Rightarrow> (access, int) outcome" where
  "bisect_loop es line start mid stop =
     (if start < stop
      then let m = start + (stop - start) div 2
           in obind (entry_at es m) (\<lambda>e.
                if line < code_line e then bisect_loop es line start m m
                else if line > code_line e then bisect_loop es line (m + 1) m stop
                else Ret m)
      else obind (entry_at es mid) (\<lambda>e. Ret (if line \<le> code_line e then mid else mid + 1)))"
  by pat_completeness auto
termination
  by (relation "measure (\<lambda>(es, line, start, mid, stop). nat (stop - start))") auto

declare bisect_loop.simps [simp del]

definition bisect_code_objects :: "'o cache_entry list \<Rightarrow> nat \<Rightarrow> int \<Rightarrow> (access, int) outcome" where
  "bisect_code_objects es n line =
     (let stop = int n - 1
      in obind (if stop \<ge> 0 then omap (\<lambda>e. line > code_line e) (entry_at es stop) else Ret False) (\<lambda>beyond.
           if beyond then Ret (int n) else bisect_loop es line 0 0 stop))"

section \<open>Lookup and insertion\<close>

definition find_code_object :: "int \<Rightarrow> 'o code_cache \<Rightarrow> (access, 'o option) outcome" where
  "find_code_object line c =
     (if line = 0 then Ret None
      else case entries c of
        None \<Rightarrow> Ret None
      | Some es \<Rightarrow>
          obind (bisect_code_objects es (count c) line) (\<lambda>pos.
            if pos \<ge> int (count c) then Ret None
            else omap (\<lambda>e. if code_line e \<noteq> line then None else Some (code_object e)) (entry_at es pos)))"

text \<open>The loop that moves the entries from \<open>pos\<close> on one place up, last one first.\<close>

fun shift_up :: "'a list \<Rightarrow> nat \<Rightarrow> nat \<Rightarrow> (access, 'a list) outcome" where
  "shift_up es 0 pos = Ret es"
| "shift_up es (Suc i) pos =
     (if Suc i > pos
      then obind (entry_at es (int i)) (\<lambda>e. obind (set_entry es (int i + 1) e) (\<lambda>es'. shift_up es' i pos))
      else Ret es)"

text \<open>
  \<open>mem\<close> says whether \<open>PyMem_Malloc\<close> or \<open>PyMem_Realloc\<close> succeeds and \<open>junk\<close> what the new slots hold.
  The result also gives the change of reference counts: the object taken and the object released.
\<close>

definition insert_code_object ::
  "bool \<Rightarrow> (nat \<Rightarrow> 'o cache_entry) \<Rightarrow> int \<Rightarrow> 'o \<Rightarrow> 'o code_cache
   \<Rightarrow> (access, 'o code_cache \<times> 'o option \<times> 'o option) outcome" where
  "insert_code_object mem junk line ob c =
     (if line = 0 then Ret (c, None, None)
      else case entries c of
        None \<Rightarrow>
          if mem
          then omap (\<lambda>es. (\<lparr>count = 1, max_count = 64, entries = Some es\<rparr>, Some ob, None))
                 (set_entry (map junk [0..<64]) 0 \<lparr>code_object = ob, code_line = line\<rparr>)
          else Ret (c, None, None)
      | Some es \<Rightarrow>
          obind (bisect_code_objects es (count c) line) (\<lambda>pos.
          obind (if pos < int (count c) then omap (\<lambda>e. code_line e = line) (entry_at es pos) else Ret False) (\<lambda>present.
            if present
            then obind (entry_at es pos) (\<lambda>e.
                 omap (\<lambda>es'. (c\<lparr>entries := Some es'\<rparr>, None, Some (code_object e)))
                   (set_entry es pos (e\<lparr>code_object := ob\<rparr>)))
            else if count c = max_count c \<and> \<not> mem then Ret (c, None, None)
            else let c1 = (if count c = max_count c then c\<lparr>max_count := max_count c + 64\<rparr> else c);
                     es1 = (if count c = max_count c then es @ map junk [0..<64] else es)
                 in obind (shift_up es1 (count c) (nat pos)) (\<lambda>es2.
                    omap (\<lambda>es3. (c1\<lparr>entries := Some es3, count := count c + 1\<rparr>, Some ob, None))
                      (set_entry es2 pos \<lparr>code_object = ob, code_line = line\<rparr>)))))"

section \<open>Bisection finds the place of a line\<close>

definition line_at :: "'o cache_entry list \<Rightarrow> nat \<Rightarrow> int" where
  "line_at es i = code_line (es ! i)"

definition sorted_lines :: "'o cache_entry list \<Rightarrow> nat \<Rightarrow> bool" where
  "sorted_lines es n \<longleftrightarrow> n \<le> length es \<and> (\<forall>i j. i < j \<longrightarrow> j < n \<longrightarrow> line_at es i < line_at es j)"

definition lower_bound :: "'o cache_entry list \<Rightarrow> nat \<Rightarrow> int \<Rightarrow> nat \<Rightarrow> bool" where
  "lower_bound es n line r \<longleftrightarrow> r \<le> n \<and> (\<forall>i < r. line_at es i < line) \<and> (\<forall>i. r \<le> i \<longrightarrow> i < n \<longrightarrow> line \<le> line_at es i)"

lemma entry_at_nat [simp]: "i < length xs \<Longrightarrow> entry_at xs (int i) = Ret (xs ! i)"
  by (simp add: entry_at_def)

lemma set_entry_nat [simp]: "i < length xs \<Longrightarrow> set_entry xs (int i) x = Ret (xs[i := x])"
  by (simp add: set_entry_def)

lemma lower_boundI:
  assumes "sorted_lines es n" "r < n" "\<forall>i < r. line_at es i < line" "line \<le> line_at es r"
  shows "lower_bound es n line r"
  using assms unfolding lower_bound_def sorted_lines_def
  by (metis le_neq_implies_less less_imp_le order_trans)

lemma sorted_lines_below: "sorted_lines es n \<Longrightarrow> i \<le> j \<Longrightarrow> j < n \<Longrightarrow> line_at es i \<le> line_at es j"
  unfolding sorted_lines_def by (metis le_neq_implies_less less_imp_le order_refl)

lemma bisect_loop_correct:
  assumes "sorted_lines es n" "stop < n" "start \<le> stop" "\<forall>i < start. line_at es i < line"
    and "line \<le> line_at es stop" "start = stop \<longrightarrow> mid = start \<or> mid + 1 = start"
  shows "\<exists>r. bisect_loop es line (int start) (int mid) (int stop) = Ret (int r) \<and> r < n
    \<and> lower_bound es n line r"
  using assms
proof (induction "stop - start" arbitrary: start mid stop rule: less_induct)
  case less
  note sorted = less.prems(1)
  have len: "n \<le> length es" using sorted by (simp add: sorted_lines_def)
  show ?case
  proof (cases "start < stop")
    case False
    with less.prems have eq: "start = stop" "mid = start \<or> mid + 1 = start" by auto
    have lb: "lower_bound es n line start"
      using lower_boundI [OF sorted less.prems(2)] eq(1) less.prems(4,5) by simp
    have "mid < length es" "line \<le> line_at es mid \<longleftrightarrow> mid = start"
      using eq less.prems len by auto
    then have "bisect_loop es line (int start) (int mid) (int stop) = Ret (int start)"
      using eq by (subst bisect_loop.simps) (auto simp: line_at_def)
    with lb less.prems(2) eq(1) show ?thesis by auto
  next
    case True
    define m where "m = start + (stop - start) div 2"
    have m: "start \<le> m" "m < stop" "int start + (int stop - int start) div 2 = int m"
      using True by (auto simp: m_def)
    have unfold: "bisect_loop es line (int start) (int mid) (int stop) =
        (if line < line_at es m then bisect_loop es line (int start) (int m) (int m)
         else if line > line_at es m then bisect_loop es line (int (m + 1)) (int m) (int stop)
         else Ret (int m))"
      using True m less.prems(2) len
      by (subst bisect_loop.simps) (simp add: Let_def line_at_def add.commute)
    consider "line < line_at es m" | "line > line_at es m" | "line = line_at es m" by linarith
    then show ?thesis
    proof cases
      case 1
      have "\<exists>r. bisect_loop es line (int start) (int m) (int m) = Ret (int r) \<and> r < n \<and> lower_bound es n line r"
        using 1 m less.prems by (intro less.hyps) auto
      with 1 unfold show ?thesis by simp
    next
      case 2
      have below: "\<forall>i < m + 1. line_at es i < line"
      proof (intro allI impI)
        fix i assume "i < m + 1"
        then have "line_at es i \<le> line_at es m"
          using m less.prems(2) by (intro sorted_lines_below [OF sorted]) auto
        with 2 show "line_at es i < line" by linarith
      qed
      have "\<exists>r. bisect_loop es line (int (m + 1)) (int m) (int stop) = Ret (int r) \<and> r < n \<and> lower_bound es n line r"
        using 2 m less.prems below by (intro less.hyps) auto
      with 2 unfold show ?thesis by simp
    next
      case 3
      have "\<forall>i < m. line_at es i < line"
        using 3 sorted m less.prems(2) by (auto simp: sorted_lines_def)
      then have "lower_bound es n line m" using lower_boundI [OF sorted, of m] 3 m less.prems(2) by simp
      with 3 unfold m less.prems(2) show ?thesis by auto
    qed
  qed
qed

lemma entry_at_last: "sorted_lines es n \<Longrightarrow> 0 < n \<Longrightarrow> entry_at es (int n - 1) = Ret (es ! (n - 1))"
  by (auto simp: entry_at_def sorted_lines_def nat_diff_distrib)

lemma bisect_correct:
  assumes "sorted_lines es n" "0 < n"
  shows "\<exists>r. bisect_code_objects es n line = Ret (int r) \<and> lower_bound es n line r"
proof (cases "line > line_at es (n - 1)")
  case True
  have "\<forall>i < n. line_at es i < line"
  proof (intro allI impI)
    fix i assume "i < n"
    then have "line_at es i \<le> line_at es (n - 1)" using assms by (intro sorted_lines_below) auto
    with True show "line_at es i < line" by linarith
  qed
  with True assms(2) entry_at_last [OF assms] show ?thesis
    by (intro exI [of _ n]) (simp add: bisect_code_objects_def Let_def line_at_def lower_bound_def)
next
  case False
  have "\<exists>r. bisect_loop es line (int 0) (int 0) (int (n - 1)) = Ret (int r) \<and> r < n \<and> lower_bound es n line r"
    using assms False by (intro bisect_loop_correct) auto
  with False assms(2) entry_at_last [OF assms] show ?thesis
    by (auto simp: bisect_code_objects_def Let_def line_at_def of_nat_diff)
qed

section \<open>The cache is a finite map\<close>

definition cache_ok :: "'o code_cache \<Rightarrow> bool" where
  "cache_ok c = (case entries c of
     None \<Rightarrow> count c = 0 \<and> max_count c = 0
   | Some es \<Rightarrow> length es = max_count c \<and> 0 < count c \<and> count c \<le> max_count c
       \<and> sorted_lines es (count c) \<and> (\<forall>i < count c. line_at es i \<noteq> 0))"

definition kv :: "'o cache_entry \<Rightarrow> int \<times> 'o" where
  "kv e = (code_line e, code_object e)"

definition cached :: "'o code_cache \<Rightarrow> 'o cache_entry list" where
  "cached c = (case entries c of None \<Rightarrow> [] | Some es \<Rightarrow> take (count c) es)"

definition cache_map :: "'o code_cache \<Rightarrow> int \<Rightarrow> 'o option" where
  "cache_map c = map_of (map kv (cached c))"

lemma sorted_lines_take:
  "sorted_lines es n \<longleftrightarrow> n \<le> length es \<and> sorted_wrt (\<lambda>a b. code_line a < code_line b) (take n es)"
  by (auto simp: sorted_lines_def sorted_wrt_iff_nth_less line_at_def)

lemma map_of_kv_None: "\<forall>e \<in> set zs. code_line e \<noteq> line \<Longrightarrow> map_of (map kv zs) line = None"
  by (force simp: kv_def map_of_eq_None_iff)

lemma map_of_split:
  assumes "\<forall>e \<in> set xs. code_line e < line" "\<forall>e \<in> set ys. line \<le> code_line e"
    and "sorted_wrt (\<lambda>a b. code_line a < code_line b) ys"
  shows "map_of (map kv (xs @ ys)) line =
    (case ys of [] \<Rightarrow> None | e # _ \<Rightarrow> if code_line e = line then Some (code_object e) else None)"
proof -
  have xs: "map_of (map kv xs) line = None" using assms(1) by (intro map_of_kv_None) fastforce
  show ?thesis
  proof (cases ys)
    case (Cons e zs)
    have "code_line e \<noteq> line \<Longrightarrow> map_of (map kv zs) line = None"
      using Cons assms(2,3) by (intro map_of_kv_None) fastforce
    then show ?thesis using xs Cons by (simp add: map_add_def kv_def)
  qed (use xs in simp)
qed

lemma lower_bound_split:
  assumes "lower_bound es n line r" "n \<le> length es"
  shows "take n es = take r es @ drop r (take n es)"
    and "\<forall>e \<in> set (take r es). code_line e < line" "\<forall>e \<in> set (drop r (take n es)). line \<le> code_line e"
proof -
  have r: "r \<le> n" using assms(1) by (simp add: lower_bound_def)
  then show "take n es = take r es @ drop r (take n es)"
    by (metis append_take_drop_id min.absorb1 take_take)
  show "\<forall>e \<in> set (take r es). code_line e < line"
    using assms r by (auto simp: lower_bound_def line_at_def in_set_conv_nth)
  show "\<forall>e \<in> set (drop r (take n es)). line \<le> code_line e"
    using assms r by (auto simp: lower_bound_def line_at_def in_set_conv_nth)
qed

lemma find_map:
  assumes "sorted_lines es n" "lower_bound es n line r"
  shows "map_of (map kv (take n es)) line =
    (if r < n \<and> line_at es r = line then Some (code_object (es ! r)) else None)"
proof -
  have len: "n \<le> length es" and s: "sorted_wrt (\<lambda>a b. code_line a < code_line b) (drop r (take n es))"
    using assms(1) by (simp_all add: sorted_lines_take sorted_wrt_drop)
  have "drop r (take n es) = (if r < n then es ! r # drop (Suc r) (take n es) else [])"
    using len by (auto simp: Cons_nth_drop_Suc [symmetric])
  with map_of_split [OF lower_bound_split(2,3) [OF assms(2) len] s]
  show ?thesis unfolding lower_bound_split(1) [OF assms(2) len, symmetric] by (simp add: line_at_def)
qed

lemma find_code_object_correct:
  assumes "cache_ok c"
  shows "find_code_object line c = Ret (if line = 0 then None else cache_map c line)"
proof (cases "entries c")
  case None
  then show ?thesis by (simp add: find_code_object_def cache_map_def cached_def)
next
  case (Some es)
  with assms have ok: "sorted_lines es (count c)" "0 < count c" by (simp_all add: cache_ok_def)
  obtain r where r: "bisect_code_objects es (count c) line = Ret (int r)" "lower_bound es (count c) line r"
    using bisect_correct [OF ok] by blast
  have "r < count c \<Longrightarrow> r < length es" using ok(1) by (simp add: sorted_lines_def)
  with r(1) find_map [OF ok(1) r(2)] Some show ?thesis
    by (auto simp: find_code_object_def cache_map_def cached_def line_at_def)
qed

section \<open>Insertion\<close>

lemma shift_up_correct:
  "pos \<le> n \<Longrightarrow> n < length es \<Longrightarrow>
   \<exists>es'. shift_up es n pos = Ret es' \<and> length es' = length es
     \<and> (\<forall>i < length es. es' ! i = (if pos < i \<and> i \<le> n then es ! (i - 1) else es ! i))"
proof (induction n arbitrary: es)
  case (Suc n)
  show ?case
  proof (cases "Suc n > pos")
    case True
    define es1 where "es1 = es[Suc n := es ! n]"
    from Suc.IH [of es1] True Suc.prems obtain es' where es': "shift_up es1 n pos = Ret es'"
      "length es' = length es"
      "\<forall>i < length es. es' ! i = (if pos < i \<and> i \<le> n then es1 ! (i - 1) else es1 ! i)"
      by (auto simp: es1_def)
    have "shift_up es (Suc n) pos = Ret es'"
      using True Suc.prems es'(1) set_entry_nat [of "Suc n" es "es ! n"] by (simp add: es1_def add.commute)
    moreover have "es' ! i = (if pos < i \<and> i \<le> Suc n then es ! (i - 1) else es ! i)" if "i < length es" for i
      using es'(3) that True by (cases "i = Suc n") (auto simp: es1_def nth_list_update)
    ultimately show ?thesis using es'(2) by blast
  qed (use Suc.prems in auto)
qed auto

lemma insert_list:
  assumes "pos \<le> n" "n < length es" "length es2 = length es"
    and "\<forall>i < length es. es2 ! i = (if pos < i \<and> i \<le> n then es ! (i - 1) else es ! i)"
  shows "take (n + 1) (es2[pos := x]) = take pos es @ x # drop pos (take n es)"
proof (rule nth_equalityI)
  fix i assume "i < length (take (n + 1) (es2[pos := x]))"
  then have i: "i \<le> n" "i < length es" using assms(2,3) by auto
  consider "i < pos" | "i = pos" | "pos < i" by linarith
  then show "take (n + 1) (es2[pos := x]) ! i = (take pos es @ x # drop pos (take n es)) ! i"
  proof cases
    case 3
    then obtain k where "i = Suc (pos + k)" using less_imp_Suc_add by blast
    with 3 i assms show ?thesis by (simp add: nth_append)
  qed (use i assms in \<open>simp_all add: nth_append\<close>)
qed (use assms in auto)

text \<open>The entries after an insertion at the lower bound.\<close>

lemma insert_sorted:
  assumes "sorted_wrt (\<lambda>a b. code_line a < code_line b) (xs @ ys)"
    and "\<forall>e \<in> set xs. code_line e < line" "\<forall>e \<in> set ys. line < code_line e"
  shows "sorted_wrt (\<lambda>a b. code_line a < code_line b) (xs @ \<lparr>code_object = ob, code_line = line\<rparr> # ys)"
    and "map_of (map kv (xs @ \<lparr>code_object = ob, code_line = line\<rparr> # ys)) = (map_of (map kv (xs @ ys)))(line \<mapsto> ob)"
proof -
  show "sorted_wrt (\<lambda>a b. code_line a < code_line b) (xs @ \<lparr>code_object = ob, code_line = line\<rparr> # ys)"
    using assms by (auto simp: sorted_wrt_append)
  have "map_of (map kv xs) line = None" using assms(2) by (intro map_of_kv_None) fastforce
  then show "map_of (map kv (xs @ \<lparr>code_object = ob, code_line = line\<rparr> # ys)) = (map_of (map kv (xs @ ys)))(line \<mapsto> ob)"
    by (auto simp: kv_def map_add_def fun_eq_iff split: option.splits)
qed

text \<open>What an insertion does, in each of its four cases.\<close>

definition needs_memory :: "'o code_cache \<Rightarrow> int \<Rightarrow> bool" where
  "needs_memory c line \<longleftrightarrow> cache_map c line = None \<and> count c = max_count c"

lemma cached_Some [simp]: "entries c = Some es \<Longrightarrow> cached c = take (count c) es"
  by (simp add: cached_def)

lemma replace_map:
  assumes "sorted_wrt (\<lambda>a b. code_line a < code_line b) xs" "r < length xs" "code_line (xs ! r) = line"
  shows "map_of (map kv (xs[r := (xs ! r)\<lparr>code_object := ob\<rparr>])) = (map_of (map kv xs))(line \<mapsto> ob)"
    and "map code_line (xs[r := (xs ! r)\<lparr>code_object := ob\<rparr>]) = map code_line xs"
proof -
  have "xs = take r xs @ xs ! r # drop (Suc r) xs" "length (take r xs) = r"
    using assms(2) by (simp_all add: id_take_nth_drop)
  then obtain ys e zs where xs: "xs = ys @ e # zs" "length ys = r" by blast
  then have e: "code_line e = line" using assms(3) by (simp add: nth_append)
  have "\<forall>f \<in> set ys. code_line f < line" using assms(1) xs(1) e by (auto simp: sorted_wrt_append)
  then have "map_of (map kv ys) line = None" by (intro map_of_kv_None) fastforce
  then show "map_of (map kv (xs[r := (xs ! r)\<lparr>code_object := ob\<rparr>])) = (map_of (map kv xs))(line \<mapsto> ob)"
    using e xs(2) unfolding xs(1) by (auto simp: kv_def map_add_def fun_eq_iff split: option.splits)
  show "map code_line (xs[r := (xs ! r)\<lparr>code_object := ob\<rparr>]) = map code_line xs"
    by (simp add: map_update list_update_same_conv assms(2))
qed

lemma insert_present:
  assumes ok: "cache_ok c" and line: "line \<noteq> 0" "cache_map c line = Some old"
  shows "\<exists>c'. insert_code_object mem junk line ob c = Ret (c', None, Some old) \<and> cache_ok c'
    \<and> cache_map c' = (cache_map c)(line \<mapsto> ob)"
proof -
  from line(2) obtain es where es: "entries c = Some es" by (cases "entries c") (auto simp: cache_map_def cached_def)
  with ok have c: "length es = max_count c" "0 < count c" "count c \<le> max_count c" "sorted_lines es (count c)"
    "\<forall>i < count c. line_at es i \<noteq> 0" by (simp_all add: cache_ok_def)
  obtain r where r: "bisect_code_objects es (count c) line = Ret (int r)" "lower_bound es (count c) line r"
    using bisect_correct [OF c(4,2)] by blast
  have at: "r < count c" "line_at es r = line" "code_object (es ! r) = old" "r < length es"
    using line(2) find_map [OF c(4) r(2)] es c(1,3) by (auto simp: cache_map_def split: if_splits)
  define es' where "es' = es[r := (es ! r)\<lparr>code_object := ob\<rparr>]"
  have "insert_code_object mem junk line ob c = Ret (c\<lparr>entries := Some es'\<rparr>, None, Some old)"
    using line(1) es r(1) at by (simp add: insert_code_object_def line_at_def es'_def)
  moreover have "cache_ok (c\<lparr>entries := Some es'\<rparr>)"
  proof -
    have "line_at es' i = line_at es i" if "i < length es" for i
      using that by (cases "i = r") (simp_all add: line_at_def es'_def)
    then show ?thesis using c by (auto simp: cache_ok_def sorted_lines_def es'_def)
  qed
  moreover have "cache_map (c\<lparr>entries := Some es'\<rparr>) = (cache_map c)(line \<mapsto> ob)"
    using replace_map(1) [of "take (count c) es" r line ob] c(4) at es
    by (simp add: cache_map_def es'_def sorted_lines_take take_update_swap line_at_def)
  ultimately show ?thesis by blast
qed

lemma insert_fails:
  assumes "cache_ok c" "line = 0 \<or> \<not> mem \<and> needs_memory c line"
  shows "insert_code_object mem junk line ob c = Ret (c, None, None)"
proof (cases "line = 0 \<or> entries c = None")
  case True
  with assms(2) show ?thesis by (auto simp: insert_code_object_def split: option.splits)
next
  case False
  then obtain es where es: "entries c = Some es" "line \<noteq> 0" by auto
  with assms have c: "length es = max_count c" "0 < count c" "count c \<le> max_count c" "sorted_lines es (count c)"
    "\<not> mem" "cache_map c line = None" "count c = max_count c"
    by (auto simp: cache_ok_def needs_memory_def)
  obtain r where r: "bisect_code_objects es (count c) line = Ret (int r)" "lower_bound es (count c) line r"
    using bisect_correct [OF c(4,2)] by blast
  have "\<not> (r < count c \<and> line_at es r = line)"
    using c(6) find_map [OF c(4) r(2)] es(1) by (auto simp: cache_map_def)
  with es r(1) c show ?thesis by (auto simp: insert_code_object_def line_at_def)
qed

text \<open>The first insertion allocates the array.\<close>

lemma insert_first:
  assumes "cache_ok c" "line \<noteq> 0" "entries c = None" "mem"
  shows "\<exists>c'. insert_code_object mem junk line ob c = Ret (c', Some ob, None) \<and> cache_ok c'
    \<and> cached c' = [\<lparr>code_object = ob, code_line = line\<rparr>]"
proof -
  define es where "es = (map junk [0..<64])[0 := \<lparr>code_object = ob, code_line = line\<rparr>]"
  have z: "set_entry (map junk [0..<64]) 0 x = Ret ((map junk [0..<64])[0 := x])" for x
    using set_entry_nat [of 0 "map junk [0..<64]" x] by simp
  have "take 1 es = [\<lparr>code_object = ob, code_line = line\<rparr>]" "length es = 64" "line_at es 0 = line"
    by (simp_all add: es_def upt_rec take_Suc_conv_app_nth line_at_def)
  then show ?thesis
    using assms by (simp add: insert_code_object_def z flip: es_def)
      (auto simp: cache_ok_def cached_def sorted_lines_take)
qed

text \<open>Every other insertion of a new line opens a gap at its lower bound.\<close>

lemma insert_gap:
  assumes ok: "cache_ok c" and line: "line \<noteq> 0" and es: "entries c = Some es"
    and r: "bisect_code_objects es (count c) line = Ret (int r)" "r \<le> count c"
    and new: "\<not> (r < count c \<and> line_at es r = line)" and mem: "count c = max_count c \<longrightarrow> mem"
  shows "\<exists>c' es' m. insert_code_object mem junk line ob c = Ret (c', Some ob, None)
    \<and> c' = c\<lparr>max_count := m, entries := Some es', count := count c + 1\<rparr> \<and> length es' = m \<and> count c < m
    \<and> cached c' = take r es @ \<lparr>code_object = ob, code_line = line\<rparr> # drop r (take (count c) es)"
proof -
  have c: "length es = max_count c" "count c \<le> max_count c" using ok es by (simp_all add: cache_ok_def)
  define full where "full \<longleftrightarrow> count c = max_count c"
  define es1 where "es1 = (if full then es @ map junk [0..<64] else es)"
  define m1 where "m1 = (if full then max_count c + 64 else max_count c)"
  have es1: "length es1 = m1" "count c < length es1" "take (count c) es1 = take (count c) es" "take r es1 = take r es"
    using c r(2) by (auto simp: es1_def m1_def full_def)
  from shift_up_correct [OF r(2) es1(2)] obtain es2 where es2: "shift_up es1 (count c) r = Ret es2"
    "length es2 = length es1"
    "\<forall>i < length es1. es2 ! i = (if r < i \<and> i \<le> count c then es1 ! (i - 1) else es1 ! i)" by blast
  define x where "x = \<lparr>code_object = ob, code_line = line\<rparr>"
  define c' where "c' = c\<lparr>max_count := m1, entries := Some (es2[r := x]), count := count c + 1\<rparr>"
  have upd: "set_entry es2 (int r) x = Ret (es2[r := x])"
    "(if full then c\<lparr>max_count := max_count c + 64\<rparr> else c)\<lparr>entries := Some (es2[r := x]), count := count c + 1\<rparr> = c'"
    using es1(2) es2(2) r(2) by (simp_all add: c'_def m1_def)
  have "(if r < count c then omap (\<lambda>e. code_line e = line) (entry_at es (int r)) else Ret False) = (Ret False :: (access, bool) outcome)"
    using new c by (auto simp: line_at_def)
  then have "insert_code_object mem junk line ob c = Ret (c', Some ob, None)"
    using line es r(1) es2(1) upd mem
    by (simp add: insert_code_object_def Let_def flip: full_def es1_def x_def)
  moreover have "cached c' = take r es @ x # drop r (take (count c) es)"
    using insert_list [OF r(2) es1(2) es2(2,3), of x] es1(3,4) by (simp add: c'_def)
  ultimately show ?thesis using es1(1,2) es2(2)
    by (intro exI [of _ c'] exI [of _ "es2[r := x]"] exI [of _ m1]) (simp add: c'_def flip: x_def)
qed

lemma lower_bound_strict:
  assumes "lower_bound es n line r" "sorted_lines es n" "\<not> (r < n \<and> line_at es r = line)"
  shows "\<forall>e \<in> set (drop r (take n es)). line < code_line e"
proof -
  have "\<forall>i. r \<le> i \<longrightarrow> i < n \<longrightarrow> line < line_at es i"
  proof (intro allI impI)
    fix i assume i: "r \<le> i" "i < n"
    then have "line \<le> line_at es r" "line \<le> line_at es i" "line_at es r \<noteq> line"
      using assms(1,3) by (auto simp: lower_bound_def)
    moreover have "r < i \<Longrightarrow> line_at es r < line_at es i" using assms(2) i by (simp add: sorted_lines_def)
    ultimately show "line < line_at es i" using i(1) by (cases "r = i") auto
  qed
  with assms(2) show ?thesis by (auto simp: in_set_conv_nth line_at_def sorted_lines_def)
qed

lemma lines_nonzero:
  "n \<le> length es \<Longrightarrow> (\<forall>i < n. line_at es i \<noteq> 0) \<longleftrightarrow> (\<forall>e \<in> set (take n es). code_line e \<noteq> 0)"
  by (metis (no_types, lifting) in_set_conv_nth length_take line_at_def min.absorb2 nth_take)

lemma insert_absent:
  assumes ok: "cache_ok c" and line: "line \<noteq> 0" "cache_map c line = None"
    and mem: "mem \<or> \<not> needs_memory c line"
  shows "\<exists>c'. insert_code_object mem junk line ob c = Ret (c', Some ob, None) \<and> cache_ok c'
    \<and> cache_map c' = (cache_map c)(line \<mapsto> ob)
    \<and> (\<exists>xs ys. cached c = xs @ ys \<and> cached c' = xs @ \<lparr>code_object = ob, code_line = line\<rparr> # ys)"
proof (cases "entries c")
  case None
  then have "mem" using ok mem line(2) by (auto simp: needs_memory_def cache_ok_def)
  from insert_first [OF ok line(1) None this, of junk ob] None show ?thesis
    by (auto simp: cache_map_def cached_def kv_def fun_eq_iff)
next
  case (Some es)
  with ok have c: "length es = max_count c" "0 < count c" "count c \<le> max_count c" "sorted_lines es (count c)"
    "\<forall>i < count c. line_at es i \<noteq> 0" by (simp_all add: cache_ok_def)
  obtain r where r: "bisect_code_objects es (count c) line = Ret (int r)" "lower_bound es (count c) line r"
    using bisect_correct [OF c(4,2)] by blast
  have new: "\<not> (r < count c \<and> line_at es r = line)"
    using line(2) find_map [OF c(4) r(2)] Some by (auto simp: cache_map_def)
  define x where "x = \<lparr>code_object = ob, code_line = line\<rparr>"
  have "r \<le> count c" "count c = max_count c \<longrightarrow> mem"
    using r(2) mem line(2) by (auto simp: lower_bound_def needs_memory_def)
  from insert_gap [OF ok line(1) Some r(1) this(1) new this(2), of junk ob]
  obtain c' es' m where run: "insert_code_object mem junk line ob c = Ret (c', Some ob, None)"
    and c': "c' = c\<lparr>max_count := m, entries := Some es', count := count c + 1\<rparr>" "length es' = m" "count c < m"
    and split': "cached c' = take r es @ x # drop r (take (count c) es)"
    unfolding x_def by blast
  have split: "take (count c) es = take r es @ drop r (take (count c) es)"
    using lower_bound_split(1) [OF r(2)] c by simp
  have s: "sorted_wrt (\<lambda>a b. code_line a < code_line b) (take r es @ drop r (take (count c) es))"
    using c(4) split by (simp add: sorted_lines_take)
  have "\<forall>e \<in> set (take r es). code_line e < line" using lower_bound_split(2) [OF r(2)] c by simp
  note ins = insert_sorted [OF s this lower_bound_strict [OF r(2) c(4) new], of ob, folded x_def]
  have "cache_map c' = (cache_map c)(line \<mapsto> ob)"
    using ins(2) split split' Some by (simp add: cache_map_def)
  moreover have "cache_ok c'"
  proof -
    have "sorted_lines es' (count c + 1)"
      using ins(1) split' c' by (simp add: sorted_lines_take)
    moreover have "\<forall>e \<in> set (cached c'). code_line e \<noteq> 0"
    proof -
      have "\<forall>e \<in> set (take (count c) es). code_line e \<noteq> 0"
        using c(1,3,5) lines_nonzero [of "count c" es] by simp
      moreover have "set (cached c') = insert x (set (take (count c) es))"
        unfolding split' by (subst (2) split) simp
      ultimately show ?thesis using line(1) by (simp add: x_def)
    qed
    ultimately show ?thesis using c' by (simp add: cache_ok_def lines_nonzero)
  qed
  ultimately show ?thesis using run split split' Some by (auto simp: x_def)
qed

text \<open>The three cases together.\<close>

lemma insert_cases:
  assumes "cache_ok c"
  obtains (fails) "insert_code_object mem junk line ob c = Ret (c, None, None)"
      "line = 0 \<or> \<not> mem \<and> needs_memory c line"
  | (replaces) c' old where "insert_code_object mem junk line ob c = Ret (c', None, Some old)" "cache_ok c'"
      "line \<noteq> 0" "cache_map c line = Some old" "cache_map c' = (cache_map c)(line \<mapsto> ob)"
  | (inserts) c' xs ys where "insert_code_object mem junk line ob c = Ret (c', Some ob, None)" "cache_ok c'"
      "line \<noteq> 0" "cache_map c line = None" "cache_map c' = (cache_map c)(line \<mapsto> ob)" "cached c = xs @ ys"
      "cached c' = xs @ \<lparr>code_object = ob, code_line = line\<rparr> # ys" "mem \<or> \<not> needs_memory c line"
proof (cases "line = 0 \<or> \<not> mem \<and> needs_memory c line")
  case True
  with insert_fails [OF assms] fails show thesis by blast
next
  case False
  show thesis
  proof (cases "cache_map c line")
    case None
    with False insert_absent [OF assms, of line mem junk ob] inserts show thesis by blast
  next
    case (Some old)
    with False insert_present [OF assms, of line old mem junk ob] replaces show thesis by blast
  qed
qed

definition stored :: "(nat \<Rightarrow> 'o cache_entry) \<Rightarrow> bool \<Rightarrow> int \<Rightarrow> 'o \<Rightarrow> 'o code_cache \<Rightarrow> 'o code_cache" where
  "stored junk mem line ob c = (case insert_code_object mem junk line ob c of Ret (c', _) \<Rightarrow> c' | _ \<Rightarrow> c)"

definition looked_up :: "'o code_cache \<Rightarrow> int \<Rightarrow> 'o option" where
  "looked_up c line = (case find_code_object line c of Ret x \<Rightarrow> x | _ \<Rightarrow> None)"

lemma cache_map_zero: "cache_ok c \<Longrightarrow> cache_map c 0 = None"
  unfolding cache_map_def
  by (rule map_of_kv_None) (auto simp: cache_ok_def cached_def lines_nonzero split: option.splits)

lemma looked_up_map: "cache_ok c \<Longrightarrow> looked_up c = cache_map c"
  by (auto simp: looked_up_def find_code_object_correct cache_map_zero fun_eq_iff)

interpretation code_cache: cache_spec cache_ok looked_up "stored junk" needs_memory for junk :: "nat \<Rightarrow> 'o cache_entry"
proof
  fix s :: "'o code_cache" and mem k v
  assume ok: "cache_ok s"
  show st: "cache_ok (stored junk mem k v s)"
    by (rule insert_cases [OF ok, of mem junk k v]) (simp_all add: stored_def ok)
  show "looked_up (stored junk mem k v s) = (looked_up s)(k \<mapsto> v)" if "k \<noteq> 0" "mem \<or> \<not> needs_memory s k"
    unfolding looked_up_map [OF st] looked_up_map [OF ok]
    by (rule insert_cases [OF ok, of mem junk k v]) (use that in \<open>simp_all add: stored_def\<close>)
  show "looked_up (stored junk mem k v s) = looked_up s" if "k = 0 \<or> \<not> mem \<and> needs_memory s k"
    using insert_fails [OF ok that, of junk v] by (simp add: stored_def)
  show "looked_up s 0 = None" by (simp add: looked_up_map [OF ok] cache_map_zero [OF ok])
qed

section \<open>Tracebacks\<close>

text \<open>
  The module's state: the cache, the references that the file holds on code objects, and the
  attribute \<open>cline_in_traceback\<close> of the Cython runtime (no runtime, no attribute, or its truth value).
\<close>

record 'o py_state =
  cache :: "'o code_cache"
  refs :: "'o \<Rightarrow> int"
  cline :: "bool option option"

text \<open>The C line is reported only when the attribute is true; a missing one is set to \<open>False\<close>.\<close>

definition CLineForTraceback :: "int \<Rightarrow> bool option option \<Rightarrow> int \<times> bool option option" where
  "CLineForTraceback c_line runtime =
     (case runtime of
        None \<Rightarrow> (c_line, runtime)
      | Some None \<Rightarrow> (0, Some (Some False))
      | Some (Some use_cline) \<Rightarrow> (if use_cline then c_line else 0, runtime))"

text \<open>
  The Python calls that may fail: the allocator, strings (by their text), code objects (from file
  name, function name and line) and frames.
\<close>

record 'o py_api =
  mem_ok :: bool
  junk_slots :: "nat \<Rightarrow> 'o cache_entry"
  unicode_ok :: "string \<Rightarrow> bool"
  code_new :: "string \<Rightarrow> string \<Rightarrow> int \<Rightarrow> 'o option"
  frame_ok :: bool

definition traceback_name :: "(int \<Rightarrow> string) \<Rightarrow> string \<Rightarrow> string \<Rightarrow> int \<Rightarrow> string" where
  "traceback_name fmt cfilenm funcname c_line =
     (if c_line \<noteq> 0 then funcname @ '' ('' @ cfilenm @ '':'' @ fmt c_line @ '')'' else funcname)"

definition CreateCodeObjectForTraceback ::
  "'o py_api \<Rightarrow> (int \<Rightarrow> string) \<Rightarrow> string \<Rightarrow> string \<Rightarrow> int \<Rightarrow> int \<Rightarrow> string \<Rightarrow> 'o option" where
  "CreateCodeObjectForTraceback api fmt cfilenm funcname c_line py_line filename =
     (let py_funcname = traceback_name fmt cfilenm funcname c_line
      in if \<not> unicode_ok api filename then None
         else if \<not> unicode_ok api py_funcname then None
         else code_new api filename py_funcname py_line)"

definition incref :: "'o \<Rightarrow> 'o py_state \<Rightarrow> 'o py_state" where
  "incref ob st = st\<lparr>refs := (refs st)(ob := refs st ob + 1)\<rparr>"

definition decref :: "'o \<Rightarrow> 'o py_state \<Rightarrow> 'o py_state" where
  "decref ob st = st\<lparr>refs := (refs st)(ob := refs st ob - 1)\<rparr>"

definition opt_ref :: "('o \<Rightarrow> 's \<Rightarrow> 's) \<Rightarrow> 'o option \<Rightarrow> 's \<Rightarrow> 's" where
  "opt_ref f x st = (case x of None \<Rightarrow> st | Some ob \<Rightarrow> f ob st)"

definition insert_code :: "'o py_api \<Rightarrow> int \<Rightarrow> 'o \<Rightarrow> 'o py_state \<Rightarrow> (access, 'o py_state) outcome" where
  "insert_code api line ob st =
     omap (\<lambda>(c, taken, released). opt_ref decref released (opt_ref incref taken (st\<lparr>cache := c\<rparr>)))
       (insert_code_object (mem_ok api) (junk_slots api) line ob (cache st))"

text \<open>The code object of a traceback entry: the cached one, or a new one that is then cached.\<close>

definition traceback_code ::
  "'o py_api \<Rightarrow> (int \<Rightarrow> string) \<Rightarrow> string \<Rightarrow> string \<Rightarrow> int \<Rightarrow> int \<Rightarrow> string \<Rightarrow> 'o py_state
   \<Rightarrow> (access, 'o option \<times> 'o py_state) outcome" where
  "traceback_code api fmt cfilenm funcname c_line py_line filename st =
     (let key = (if c_line \<noteq> 0 then - c_line else py_line)
      in obind (find_code_object key (cache st)) (\<lambda>found.
           case found of
             Some ob \<Rightarrow> Ret (Some ob, incref ob st)
           | None \<Rightarrow>
               (case CreateCodeObjectForTraceback api fmt cfilenm funcname c_line py_line filename of
                  None \<Rightarrow> Ret (None, st)
                | Some ob \<Rightarrow> omap (\<lambda>st'. (Some ob, st')) (insert_code api key ob (incref ob st)))))"

text \<open>The result is the traceback entry added, if any: the code object and the Python line.\<close>

definition AddTraceback ::
  "'o py_api \<Rightarrow> (int \<Rightarrow> string) \<Rightarrow> string \<Rightarrow> string \<Rightarrow> int \<Rightarrow> int \<Rightarrow> string \<Rightarrow> 'o py_state
   \<Rightarrow> (access, ('o \<times> int) option \<times> 'o py_state) outcome" where
  "AddTraceback api fmt cfilenm funcname c_line0 py_line filename st0 =
     (let (c_line, runtime) = (if c_line0 \<noteq> 0 then CLineForTraceback c_line0 (cline st0) else (c_line0, cline st0));
          st = st0\<lparr>cline := runtime\<rparr>
      in omap (\<lambda>(code, st1).
             ((case code of Some ob \<Rightarrow> if frame_ok api then Some (ob, py_line) else None | None \<Rightarrow> None),
              opt_ref decref code st1))
           (traceback_code api fmt cfilenm funcname c_line py_line filename st))"

section \<open>Properties\<close>

text \<open>The number of entries that hold an object.\<close>

definition held :: "'o code_cache \<Rightarrow> 'o \<Rightarrow> int" where
  "held c ob = int (length (filter (\<lambda>e. code_object e = ob) (cached c)))"

definition present :: "'o option \<Rightarrow> 'o \<Rightarrow> int" where
  "present x ob = (if x = Some ob then 1 else 0)"

lemma refs_opt [simp]:
  "refs (opt_ref incref x st) ob = refs st ob + present x ob"
  "refs (opt_ref decref x st) ob = refs st ob - present x ob"
  "cache (opt_ref incref x st) = cache st" "cache (opt_ref decref x st) = cache st"
  "refs (incref o' st) ob = refs st ob + present (Some o') ob" "cache (incref o' st) = cache st"
  by (auto simp: opt_ref_def incref_def decref_def present_def split: option.splits)

lemma held_insert:
  "cached c = xs @ ys \<Longrightarrow> cached c' = xs @ \<lparr>code_object = o', code_line = l\<rparr> # ys \<Longrightarrow>
   held c' ob = held c ob + present (Some o') ob"
  by (simp add: held_def present_def)

text \<open>
  C12: the cache of code objects is a finite map from lines to objects.  On a well-formed cache an
  insertion never leaves the array and keeps the entries sorted by line; afterwards a lookup of
  the inserted line gives the new object, unless the line is zero or the array had to grow and
  could not, and every other lookup gives what it gave before.
\<close>

theorem code_cache_insert_find:
  assumes "cache_ok c"
  shows "\<exists>c' taken released. insert_code_object mem junk line ob c = Ret (c', taken, released) \<and> cache_ok c'
    \<and> find_code_object k c' = (if k = line \<and> line \<noteq> 0 \<and> (mem \<or> \<not> needs_memory c line)
        then Ret (Some ob) else find_code_object k c)"
proof (rule insert_cases [OF assms, of mem junk line ob])
qed (use assms in \<open>auto simp: find_code_object_correct needs_memory_def\<close>)

theorem code_cache_insert_find_witness:
  "\<exists>c' taken released. insert_code_object True (\<lambda>_. \<lparr>code_object = 0, code_line = 0\<rparr>) 7 (5 :: nat) code_cache_init
      = Ret (c', taken, released) \<and> cache_ok c' \<and> find_code_object 7 c' = Ret (Some 5)"
  using code_cache_insert_find [of "code_cache_init :: nat code_cache" True "\<lambda>_. \<lparr>code_object = 0, code_line = 0\<rparr>" 7 5 7]
  by (simp add: code_cache_init_def cache_ok_def)

lemma traceback_code_balanced:
  assumes "cache_ok (cache st)"
  shows "\<exists>code st'. traceback_code api fmt cfilenm funcname c_line py_line filename st = Ret (code, st')
    \<and> cache_ok (cache st')
    \<and> (\<forall>ob. refs st' ob - refs st ob = held (cache st') ob - held (cache st) ob + present code ob)
    \<and> (looked_up (cache st) (if c_line \<noteq> 0 then - c_line else py_line) = None
       \<or> code = looked_up (cache st) (if c_line \<noteq> 0 then - c_line else py_line))"
proof -
  define key where "key = (if c_line \<noteq> 0 then - c_line else py_line)"
  have find: "find_code_object key (cache st) = Ret (cache_map (cache st) key)"
    using assms cache_map_zero [OF assms] by (simp add: find_code_object_correct)
  show ?thesis
  proof (cases "cache_map (cache st) key")
    case (Some ob)
    then show ?thesis
      using find assms by (simp add: traceback_code_def Let_def looked_up_def flip: key_def)
  next
    case None
    show ?thesis
    proof (cases "CreateCodeObjectForTraceback api fmt cfilenm funcname c_line py_line filename")
      case create: None
      with None find assms show ?thesis
        by (simp add: traceback_code_def Let_def looked_up_def present_def flip: key_def)
    next
      case create: (Some ob)
      from assms have "\<exists>st'. insert_code api key ob (incref ob st) = Ret st' \<and> cache_ok (cache st')
        \<and> (\<forall>x. refs st' x - refs st x = held (cache st') x - held (cache st) x + present (Some ob) x)"
        by (rule insert_cases [of "cache st" "mem_ok api" "junk_slots api" key ob])
          (use None assms in \<open>auto simp: insert_code_def held_insert present_def\<close>)
      with None find create show ?thesis
        by (auto simp: traceback_code_def Let_def looked_up_def simp flip: key_def)
    qed
  qed
qed

text \<open>
  C20: adding a traceback entry is balanced.  It never leaves the array, it keeps the cache well
  formed, and the references that the file holds on an object change by exactly the entries of
  the cache that hold it.
\<close>

theorem add_traceback_balanced:
  assumes "cache_ok (cache st)"
  shows "\<exists>e st'. AddTraceback api fmt cfilenm funcname c_line py_line filename st = Ret (e, st')
    \<and> cache_ok (cache st')
    \<and> (\<forall>ob. refs st' ob - refs st ob = held (cache st') ob - held (cache st) ob)"
proof -
  obtain c_line' runtime where r: "(if c_line \<noteq> 0 then CLineForTraceback c_line (cline st) else (c_line, cline st)) = (c_line', runtime)"
    by fastforce
  from traceback_code_balanced [of "st\<lparr>cline := runtime\<rparr>" api fmt cfilenm funcname c_line' py_line filename] assms
  obtain code st' where t: "traceback_code api fmt cfilenm funcname c_line' py_line filename (st\<lparr>cline := runtime\<rparr>)
      = Ret (code, st')" "cache_ok (cache st')"
    and b: "\<And>ob. refs st' ob - refs st ob = held (cache st') ob - held (cache st) ob + present code ob"
    by auto
  have "refs st' ob - present code ob - refs st ob = held (cache st') ob - held (cache st) ob" for ob
    using b [of ob] by simp
  with t show ?thesis by (simp add: AddTraceback_def r Let_def)
qed

definition demo_api :: "nat py_api" where
  "demo_api = \<lparr>mem_ok = True, junk_slots = (\<lambda>_. \<lparr>code_object = 0, code_line = 0\<rparr>), unicode_ok = (\<lambda>_. True),
     code_new = (\<lambda>_ _ line. Some (nat line)), frame_ok = True\<rparr>"

definition demo_state :: "nat py_state" where
  "demo_state = \<lparr>cache = code_cache_init, refs = (\<lambda>_. 0), cline = Some None\<rparr>"

theorem add_traceback_balanced_witness:
  "\<exists>e st'. AddTraceback demo_api (\<lambda>_. []) ''simple.cpp'' ''second_function'' 1335 6 ''simple.pyx'' demo_state = Ret (e, st')
    \<and> cache_ok (cache st') \<and> (\<forall>ob. refs st' ob - refs demo_state ob = held (cache st') ob - held (cache demo_state) ob)"
  by (rule add_traceback_balanced) (simp add: demo_state_def code_cache_init_def cache_ok_def)

text \<open>
  the balance rests on \<open>__Pyx_AddTraceback\<close> inserting only lines that it did not find: when
  \<open>__pyx_insert_code_object\<close> replaces an object it releases the old one but takes no reference on
  the new one, so the cache then holds an object it does not own.
\<close>

lemma cached_nonempty: "cache_ok c \<Longrightarrow> cache_map c line = Some old \<Longrightarrow>
    \<exists>e \<in> set (cached c). code_line e = line \<and> code_object e = old"
  by (auto simp: cache_map_def kv_def dest!: map_of_SomeD)

theorem replaced_object_not_owned:
  assumes "cache_ok (cache st)" "line \<noteq> 0" "cache_map (cache st) line = Some old" "old \<noteq> ob"
  shows "\<exists>st'. insert_code api line ob st = Ret st' \<and> refs st' ob = refs st ob
    \<and> refs st' old = refs st old - 1
    \<and> (\<exists>e \<in> set (cached (cache st')). code_line e = line \<and> code_object e = ob)"
proof -
  obtain c' where c': "insert_code_object (mem_ok api) (junk_slots api) line ob (cache st) = Ret (c', None, Some old)"
    "cache_ok c'" "cache_map c' = (cache_map (cache st))(line \<mapsto> ob)"
    using insert_present [OF assms(1-3)] by blast
  have "\<exists>e \<in> set (cached c'). code_line e = line \<and> code_object e = ob"
    using cached_nonempty [OF c'(2), of line ob] c'(3) by simp
  with c'(1) assms(4) show ?thesis
    by (auto simp: insert_code_def present_def opt_ref_def decref_def)
qed

text \<open>
  a lookup after any sequence of successful insertions into an empty cache gives the object of the
  last insertion of that line.
\<close>

theorem code_cache_last_insertion:
  fixes junk :: "nat \<Rightarrow> 'o cache_entry"
  assumes "\<forall>(mem, k, v) \<in> set us. mem \<and> k \<noteq> 0"
  shows "looked_up (code_cache.store_all junk us code_cache_init) = map_of (rev (map snd us))"
proof -
  have ok: "cache_ok (code_cache_init :: 'o code_cache)" by (simp add: code_cache_init_def cache_ok_def)
  then have "looked_up (code_cache_init :: 'o code_cache) = Map.empty"
    by (simp add: looked_up_map) (simp add: cache_map_def cached_def code_cache_init_def)
  with code_cache.store_all_find [OF ok assms] show ?thesis by simp
qed

end
