(* ===== verification/Cython_Ints.thy ===== *)
theory Cython_Ints
  imports Prelude
begin

unbundle bit_operations_syntax

text \<open>
  Integers and indices in the checked-in extension module \<open>cjunk/cython/simple.cpp\<close>: the
  conversion of a Python integer, an array of digits, to a C integer (\<open>__Pyx_PyInt_As_long\<close>,
  \<open>__Pyx_PyInt_As_int\<close>, \<open>__Pyx_PyIndex_AsSsize_t\<close>), and the element access of
  \<open>__Pyx_GetItemInt_List_Fast\<close> and \<open>_Tuple_Fast\<close>.  C integers are written as \<open>int\<close> with every
  cast and shift at its width: \<open>take_bit n\<close> is the cast to an unsigned type of \<open>n\<close> bits and
  \<open>signed_take_bit (n - 1)\<close> the cast to a signed one.  \<open>long\<close>, \<open>size_t\<close> and \<open>Py_ssize_t\<close> have 64 bits
  and \<open>int\<close> has 32; the number \<open>S\<close> of bits per digit is \<open>PyLong_SHIFT\<close>, which is 30 or 15.  The
  functions of the Python library are parameters.
\<close>

section \<open>Python objects\<close>

datatype py_error = OverflowError string | TypeError string | IndexError string | ImportError string | RuntimeError string
  | PickleError string | NameError string | AttributeError string | SystemError string | RecursionError string
  | Py_Raised string | Undefined_Behaviour

text \<open>The sign and the number of digits of an integer are in \<open>ob_size\<close>; the low digit comes first.\<close>

record pylong =
  ob_size :: int
  ob_digit :: "int list"

definition pylong_digits :: "pylong \<Rightarrow> int list" where
  "pylong_digits x = take (nat \<bar>ob_size x\<bar>) (ob_digit x)"

text \<open>The value of a digit list, and of an integer.\<close>

fun digits_value :: "nat \<Rightarrow> int list \<Rightarrow> int" where
  "digits_value S [] = 0"
| "digits_value S (d # ds) = d + 2 ^ S * digits_value S ds"

definition pylong_value :: "nat \<Rightarrow> pylong \<Rightarrow> int" where
  "pylong_value S x = sgn (ob_size x) * digits_value S (pylong_digits x)"

text \<open>What Python guarantees of an integer: its digits are in range and the top one is not zero.\<close>

definition pylong_ok :: "nat \<Rightarrow> pylong \<Rightarrow> bool" where
  "pylong_ok S x \<longleftrightarrow> nat \<bar>ob_size x\<bar> \<le> length (ob_digit x)
     \<and> (\<forall>d \<in> set (pylong_digits x). 0 \<le> d \<and> d < 2 ^ S)
     \<and> (ob_size x \<noteq> 0 \<longrightarrow> last (pylong_digits x) \<noteq> 0)"

section \<open>CIntFromPy\<close>

text \<open>The digits shifted and combined in \<open>unsigned long\<close>.\<close>

fun ulong_digits :: "nat \<Rightarrow> int list \<Rightarrow> int" where
  "ulong_digits S [] = 0"
| "ulong_digits S [d] = take_bit 64 d"
| "ulong_digits S (d # ds) = take_bit 64 (push_bit S (ulong_digits S ds)) OR take_bit 64 d"

text \<open>
  \<open>__PYX_VERIFY_RETURN_INT\<close>: the value has the type of \<open>fbits\<close> bits that \<open>fcast\<close> casts to; a
  narrower target must be able to represent it.
\<close>

definition verify_return_int ::
  "nat \<Rightarrow> string \<Rightarrow> nat \<Rightarrow> (int \<Rightarrow> int) \<Rightarrow> int \<Rightarrow> (py_error, int) outcome" where
  "verify_return_int w target fbits fcast val =
     (let t = signed_take_bit (w - 1) val
      in if w < fbits \<and> val \<noteq> fcast t
         then Throw (OverflowError (''value too large to convert to '' @ target))
         else Ret t)"

definition digit_bits :: "nat \<Rightarrow> nat" where
  "digit_bits S = (if S = 30 then 32 else 16)"

text \<open>
  The conversion to a signed type of \<open>w\<close> bits (\<open>is_unsigned\<close> is false for \<open>long\<close> and \<open>int\<close>), by
  the number of digits; integers whose digits may not fit go to \<open>PyLong_AsLong\<close>.
\<close>

definition pyint_as ::
  "nat \<Rightarrow> string \<Rightarrow> nat \<Rightarrow> (pylong \<Rightarrow> (py_error, int) outcome) \<Rightarrow> pylong \<Rightarrow> (py_error, int) outcome" where
  "pyint_as w target S PyLong_AsLong x =
     (let digits = ob_digit x; size = ob_size x; k = nat \<bar>size\<bar>;
          slow = obind (PyLong_AsLong x) (verify_return_int w target 64 (signed_take_bit 63))
      in if size = 0 then Ret 0
         else if size = -1
         then verify_return_int w target (digit_bits S) (signed_take_bit (digit_bits S - 1))
                (signed_take_bit (digit_bits S - 1) (- signed_take_bit (digit_bits S - 1) (digits ! 0)))
         else if size = 1
         then verify_return_int w target (digit_bits S) (take_bit (digit_bits S)) (digits ! 0)
         else if size \<in> {-2, -3, -4} \<and> w - 1 > (k - 1) * S \<and> 64 > k * S
         then verify_return_int w target 64 (signed_take_bit 63)
                (signed_take_bit 63 (- signed_take_bit 63 (ulong_digits S (take k digits))))
         else if size \<in> {2, 3, 4} \<and> w > (k - 1) * S \<and> 64 > k * S
         then verify_return_int w target 64 (take_bit 64) (ulong_digits S (take k digits))
         else slow)"

text \<open>
  \<open>__Pyx_PyInt_From_long\<close> chooses between the interpreter's constructors by sign and size of the type; for
  \<open>long\<close> the tests are decided at compile time and leave \<open>PyLong_FromLong\<close>.
\<close>

definition PyInt_From_long :: "(int \<Rightarrow> pylong) \<Rightarrow> (int \<Rightarrow> pylong) \<Rightarrow> int \<Rightarrow> pylong" where
  "PyInt_From_long PyLong_FromUnsignedLong PyLong_FromLong val =
     (let neg_one = signed_take_bit 63 (0 - 1 :: int); const_zero = signed_take_bit 63 (0 :: int)
      in if neg_one > const_zero then PyLong_FromUnsignedLong (take_bit 64 val) else PyLong_FromLong val)"

definition PyInt_As_long :: "nat \<Rightarrow> (pylong \<Rightarrow> (py_error, int) outcome) \<Rightarrow> pylong \<Rightarrow> (py_error, int) outcome" where
  "PyInt_As_long = pyint_as 64 ''long''"

definition PyInt_As_int :: "nat \<Rightarrow> (pylong \<Rightarrow> (py_error, int) outcome) \<Rightarrow> pylong \<Rightarrow> (py_error, int) outcome" where
  "PyInt_As_int = pyint_as 32 ''int''"

text \<open>\<open>__Pyx_PyIndex_AsSsize_t\<close> on an exact integer.\<close>

definition PyIndex_AsSsize_t ::
  "nat \<Rightarrow> (pylong \<Rightarrow> (py_error, int) outcome) \<Rightarrow> pylong \<Rightarrow> (py_error, int) outcome" where
  "PyIndex_AsSsize_t S PyLong_AsSsize_t b =
     (let digits = ob_digit b; size = ob_size b; k = nat \<bar>size\<bar>
      in if k \<le> 1
         then let ival = (if size \<noteq> 0 then digits ! 0 else 0) in Ret (if size = -1 then - ival else ival)
         else if k \<in> {2, 3, 4} \<and> 64 > k * S
         then let ival = signed_take_bit 63 (ulong_digits S (take k digits))
              in Ret (if size < 0 then signed_take_bit 63 (- ival) else ival)
         else PyLong_AsSsize_t b)"

section \<open>Objects that are not integers\<close>

text \<open>An integer object carries whether its type is exactly \<open>int\<close>; of any other object only its slots matter.\<close>

datatype 'p pyobj = IntObj bool pylong | OtherObj 'p

record 'p num_api =
  nb_int :: "'p \<Rightarrow> (py_error, 'p pyobj) outcome option"
  tp_name :: "'p \<Rightarrow> string"
  warn_ok :: bool

definition IntOrLongWrongResultType :: "'p num_api \<Rightarrow> 'p pyobj \<Rightarrow> string \<Rightarrow> (py_error, bool \<times> pylong) outcome" where
  "IntOrLongWrongResultType api res name =
     (case res of
        IntObj exact l \<Rightarrow> if warn_ok api then Ret (exact, l) else Throw (Py_Raised ''DeprecationWarning'')
      | OtherObj p \<Rightarrow> Throw (TypeError (''__'' @ take 4 name @ ''__ returned non-'' @ take 4 name
          @ '' (type '' @ take 200 (tp_name api p) @ '')'')))"

definition PyNumber_IntOrLong :: "'p num_api \<Rightarrow> 'p pyobj \<Rightarrow> (py_error, bool \<times> pylong) outcome" where
  "PyNumber_IntOrLong api x =
     (case x of
        IntObj exact l \<Rightarrow> Ret (exact, l)
      | OtherObj p \<Rightarrow>
          (case nb_int api p of
             None \<Rightarrow> Throw (TypeError ''an integer is required'')
           | Some r \<Rightarrow> obind r (\<lambda>res.
               case res of
                 IntObj True l \<Rightarrow> Ret (True, l)
               | _ \<Rightarrow> IntOrLongWrongResultType api res ''int'')))"

text \<open>\<open>__Pyx_PyInt_As_long\<close> of any object.\<close>

definition PyInt_As_long_obj ::
  "'p num_api \<Rightarrow> nat \<Rightarrow> (pylong \<Rightarrow> (py_error, int) outcome) \<Rightarrow> 'p pyobj \<Rightarrow> (py_error, int) outcome" where
  "PyInt_As_long_obj api S PyLong_AsLong x =
     (case x of
        IntObj _ l \<Rightarrow> PyInt_As_long S PyLong_AsLong l
      | OtherObj _ \<Rightarrow> obind (PyNumber_IntOrLong api x) (\<lambda>(_, l). PyInt_As_long S PyLong_AsLong l))"

section \<open>Element access\<close>

text \<open>One unsigned comparison checks both ends of the range.\<close>

definition is_valid_index :: "int \<Rightarrow> int \<Rightarrow> bool" where
  "is_valid_index i limit \<longleftrightarrow> take_bit 64 i < take_bit 64 limit"

text \<open>\<open>PyList_GET_ITEM\<close> and \<open>PyTuple_GET_ITEM\<close> do not check the index.\<close>

definition get_item_unchecked :: "'a list \<Rightarrow> int \<Rightarrow> (py_error, 'a) outcome" where
  "get_item_unchecked xs i = (if 0 \<le> i \<and> nat i < length xs then Ret (xs ! nat i) else Throw Undefined_Behaviour)"

definition GetItemInt_List_Fast ::
  "('a list \<Rightarrow> int \<Rightarrow> (py_error, 'a) outcome) \<Rightarrow> 'a list \<Rightarrow> int \<Rightarrow> bool \<Rightarrow> bool \<Rightarrow> (py_error, 'a) outcome" where
  "GetItemInt_List_Fast generic xs i wraparound boundscheck =
     (let wrapped_i = (if wraparound \<and> i < 0 then i + int (length xs) else i)
      in if \<not> boundscheck \<or> is_valid_index wrapped_i (int (length xs)) then get_item_unchecked xs wrapped_i
         else generic xs i)"

definition GetItemInt_Tuple_Fast ::
  "('a list \<Rightarrow> int \<Rightarrow> (py_error, 'a) outcome) \<Rightarrow> 'a list \<Rightarrow> int \<Rightarrow> bool \<Rightarrow> bool \<Rightarrow> (py_error, 'a) outcome" where
  "GetItemInt_Tuple_Fast generic xs i wraparound boundscheck =
     (let wrapped_i = (if wraparound \<and> i < 0 then i + int (length xs) else i)
      in if \<not> boundscheck \<or> is_valid_index wrapped_i (int (length xs)) then get_item_unchecked xs wrapped_i
         else generic xs i)"

text \<open>The general access: exact lists and tuples, then the sequence slots, then \<open>PyObject_GetItem\<close>.\<close>

datatype ('a, 'q) container = ListC "'a list" | TupleC "'a list" | OtherC 'q

record ('a, 'q) seq_api =
  sq_item :: "('q \<Rightarrow> int \<Rightarrow> (py_error, 'a) outcome) option"
  sq_length :: "('q \<Rightarrow> (py_error, int) outcome) option"
  get_item :: "('a, 'q) container \<Rightarrow> int \<Rightarrow> (py_error, 'a) outcome"

definition exact_item ::
  "('a, 'q) seq_api \<Rightarrow> ('a, 'q) container \<Rightarrow> 'a list \<Rightarrow> int \<Rightarrow> bool \<Rightarrow> bool \<Rightarrow> (py_error, 'a) outcome" where
  "exact_item api c xs i wraparound boundscheck =
     (let n = (if \<not> wraparound \<or> i \<ge> 0 then i else i + int (length xs))
      in if \<not> boundscheck \<or> is_valid_index n (int (length xs)) then get_item_unchecked xs n
         else get_item api c i)"

definition GetItemInt_Fast ::
  "('a, 'q) seq_api \<Rightarrow> ('a, 'q) container \<Rightarrow> int \<Rightarrow> bool \<Rightarrow> bool \<Rightarrow> (py_error, 'a) outcome" where
  "GetItemInt_Fast api c i wraparound boundscheck =
     (case c of
        ListC xs \<Rightarrow> exact_item api c xs i wraparound boundscheck
      | TupleC xs \<Rightarrow> exact_item api c xs i wraparound boundscheck
      | OtherC q \<Rightarrow>
          (case sq_item api of
             None \<Rightarrow> get_item api c i
           | Some item \<Rightarrow>
               (case sq_length api of
                  Some len \<Rightarrow>
                    if wraparound \<and> i < 0
                    then (case len q of
                            Ret l \<Rightarrow> item q (i + l)
                          | Throw (OverflowError m) \<Rightarrow> item q i
                          | Throw e \<Rightarrow> Throw e
                          | Diverge \<Rightarrow> Diverge)
                    else item q i
                | None \<Rightarrow> item q i)))"

section \<open>The digits fit\<close>

lemma digits_value_bounds:
  "\<forall>d \<in> set ds. 0 \<le> d \<and> d < 2 ^ S \<Longrightarrow> 0 \<le> digits_value S ds \<and> digits_value S ds < 2 ^ (length ds * S)"
proof (induction ds)
  case (Cons d ds)
  then have v: "0 \<le> digits_value S ds" "digits_value S ds + 1 \<le> 2 ^ (length ds * S)" and d: "0 \<le> d" "d < 2 ^ S" by auto
  have "d + 2 ^ S * digits_value S ds < 2 ^ S * (digits_value S ds + 1)" using d(2) by (simp add: algebra_simps)
  also have "\<dots> \<le> 2 ^ S * 2 ^ (length ds * S)" using v(2) by (intro mult_left_mono) simp_all
  finally show ?case using v(1) d(1) by (simp add: power_add)
qed simp

lemma pow_le: "m \<le> n \<Longrightarrow> (2 :: int) ^ m \<le> 2 ^ n"
  by (rule power_increasing) simp_all

lemma or_disjoint_add:
  fixes a d :: int
  assumes "0 \<le> d" "d < 2 ^ S"
  shows "push_bit S a OR d = d + 2 ^ S * a"
proof -
  have "\<not> bit (push_bit S a) n \<or> \<not> bit d n" for n
  proof (cases "n < S")
    case False
    have "take_bit S d = d" using assms by (simp add: take_bit_int_eq_self)
    then have "\<not> bit d n" using False by (metis bit_take_bit_iff)
    then show ?thesis by simp
  qed (simp add: bit_push_bit_iff)
  then have "push_bit S a + d = push_bit S a OR d" by (rule disjunctive_add)
  then show ?thesis by (simp add: push_bit_eq_mult algebra_simps)
qed

lemma ulong_digits_value:
  assumes "\<forall>d \<in> set ds. 0 \<le> d \<and> d < 2 ^ S" "length ds * S < 64" "ds \<noteq> []"
  shows "ulong_digits S ds = digits_value S ds"
  using assms
proof (induction S ds rule: ulong_digits.induct)
  case (2 S d)
  have "d < 2 ^ 64" using 2 pow_le [of S 64] by fastforce
  with 2 show ?case by (simp add: take_bit_int_eq_self)
next
  case (3 S d e ds)
  have IH: "ulong_digits S (e # ds) = digits_value S (e # ds)" using 3 by simp
  have b: "0 \<le> digits_value S (d # e # ds)" "digits_value S (d # e # ds) < 2 ^ (length (d # e # ds) * S)"
    using digits_value_bounds [OF "3.prems"(1)] by blast+
  have b64: "digits_value S (d # e # ds) < 2 ^ 64"
    using b(2) pow_le [of "length (d # e # ds) * S" 64] "3.prems"(2) by linarith
  have v: "0 \<le> digits_value S (e # ds)" using digits_value_bounds [of "e # ds" S] "3.prems"(1) by simp
  have d: "0 \<le> d" "d < 2 ^ S" using "3.prems"(1) by auto
  then have d64: "d < 2 ^ 64" using "3.prems"(2) pow_le [of S 64] by (auto simp del: power_increasing_iff)
  have p: "push_bit S (digits_value S (e # ds)) < 2 ^ 64" "0 \<le> push_bit S (digits_value S (e # ds))"
    using b64 v d by (auto simp: push_bit_eq_mult mult.commute simp del: digits_value.simps(2)
        simp add: digits_value.simps(2) [of S d "e # ds"])
  show ?case
    using p d d64 IH or_disjoint_add [OF d(1,2)]
    by (simp add: take_bit_int_eq_self del: digits_value.simps(2)) (simp add: digits_value.simps(2) [of S d "e # ds"])
qed simp

text \<open>The casts that the conversions make do not change a value in range.\<close>

definition in_signed :: "nat \<Rightarrow> int \<Rightarrow> bool" where
  "in_signed w v \<longleftrightarrow> - (2 ^ (w - 1)) \<le> v \<and> v < 2 ^ (w - 1)"

lemma signed_cast_id: "in_signed w v \<Longrightarrow> signed_take_bit (w - 1) v = v"
  by (simp add: in_signed_def signed_take_bit_int_eq_self)

lemma signed_cast_range: "0 < w \<Longrightarrow> in_signed w (signed_take_bit (w - 1) v)"
  by (simp add: in_signed_def signed_take_bit_int_greater_eq_minus_exp signed_take_bit_int_less_exp)

lemma signed_cast_iff: "0 < w \<Longrightarrow> signed_take_bit (w - 1) v = v \<longleftrightarrow> in_signed w v"
  using signed_cast_id signed_cast_range by metis

lemma in_signed_mono: "in_signed w v \<Longrightarrow> w \<le> u \<Longrightarrow> in_signed u v"
  using pow_le [OF diff_le_mono [of w u 1]] unfolding in_signed_def by linarith

text \<open>The check refuses exactly the values outside the target.\<close>

lemma verify_signed:
  assumes "0 < w" "w \<le> 64" "0 < fbits" "in_signed fbits v"
  shows "verify_return_int w target fbits (signed_take_bit (fbits - 1)) v =
    (if in_signed w v then Ret v else Throw (OverflowError (''value too large to convert to '' @ target)))"
proof -
  have "w < fbits \<Longrightarrow> signed_take_bit (fbits - 1) (signed_take_bit (w - 1) v) = signed_take_bit (w - 1) v"
    using signed_cast_range [OF assms(1), of v] in_signed_mono by (intro signed_cast_id) auto
  moreover have "\<not> w < fbits \<Longrightarrow> in_signed w v" using in_signed_mono [OF assms(4)] by simp
  ultimately show ?thesis
    using signed_cast_iff [OF assms(1), of v] by (auto simp: verify_return_int_def Let_def)
qed

lemma verify_unsigned:
  assumes "0 < w" "0 \<le> v" "v < 2 ^ (fbits - 1)" "w < fbits \<or> in_signed w v"
  shows "verify_return_int w target fbits (take_bit fbits) v =
    (if in_signed w v then Ret v else Throw (OverflowError (''value too large to convert to '' @ target)))"
proof (cases "in_signed w v")
  case True
  have "v < 2 ^ fbits" using assms(3) pow_le [of "fbits - 1" fbits] by (simp del: power_increasing_iff)
  then show ?thesis
    using True assms(2) signed_cast_id [OF True]
    by (simp add: verify_return_int_def Let_def take_bit_int_eq_self)
next
  case False
  then have w: "w < fbits" "w - 1 < fbits" using assms(4) by auto
  define t where "t = signed_take_bit (w - 1) v"
  have t: "t \<noteq> v" "in_signed w t"
    using False signed_cast_iff [OF assms(1)] signed_cast_range [OF assms(1)] by (auto simp: t_def)
  have "v \<noteq> take_bit fbits t"
  proof (cases "0 \<le> t")
    case True
    have "t < 2 ^ fbits" using t(2) pow_le [of "w - 1" fbits] w by (auto simp: in_signed_def simp del: power_increasing_iff)
    with True t(1) show ?thesis by (simp add: take_bit_int_eq_self)
  next
    case neg: False
    have half: "(2 :: int) ^ fbits = 2 ^ (fbits - 1) + 2 ^ (fbits - 1)" using w by (cases fbits) simp_all
    have "- (2 ^ (fbits - 1)) \<le> t" using in_signed_mono [OF t(2), of fbits] w(1) by (simp add: in_signed_def)
    moreover have "take_bit fbits t = take_bit fbits (t + 2 ^ fbits)" by (simp add: take_bit_eq_mod)
    ultimately have "take_bit fbits t = t + 2 ^ fbits" using neg half by (simp add: take_bit_int_eq_self)
    with \<open>- (2 ^ (fbits - 1)) \<le> t\<close> half assms(3) show ?thesis by simp
  qed
  then show ?thesis using False w by (simp add: verify_return_int_def Let_def t_def)
qed

section \<open>The conversions are exact\<close>

text \<open>What the documentation of \<open>PyLong_AsLong\<close> and \<open>PyLong_AsSsize_t\<close> says.\<close>

definition converts_exactly :: "nat \<Rightarrow> (pylong \<Rightarrow> (py_error, int) outcome) \<Rightarrow> bool" where
  "converts_exactly S f \<longleftrightarrow> (\<forall>x. pylong_ok S x \<longrightarrow>
     (if in_signed 64 (pylong_value S x) then f x = Ret (pylong_value S x)
      else \<exists>m. f x = Throw (OverflowError m)))"

lemma pylong_value_cases:
  assumes "pylong_ok S x" "k = nat \<bar>ob_size x\<bar>"
  shows "length (pylong_digits x) = k" "take k (ob_digit x) = pylong_digits x"
    and "0 \<le> digits_value S (pylong_digits x)" "digits_value S (pylong_digits x) < 2 ^ (k * S)"
proof -
  have "k \<le> length (ob_digit x)" using assms unfolding pylong_ok_def by blast
  then show l: "length (pylong_digits x) = k" by (simp add: pylong_digits_def flip: assms(2))
  show "take k (ob_digit x) = pylong_digits x" by (simp add: pylong_digits_def assms(2))
  have "\<forall>d \<in> set (pylong_digits x). 0 \<le> d \<and> d < 2 ^ S" using assms(1) by (simp add: pylong_ok_def)
  from digits_value_bounds [OF this] l
  show "0 \<le> digits_value S (pylong_digits x)" "digits_value S (pylong_digits x) < 2 ^ (k * S)" by simp_all
qed

lemma ulong_exact:
  assumes "pylong_ok S x" "k = nat \<bar>ob_size x\<bar>" "0 < k" "k * S < 64"
  shows "ulong_digits S (take k (ob_digit x)) = digits_value S (pylong_digits x)"
proof -
  note p = pylong_value_cases [OF assms(1,2)]
  have "pylong_digits x \<noteq> []" using p(1) assms(3) by auto
  moreover have "\<forall>d \<in> set (pylong_digits x). 0 \<le> d \<and> d < 2 ^ S" using assms(1) by (simp add: pylong_ok_def)
  ultimately show ?thesis using ulong_digits_value p(1,2) assms(4) by metis
qed

lemma first_digit:
  assumes "pylong_ok S x" "\<bar>ob_size x\<bar> = 1"
  shows "digits_value S (pylong_digits x) = ob_digit x ! 0" "0 \<le> ob_digit x ! 0" "ob_digit x ! 0 < 2 ^ S"
proof -
  obtain d ds where d: "ob_digit x = d # ds" using assms by (cases "ob_digit x") (auto simp: pylong_ok_def)
  then have "pylong_digits x = [d]" using assms(2) by (simp add: pylong_digits_def)
  with d assms(1) show "digits_value S (pylong_digits x) = ob_digit x ! 0" "0 \<le> ob_digit x ! 0" "ob_digit x ! 0 < 2 ^ S"
    by (auto simp: pylong_ok_def)
qed

lemma nonneg_in_signed: "0 \<le> v \<Longrightarrow> v < 2 ^ n \<Longrightarrow> n < w \<Longrightarrow> in_signed w v \<and> in_signed w (- v)"
  using pow_le [of n "w - 1"] unfolding in_signed_def by (intro conjI) linarith+

lemma digit_fits:
  "S \<in> {15, 30} \<Longrightarrow> S < digit_bits S" "S \<in> {15, 30} \<Longrightarrow> digit_bits S \<le> 32" "0 < digit_bits S"
  by (auto simp: digit_bits_def)

abbreviation exactly_as :: "nat \<Rightarrow> int \<Rightarrow> (py_error, int) outcome \<Rightarrow> bool" where
  "exactly_as w v r \<equiv> (if in_signed w v then r = Ret v else \<exists>m. r = Throw (OverflowError m))"

lemma pyint_as_one_digit:
  assumes "w \<in> {32, 64}" "S \<in> {15, 30}" "pylong_ok S x" "\<bar>ob_size x\<bar> = 1"
  shows "pyint_as w target S f x = Ret (pylong_value S x) \<and> in_signed w (pylong_value S x)"
proof -
  note d = first_digit [OF assms(3,4)]
  note b = digit_fits [of S]
  have fits: "in_signed (digit_bits S) (ob_digit x ! 0)" "in_signed (digit_bits S) (- ob_digit x ! 0)"
    using nonneg_in_signed [OF d(2,3) b(1) [OF assms(2)]] by auto
  have w: "0 < w" "w \<le> 64" "digit_bits S \<le> w" using assms(1) b(2) [OF assms(2)] by auto
  note fits' = in_signed_mono [OF fits(1) w(3)] in_signed_mono [OF fits(2) w(3)]
  show ?thesis
  proof (cases "ob_size x = 1")
    case True
    have "verify_return_int w target (digit_bits S) (take_bit (digit_bits S)) (ob_digit x ! 0) = Ret (ob_digit x ! 0)"
      using verify_unsigned [of w "ob_digit x ! 0" "digit_bits S" target] w d fits fits' by (simp add: in_signed_def)
    with True d(1) fits'(1) show ?thesis by (simp add: pyint_as_def Let_def pylong_value_def)
  next
    case False
    then have neg: "ob_size x = -1" using assms(4) by simp
    have "verify_return_int w target (digit_bits S) (signed_take_bit (digit_bits S - 1)) (- ob_digit x ! 0) = Ret (- ob_digit x ! 0)"
      using verify_signed [OF w(1,2) b(3) fits(2)] fits'(2) by simp
    then show ?thesis
      using neg d(1) fits'(2) signed_cast_id [OF fits(1)] signed_cast_id [OF fits(2)]
      by (simp add: pyint_as_def Let_def pylong_value_def)
  qed
qed

lemma pyint_as_fast:
  assumes "w \<in> {32, 64}" "pylong_ok S x" "k = nat \<bar>ob_size x\<bar>" "0 < k" "k * S < 64"
  shows "exactly_as w (- digits_value S (pylong_digits x)) (verify_return_int w target 64 (signed_take_bit 63)
      (signed_take_bit 63 (- signed_take_bit 63 (ulong_digits S (take k (ob_digit x))))))"
    and "exactly_as w (digits_value S (pylong_digits x))
      (verify_return_int w target 64 (take_bit 64) (ulong_digits S (take k (ob_digit x))))"
proof -
  define u where "u = digits_value S (pylong_digits x)"
  have u: "0 \<le> u" "u < 2 ^ 63" "in_signed 64 u" "in_signed 64 (- u)"
    using pylong_value_cases(3,4) [OF assms(2,3)] pow_le [of "k * S" 63] assms(5)
      nonneg_in_signed [of u "k * S" 64] by (auto simp: u_def)
  note e = ulong_exact [OF assms(2-5), folded u_def]
  have w: "0 < w" "w \<le> 64" using assms(1) by auto
  have c: "signed_take_bit 63 u = u" "signed_take_bit 63 (- u) = - u"
    using signed_cast_id [OF u(3)] signed_cast_id [OF u(4)] by simp_all
  show "exactly_as w (- digits_value S (pylong_digits x)) (verify_return_int w target 64 (signed_take_bit 63)
      (signed_take_bit 63 (- signed_take_bit 63 (ulong_digits S (take k (ob_digit x))))))"
    using verify_signed [OF w _ u(4), of target] by (simp add: e c flip: u_def)
  show "exactly_as w (digits_value S (pylong_digits x))
      (verify_return_int w target 64 (take_bit 64) (ulong_digits S (take k (ob_digit x))))"
    using verify_unsigned [OF w(1) u(1), of 64 target] u w assms(1) by (auto simp: e simp flip: u_def)
qed

lemma pyint_as_slow:
  assumes "w \<in> {32, 64}" "pylong_ok S x" "converts_exactly S f"
  shows "exactly_as w (pylong_value S x) (obind (f x) (verify_return_int w target 64 (signed_take_bit 63)))"
proof (cases "in_signed 64 (pylong_value S x)")
  case True
  then have "f x = Ret (pylong_value S x)" using assms by (simp add: converts_exactly_def)
  then show ?thesis using verify_signed [of w 64 "pylong_value S x" target] True assms(1) by auto
next
  case False
  then obtain m where "f x = Throw (OverflowError m)"
    using assms(2,3) [unfolded converts_exactly_def] by presburger
  then show ?thesis using False in_signed_mono [of w _ 64] assms(1) by auto
qed

lemma pyint_as_exact:
  assumes "w \<in> {32, 64}" "S \<in> {15, 30}" "pylong_ok S x" "converts_exactly S f"
  shows "exactly_as w (pylong_value S x) (pyint_as w target S f x)"
proof -
  define k where "k = nat \<bar>ob_size x\<bar>"
  consider "ob_size x = 0" | "\<bar>ob_size x\<bar> = 1"
    | "ob_size x \<in> {-2, -3, -4}" "w - 1 > (k - 1) * S" "64 > k * S"
    | "ob_size x \<in> {2, 3, 4}" "w > (k - 1) * S" "64 > k * S"
    | "ob_size x \<notin> {0, 1, -1}" "\<not> (ob_size x \<in> {-2, -3, -4} \<and> w - 1 > (k - 1) * S \<and> 64 > k * S)"
      "\<not> (ob_size x \<in> {2, 3, 4} \<and> w > (k - 1) * S \<and> 64 > k * S)"
    by (cases "\<bar>ob_size x\<bar> = 1"; cases "ob_size x = 0") (blast | force)+
  then show ?thesis
  proof cases
    case 1
    then show ?thesis by (simp add: pyint_as_def pylong_value_def in_signed_def)
  next
    case 2
    then show ?thesis using pyint_as_one_digit [OF assms(1-3)] by simp
  next
    case 3
    have "pyint_as w target S f x = verify_return_int w target 64 (signed_take_bit 63)
      (signed_take_bit 63 (- signed_take_bit 63 (ulong_digits S (take k (ob_digit x)))))"
      using 3 by (auto simp: pyint_as_def Let_def k_def)
    moreover have "pylong_value S x = - digits_value S (pylong_digits x)" "0 < k" using 3 by (auto simp: pylong_value_def k_def)
    ultimately show ?thesis using pyint_as_fast(1) [OF assms(1,3) k_def _ 3(3)] by simp
  next
    case 4
    have "pyint_as w target S f x = verify_return_int w target 64 (take_bit 64) (ulong_digits S (take k (ob_digit x)))"
      using 4 by (auto simp: pyint_as_def Let_def k_def)
    moreover have "pylong_value S x = digits_value S (pylong_digits x)" "0 < k" using 4 by (auto simp: pylong_value_def k_def)
    ultimately show ?thesis using pyint_as_fast(2) [OF assms(1,3) k_def _ 4(3)] by simp
  next
    case 5
    have "pyint_as w target S f x = obind (f x) (verify_return_int w target 64 (signed_take_bit 63))"
      using 5 unfolding pyint_as_def Let_def k_def by (simp only: if_False insert_iff empty_iff simp_thms cong: if_cong) auto
    then show ?thesis using pyint_as_slow [OF assms(1,3,4), of target] by simp
  qed
qed

lemma index_exact:
  assumes "S \<in> {15, 30}" "pylong_ok S b" "converts_exactly S f"
  shows "exactly_as 64 (pylong_value S b) (PyIndex_AsSsize_t S f b)"
proof -
  define k where "k = nat \<bar>ob_size b\<bar>"
  consider "k = 0" | "k = 1" | "k \<in> {2, 3, 4}" "64 > k * S" | "\<not> k \<le> 1" "\<not> (k \<in> {2, 3, 4} \<and> 64 > k * S)"
    by fastforce
  then show ?thesis
  proof cases
    case 1
    then show ?thesis by (simp add: PyIndex_AsSsize_t_def k_def pylong_value_def in_signed_def)
  next
    case 2
    then have one: "\<bar>ob_size b\<bar> = 1" by (simp add: k_def)
    note d = first_digit [OF assms(2) one]
    have fits: "in_signed 64 (ob_digit b ! 0)" "in_signed 64 (- ob_digit b ! 0)"
      using nonneg_in_signed [OF d(2,3)] assms(1) by auto
    from one have "ob_size b = 1 \<or> ob_size b = -1" by linarith
    then show ?thesis
    proof
      assume "ob_size b = 1"
      then show ?thesis using d(1) fits by (simp add: PyIndex_AsSsize_t_def pylong_value_def)
    next
      assume "ob_size b = -1"
      then show ?thesis using d(1) fits by (simp add: PyIndex_AsSsize_t_def pylong_value_def)
    qed
  next
    case 3
    define u where "u = digits_value S (pylong_digits b)"
    have u: "in_signed 64 u" "in_signed 64 (- u)"
      using pylong_value_cases(3,4) [OF assms(2) k_def] 3(2) nonneg_in_signed [of u "k * S" 64] by (auto simp: u_def)
    have e: "ulong_digits S (take k (ob_digit b)) = u"
      using ulong_exact [OF assms(2) k_def _ 3(2)] 3(1) by (auto simp: u_def)
    have c: "signed_take_bit 63 u = u" "signed_take_bit 63 (- u) = - u"
      using signed_cast_id [OF u(1)] signed_cast_id [OF u(2)] by simp_all
    have "PyIndex_AsSsize_t S f b = Ret (if ob_size b < 0 then - u else u)"
      using 3 e c by (auto simp: PyIndex_AsSsize_t_def Let_def simp flip: k_def)
    moreover have "pylong_value S b = (if ob_size b < 0 then - u else u)"
      using 3(1) by (auto simp: pylong_value_def u_def sgn_if k_def)
    ultimately show ?thesis using u by simp
  next
    case 4
    then have "PyIndex_AsSsize_t S f b = f b" by (auto simp: PyIndex_AsSsize_t_def Let_def simp flip: k_def)
    then show ?thesis using assms(2,3) [unfolded converts_exactly_def] by presburger
  qed
qed

section \<open>Element access agrees with Python\<close>

text \<open>What the language defines for indexing a list or a tuple.\<close>

definition python_index :: "'a list \<Rightarrow> int \<Rightarrow> 'a option" where
  "python_index xs i =
     (let j = (if i < 0 then i + int (length xs) else i)
      in if 0 \<le> j \<and> j < int (length xs) then Some (xs ! nat j) else None)"

definition indexes_like_python :: "('a list \<Rightarrow> int \<Rightarrow> (py_error, 'a) outcome) \<Rightarrow> bool" where
  "indexes_like_python f \<longleftrightarrow> (\<forall>xs i. f xs i = (case python_index xs i of
     Some x \<Rightarrow> Ret x | None \<Rightarrow> Throw (IndexError ''index out of range'')))"

lemma is_valid_index_iff:
  assumes "in_signed 64 i" "0 \<le> limit" "limit < 2 ^ 63"
  shows "is_valid_index i limit \<longleftrightarrow> 0 \<le> i \<and> i < limit"
proof (cases "0 \<le> i")
  case True
  then show ?thesis using assms by (simp add: is_valid_index_def in_signed_def take_bit_int_eq_self)
next
  case False
  have "take_bit 64 i = take_bit 64 (i + 2 ^ 64)" by (simp add: take_bit_eq_mod)
  also have "\<dots> = i + 2 ^ 64" using False assms(1) by (intro take_bit_int_eq_self) (auto simp: in_signed_def)
  finally show ?thesis using False assms by (simp add: is_valid_index_def in_signed_def take_bit_int_eq_self)
qed

lemma list_fast_python:
  assumes "in_signed 64 i" "length xs < 2 ^ 63" "indexes_like_python generic"
  shows "GetItemInt_List_Fast generic xs i wraparound True = generic xs i"
proof -
  define j where "j = (if wraparound \<and> i < 0 then i + int (length xs) else i)"
  have "int (length xs) < 2 ^ 63" using assms(2) by (metis of_nat_less_iff of_nat_numeral of_nat_power)
  moreover from this have "in_signed 64 j" using assms(1) by (auto simp: j_def in_signed_def)
  ultimately have v: "is_valid_index j (int (length xs)) \<longleftrightarrow> 0 \<le> j \<and> j < int (length xs)"
    by (intro is_valid_index_iff) auto
  show ?thesis
  proof (cases "is_valid_index j (int (length xs))")
    case True
    then have "generic xs i = Ret (xs ! nat j)"
      using v assms(3) by (auto simp: indexes_like_python_def python_index_def j_def Let_def split: if_splits)
    with True v show ?thesis
      by (simp add: GetItemInt_List_Fast_def Let_def get_item_unchecked_def nat_less_iff flip: j_def)
  qed (simp add: GetItemInt_List_Fast_def Let_def flip: j_def)
qed

text \<open>
  C13: converting a Python integer to \<open>long\<close> or to \<open>int\<close> is exact.  Whatever the number of digits,
  a value that the C type can hold is returned unchanged and every other value raises
  \<open>OverflowError\<close>, given that \<open>PyLong_AsLong\<close> does what its documentation says.
\<close>

theorem pyint_conversion_exact:
  assumes "S \<in> {15, 30}" "pylong_ok S x" "converts_exactly S PyLong_AsLong"
  shows "(if in_signed 64 (pylong_value S x) then PyInt_As_long S PyLong_AsLong x = Ret (pylong_value S x)
      else \<exists>m. PyInt_As_long S PyLong_AsLong x = Throw (OverflowError m))
    \<and> (if in_signed 32 (pylong_value S x) then PyInt_As_int S PyLong_AsLong x = Ret (pylong_value S x)
      else \<exists>m. PyInt_As_int S PyLong_AsLong x = Throw (OverflowError m))"
  using pyint_as_exact [OF _ assms, of 64 "''long''"] pyint_as_exact [OF _ assms, of 32 "''int''"]
  by (simp add: PyInt_As_long_def PyInt_As_int_def)

text \<open>An instance of the documented behaviour, for the witnesses.\<close>

definition reference_as_long :: "nat \<Rightarrow> pylong \<Rightarrow> (py_error, int) outcome" where
  "reference_as_long S x = (if in_signed 64 (pylong_value S x) then Ret (pylong_value S x)
     else Throw (OverflowError ''Python int too large to convert to C long''))"

lemma reference_converts: "converts_exactly S (reference_as_long S)"
  by (simp add: converts_exactly_def reference_as_long_def)

theorem pyint_conversion_exact_witness:
  "\<exists>m. PyInt_As_int 30 (reference_as_long 30) \<lparr>ob_size = 2, ob_digit = [0, 2]\<rparr> = Throw (OverflowError m)"
proof -
  define x where "x = \<lparr>ob_size = 2, ob_digit = [0, 2]\<rparr>"
  have ok: "pylong_ok 30 x" "pylong_value 30 x = 2147483648"
    by (simp_all add: x_def pylong_ok_def pylong_digits_def pylong_value_def numeral_2_eq_2)
  have "\<not> in_signed 32 (pylong_value 30 x)" by (simp add: ok(2) in_signed_def)
  with pyint_conversion_exact [OF _ ok(1) reference_converts] show ?thesis by (simp flip: x_def)
qed

text \<open>
  an integer used as an index converts to \<open>Py_ssize_t\<close> exactly, and a list or tuple is then
  indexed as in Python, negative positions and the \<open>IndexError\<close> included, whether or not
  \<open>wraparound\<close> is requested, as long as the bounds are checked.
\<close>

theorem checked_indexing_is_python:
  assumes "S \<in> {15, 30}" "pylong_ok S b" "converts_exactly S PyLong_AsSsize_t"
    and "in_signed 64 (pylong_value S b)" "length xs < 2 ^ 63" "indexes_like_python generic"
  shows "obind (PyIndex_AsSsize_t S PyLong_AsSsize_t b) (\<lambda>i. GetItemInt_List_Fast generic xs i wraparound True)
      = (case python_index xs (pylong_value S b) of Some x \<Rightarrow> Ret x | None \<Rightarrow> Throw (IndexError ''index out of range''))"
proof -
  have "PyIndex_AsSsize_t S PyLong_AsSsize_t b = Ret (pylong_value S b)"
    using index_exact [OF assms(1-3)] assms(4) by simp
  then show ?thesis
    using list_fast_python [OF assms(4-6)] assms(6) by (simp add: indexes_like_python_def)
qed

text \<open>Every \<open>long\<close> survives the way to Python and back.\<close>

lemma long_roundtrip:
  assumes "S \<in> {15, 30}" "converts_exactly S PyLong_AsLong" "in_signed 64 v"
    and "pylong_ok S (from_long v)" "pylong_value S (from_long v) = v"
  shows "PyInt_As_long S PyLong_AsLong (PyInt_From_long from_ulong from_long v) = Ret v"
  using pyint_as_exact [OF _ assms(1,4,2), of 64 "''long''"] assms(3,5)
  by (simp add: PyInt_As_long_def PyInt_From_long_def)

end
