(* ===== verification/Cython_Raise.thy ===== *)
theory Cython_Raise
  imports Cython_Ints
begin

text \<open>
  Raising exceptions in the checked-in extension module \<open>cjunk/cython/simple.cpp\<close>:
  \<open>__Pyx_Raise\<close>, the saving and restoring of the pending exception, and the attribute look-ups that
  turn an \<open>AttributeError\<close> into a default (\<open>__Pyx_GetAttr3\<close>, \<open>__Pyx_HasAttr\<close>).  Python objects are
  the type \<open>'o\<close>; what Python knows about them is the record \<open>raise_api\<close>.
\<close>

section \<open>__Pyx_Raise\<close>

record 'o raise_api =
  exc_instance :: "'o \<Rightarrow> bool"
  exc_class :: "'o \<Rightarrow> bool"
  type_of :: "'o \<Rightarrow> 'o"
  is_subclass :: "'o \<Rightarrow> 'o \<Rightarrow> (py_error, bool) outcome"
  call_class :: "'o \<Rightarrow> 'o list \<Rightarrow> (py_error, 'o) outcome"
  tuple_items :: "'o \<Rightarrow> 'o list option"
  traceback_check :: "'o \<Rightarrow> bool"
  py_None :: 'o
  pack_ok :: bool

text \<open>The exception that becomes pending: its type, its value, its cause and its traceback.\<close>

record 'o raised_exc =
  exc_type :: 'o
  exc_value :: 'o
  exc_cause :: "'o option option"
  exc_tb :: "'o option"

definition none_to_null :: "'o raise_api \<Rightarrow> 'o option \<Rightarrow> 'o option" where
  "none_to_null api x = (if x = Some (py_None api) then None else x)"

definition raise_traceback :: "'o raise_api \<Rightarrow> 'o option \<Rightarrow> (py_error, 'o option) outcome" where
  "raise_traceback api tb =
     (case none_to_null api tb of
        None \<Rightarrow> Ret None
      | Some t \<Rightarrow> if traceback_check api t then Ret (Some t)
                  else Throw (TypeError ''raise: arg 3 must be a traceback or None''))"

text \<open>A value that is already an instance of the class, or of a subclass, is raised as it is.\<close>

definition instance_class :: "'o raise_api \<Rightarrow> 'o \<Rightarrow> 'o option \<Rightarrow> (py_error, 'o option) outcome" where
  "instance_class api ty val =
     (case val of
        None \<Rightarrow> Ret None
      | Some v \<Rightarrow>
          if \<not> exc_instance api v then Ret None
          else if type_of api v = ty then Ret (Some ty)
          else omap (\<lambda>sub. if sub then Some (type_of api v) else None) (is_subclass api (type_of api v) ty))"

definition call_args :: "'o raise_api \<Rightarrow> 'o option \<Rightarrow> (py_error, 'o list) outcome" where
  "call_args api val =
     (case val of
        None \<Rightarrow> if pack_ok api then Ret [] else Throw (Py_Raised ''MemoryError'')
      | Some v \<Rightarrow>
          (case tuple_items api v of
             Some xs \<Rightarrow> Ret xs
           | None \<Rightarrow> if pack_ok api then Ret [v] else Throw (Py_Raised ''MemoryError'')))"

definition raise_value :: "'o raise_api \<Rightarrow> 'o \<Rightarrow> 'o option \<Rightarrow> (py_error, 'o \<times> 'o) outcome" where
  "raise_value api ty val =
     (if exc_instance api ty
      then if val \<noteq> None then Throw (TypeError ''instance exception may not have a separate value'')
           else Ret (type_of api ty, ty)
      else if exc_class api ty
      then obind (instance_class api ty val) (\<lambda>cls.
             case cls of
               Some t \<Rightarrow> Ret (t, the val)
             | None \<Rightarrow>
                 obind (call_args api val) (\<lambda>args.
                 obind (call_class api ty args) (\<lambda>v.
                   if exc_instance api v then Ret (ty, v)
                   else Throw (TypeError ''calling class should have returned an instance of BaseException''))))
      else Throw (TypeError ''raise: exception class must be a subclass of BaseException''))"

text \<open>\<open>Some None\<close> is an explicit \<open>from None\<close>, \<open>None\<close> that no cause was given.\<close>

definition raise_cause :: "'o raise_api \<Rightarrow> 'o option \<Rightarrow> (py_error, 'o option option) outcome" where
  "raise_cause api cause =
     (case cause of
        None \<Rightarrow> Ret None
      | Some c \<Rightarrow>
          if c = py_None api then Ret (Some None)
          else if exc_class api c then omap (\<lambda>x. Some (Some x)) (call_class api c [])
          else if exc_instance api c then Ret (Some (Some c))
          else Throw (TypeError ''exception causes must derive from BaseException''))"

definition Pyx_Raise ::
  "'o raise_api \<Rightarrow> 'o \<Rightarrow> 'o option \<Rightarrow> 'o option \<Rightarrow> 'o option \<Rightarrow> (py_error, 'o raised_exc) outcome" where
  "Pyx_Raise api ty val tb cause =
     obind (raise_traceback api tb) (\<lambda>tb'.
     obind (raise_value api ty (none_to_null api val)) (\<lambda>(ty', v).
     omap (\<lambda>c. \<lparr>exc_type = ty', exc_value = v, exc_cause = c, exc_tb = tb'\<rparr>) (raise_cause api cause)))"

section \<open>The pending exception\<close>

type_synonym 'o pending = "('o \<times> 'o \<times> 'o option) option"

definition ErrFetchInState :: "'o pending \<Rightarrow> 'o pending \<times> 'o pending" where
  "ErrFetchInState cur = (cur, None)"

definition ErrRestoreInState :: "'o pending \<Rightarrow> 'o pending \<Rightarrow> 'o pending" where
  "ErrRestoreInState saved cur = saved"

section \<open>Attributes with a default\<close>

text \<open>An attribute look-up gives the value, raises \<open>AttributeError\<close> (\<open>None\<close>) or raises something else.\<close>

type_synonym ('o, 'v) getattr = "'o \<Rightarrow> string \<Rightarrow> (py_error, 'v) outcome option"

definition GetAttr3 :: "('o, 'v) getattr \<Rightarrow> 'o \<Rightarrow> string \<Rightarrow> 'v \<Rightarrow> (py_error, 'v) outcome" where
  "GetAttr3 get ob n d = (case get ob n of Some r \<Rightarrow> r | None \<Rightarrow> Ret d)"

text \<open>\<open>__Pyx_HasAttr\<close> clears whatever error the look-up raised.\<close>

definition HasAttr :: "('o, 'v) getattr \<Rightarrow> 'o \<Rightarrow> string \<Rightarrow> bool" where
  "HasAttr get ob n = (case get ob n of Some (Ret _) \<Rightarrow> True | _ \<Rightarrow> False)"

section \<open>Properties\<close>

lemma raise_value_instance:
  assumes "raise_value api ty val = Ret (ty', v)"
  shows "exc_instance api v \<and> (ty' = type_of api v \<or> ty' = ty)"
  using assms
  by (auto simp: raise_value_def instance_class_def outcome_iff split: if_splits option.splits)

text \<open>
  what \<open>__Pyx_Raise\<close> makes pending is always an exception.  The value is an instance of an
  exception class, the type is the value's type or the class given, the traceback is a traceback;
  an instance given as the type is raised itself, and a first argument that is neither an exception
  nor an exception class raises \<open>TypeError\<close>.
\<close>

theorem raise_gives_exception:
  "(\<forall>e. Pyx_Raise api ty val tb cause = Ret e \<longrightarrow>
      exc_instance api (exc_value e) \<and> (exc_type e = type_of api (exc_value e) \<or> exc_type e = ty)
      \<and> (\<forall>t. exc_tb e = Some t \<longrightarrow> traceback_check api t) \<and> (exc_instance api ty \<longrightarrow> exc_value e = ty))
   \<and> (\<not> exc_instance api ty \<longrightarrow> \<not> exc_class api ty \<longrightarrow> (\<exists>m. Pyx_Raise api ty val tb cause = Throw (TypeError m)))"
proof (intro conjI allI impI)
  fix e assume run: "Pyx_Raise api ty val tb cause = Ret e"
  then obtain ty' v tb' c where parts: "raise_traceback api tb = Ret tb'"
    "raise_value api ty (none_to_null api val) = Ret (ty', v)"
    "e = \<lparr>exc_type = ty', exc_value = v, exc_cause = c, exc_tb = tb'\<rparr>"
    by (auto simp: Pyx_Raise_def outcome_iff)
  show "exc_instance api (exc_value e)" "exc_type e = type_of api (exc_value e) \<or> exc_type e = ty"
    using raise_value_instance [OF parts(2)] parts(3) by auto
  show "traceback_check api t" if "exc_tb e = Some t" for t
    using parts(1,3) that by (auto simp: raise_traceback_def split: option.splits if_splits)
  show "exc_value e = ty" if "exc_instance api ty"
    using parts(2,3) that by (auto simp: raise_value_def split: if_splits)
next
  assume "\<not> exc_instance api ty" "\<not> exc_class api ty"
  then show "\<exists>m. Pyx_Raise api ty val tb cause = Throw (TypeError m)"
    by (auto simp: Pyx_Raise_def raise_value_def raise_traceback_def split: option.splits)
qed

text \<open>saving the pending exception and restoring it later gives it back, whatever was raised in between.\<close>

lemma fetch_restore:
  "ErrRestoreInState (fst (ErrFetchInState cur)) other = cur \<and> snd (ErrFetchInState cur) = None"
  by (simp add: ErrRestoreInState_def ErrFetchInState_def)

end
