(* ===== verification/Cython_Names.thy ===== *)
theory Cython_Names
  imports Cython_Ints Step_System
begin

text \<open>
  Names in the extension module \<open>cjunk/cython/simple.cpp\<close>: the look-up of a global name, whose result
  every place of use keeps together with the version tag of the module's dictionary
  (\<open>__Pyx_GetModuleGlobalName\<close>), the built-in names (\<open>__Pyx_GetBuiltinName\<close>), imports, the installation
  of the pickling methods in a class (\<open>__Pyx_setup_reduce\<close>), the table of strings
  (\<open>__Pyx_InitStrings\<close>) and the version check.  The configuration is that of CPython 3 with version tags
  of dictionaries; what the interpreter itself does is an argument.
\<close>

section \<open>Built-in and global names\<close>

text \<open>Whatever the look-up in the built-in module raised is replaced by a \<open>NameError\<close>.\<close>

definition GetBuiltinName :: "(string \<Rightarrow> (py_error, 'v) outcome) \<Rightarrow> string \<Rightarrow> (py_error, 'v) outcome" where
  "GetBuiltinName builtin name =
     (case builtin name of
        Throw _ \<Rightarrow> Throw (NameError (''name '' @ [CHR 0x27] @ name @ [CHR 0x27] @ '' is not defined''))
      | r \<Rightarrow> r)"

record 'v module_dict =
  dict_items :: "string \<rightharpoonup> 'v"
  ma_version_tag :: "64 word"

text \<open>The two static variables of one place of use, with the name used there.\<close>

record 'v name_site =
  site_name :: string
  dict_version :: "64 word"
  dict_cached_value :: "'v option"

text \<open>
  \<open>known_hash\<close> is the dictionary look-up of the interpreter, which gives a value, no value, or an error.
  The static variables are written before its result is looked at.
\<close>

definition lookup_global ::
  "((string \<rightharpoonup> 'v) \<Rightarrow> string \<Rightarrow> (py_error, 'v option) outcome) \<Rightarrow> (string \<Rightarrow> (py_error, 'v) outcome)
    \<Rightarrow> 'v module_dict \<Rightarrow> 'v name_site \<Rightarrow> (py_error, 'v) outcome \<times> 'v name_site" where
  "lookup_global known_hash builtin d s =
     (let r = known_hash (dict_items d) (site_name s);
          s' = s\<lparr>dict_version := ma_version_tag d,
                 dict_cached_value := (case r of Ret v \<Rightarrow> v | _ \<Rightarrow> None)\<rparr>
      in case r of
           Ret (Some v) \<Rightarrow> (Ret v, s')
         | Ret None \<Rightarrow> (GetBuiltinName builtin (site_name s), s')
         | Throw e \<Rightarrow> (Throw e, s')
         | Diverge \<Rightarrow> (Diverge, s))"

definition GetModuleGlobalName ::
  "((string \<rightharpoonup> 'v) \<Rightarrow> string \<Rightarrow> (py_error, 'v option) outcome) \<Rightarrow> (string \<Rightarrow> (py_error, 'v) outcome)
    \<Rightarrow> 'v module_dict \<Rightarrow> 'v name_site \<Rightarrow> (py_error, 'v) outcome \<times> 'v name_site" where
  "GetModuleGlobalName known_hash builtin d s =
     (if dict_version s = ma_version_tag d
      then (case dict_cached_value s of
              Some v \<Rightarrow> (Ret v, s)
            | None \<Rightarrow> (GetBuiltinName builtin (site_name s), s))
      else lookup_global known_hash builtin d s)"

text \<open>The variables of the uncached variant are local and not initialised: any values do.\<close>

definition GetModuleGlobalNameUncached ::
  "((string \<rightharpoonup> 'v) \<Rightarrow> string \<Rightarrow> (py_error, 'v option) outcome) \<Rightarrow> (string \<Rightarrow> (py_error, 'v) outcome)
    \<Rightarrow> 'v module_dict \<Rightarrow> 'v name_site \<Rightarrow> (py_error, 'v) outcome" where
  "GetModuleGlobalNameUncached known_hash builtin d s = fst (lookup_global known_hash builtin d s)"

text \<open>
  The interpreter keeps one counter for the tags of all dictionaries.  A modification increments it and
  gives the dictionary the new count; the tags that the module's places of use have seen are only those of
  its own dictionary.  The counter has 64 bits and is not taken to wrap around.
\<close>

record 'v name_state =
  tag_count :: nat
  globals :: "'v module_dict"
  sites :: "'v name_site list"

inductive name_step ::
  "((string \<rightharpoonup> 'v) \<Rightarrow> string \<Rightarrow> (py_error, 'v option) outcome) \<Rightarrow> (string \<Rightarrow> (py_error, 'v) outcome)
    \<Rightarrow> 'v name_state \<Rightarrow> 'v name_state \<Rightarrow> bool" for known_hash builtin where
  modify_globals:
    "Suc (tag_count st) < 2 ^ 64 \<Longrightarrow>
     name_step known_hash builtin st
       (st\<lparr>tag_count := Suc (tag_count st),
           globals := \<lparr>dict_items = m, ma_version_tag = word_of_nat (Suc (tag_count st))\<rparr>\<rparr>)"
| modify_other:
    "Suc (tag_count st) < 2 ^ 64 \<Longrightarrow> name_step known_hash builtin st (st\<lparr>tag_count := Suc (tag_count st)\<rparr>)"
| use_name:
    "i < length (sites st) \<Longrightarrow>
     name_step known_hash builtin st
       (st\<lparr>sites := (sites st)[i := snd (GetModuleGlobalName known_hash builtin (globals st) (sites st ! i))]\<rparr>)"

inductive_cases name_stepE: "name_step known_hash builtin st st'"

text \<open>The dictionary of the module exists, so that its tag is at least one; no place of use has looked anything up.\<close>

definition names_start :: "'v name_state \<Rightarrow> bool" where
  "names_start st \<longleftrightarrow> tag_count st < 2 ^ 64 \<and> ma_version_tag (globals st) \<noteq> 0
     \<and> unat (ma_version_tag (globals st)) \<le> tag_count st
     \<and> (\<forall>s \<in> set (sites st). dict_version s = 0 \<and> dict_cached_value s = None)"

text \<open>The look-up of a string in a dictionary with string keys runs no code of the user and does not fail.\<close>

definition string_lookup :: "((string \<rightharpoonup> 'v) \<Rightarrow> string \<Rightarrow> (py_error, 'v option) outcome) \<Rightarrow> bool" where
  "string_lookup known_hash \<longleftrightarrow> (\<forall>d n. known_hash d n = Ret (d n))"

definition site_ok :: "nat \<Rightarrow> 'v module_dict \<Rightarrow> 'v name_site \<Rightarrow> bool" where
  "site_ok k d s \<longleftrightarrow> unat (dict_version s) \<le> k
     \<and> (dict_version s = ma_version_tag d \<longrightarrow> dict_cached_value s = dict_items d (site_name s))"

definition names_ok :: "'v name_state \<Rightarrow> bool" where
  "names_ok st \<longleftrightarrow> tag_count st < 2 ^ 64 \<and> unat (ma_version_tag (globals st)) \<le> tag_count st
     \<and> (\<forall>s \<in> set (sites st). site_ok (tag_count st) (globals st) s)"

lemma lookup_global_string:
  assumes "string_lookup known_hash"
  shows "lookup_global known_hash builtin d s =
    ((case dict_items d (site_name s) of Some v \<Rightarrow> Ret v | None \<Rightarrow> GetBuiltinName builtin (site_name s)),
     s\<lparr>dict_version := ma_version_tag d, dict_cached_value := dict_items d (site_name s)\<rparr>)"
  using assms by (simp add: lookup_global_def string_lookup_def split: option.split)

lemma site_ok_use:
  assumes "string_lookup known_hash" "site_ok k d s" "unat (ma_version_tag d) \<le> k"
  shows "site_ok k d (snd (GetModuleGlobalName known_hash builtin d s))"
  using assms by (auto simp: GetModuleGlobalName_def lookup_global_string site_ok_def split: option.split)

lemma unat_new_tag:
  assumes "Suc k < 2 ^ 64"
  shows "unat (word_of_nat (Suc k) :: 64 word) = Suc k"
  using assms by (simp add: unat_of_nat del: of_nat_Suc)

lemma site_ok_modified:
  assumes "site_ok k d s" "Suc k < 2 ^ 64"
  shows "site_ok (Suc k) \<lparr>dict_items = m, ma_version_tag = word_of_nat (Suc k)\<rparr> s"
proof -
  have "dict_version s \<noteq> word_of_nat (Suc k)"
    using assms unat_new_tag [of k] by (auto simp: site_ok_def simp del: of_nat_Suc)
  then show ?thesis using assms by (simp add: site_ok_def del: of_nat_Suc)
qed

lemma names_ok_step:
  assumes "string_lookup known_hash" "names_ok st" "name_step known_hash builtin st st'"
  shows "names_ok st'"
  using assms(3)
proof (cases rule: name_step.cases)
  case (modify_globals m)
  then show ?thesis
    using assms(2) unat_new_tag [of "tag_count st"] site_ok_modified [of "tag_count st" "globals st" _ m]
    by (auto simp: names_ok_def simp del: of_nat_Suc)
next
  case modify_other
  then show ?thesis using assms(2) by (auto simp: names_ok_def site_ok_def)
next
  case (use_name i)
  then show ?thesis
    using assms(1,2) site_ok_use [OF assms(1), of "tag_count st" "globals st" "sites st ! i"]
      set_update_subset_insert [of "sites st" i]
    by (auto simp: names_ok_def)
qed

lemma names_ok_start: "names_start st \<Longrightarrow> names_ok st"
  by (auto simp: names_start_def names_ok_def site_ok_def)

interpretation global_names: step_invariant names_start "name_step known_hash builtin"
  "\<lambda>st. string_lookup known_hash \<longrightarrow> names_ok st" for known_hash builtin
  by unfold_locales (auto intro: names_ok_start names_ok_step)

text \<open>
  C15: the values kept at the places of use are never stale.  However uses of global names, changes
  of the module's dictionary and changes of other dictionaries follow each other, a use gives what a look-up
  without the kept value gives: the current global of that name, or else the built-in one.
\<close>

theorem global_names_current:
  assumes "string_lookup known_hash" "reachable names_start (name_step known_hash builtin) st"
    and "s \<in> set (sites st)"
  shows "fst (GetModuleGlobalName known_hash builtin (globals st) s)
      = GetModuleGlobalNameUncached known_hash builtin (globals st) s
    \<and> fst (GetModuleGlobalName known_hash builtin (globals st) s)
      = (case dict_items (globals st) (site_name s) of
           Some v \<Rightarrow> Ret v | None \<Rightarrow> GetBuiltinName builtin (site_name s))"
proof -
  have "names_ok st" using global_names.reachable_inv [OF assms(2)] assms(1) by simp
  then have "site_ok (tag_count st) (globals st) s" using assms(3) by (simp add: names_ok_def)
  then show ?thesis
    using assms(1)
    by (auto simp: site_ok_def GetModuleGlobalName_def GetModuleGlobalNameUncached_def lookup_global_string
        split: option.split)
qed

text \<open>A use of \<open>print\<close>, which the module then defines itself.\<close>

definition demo_names :: "nat name_state" where
  "demo_names = \<lparr>tag_count = 7, globals = \<lparr>dict_items = Map.empty, ma_version_tag = 5\<rparr>,
     sites = [\<lparr>site_name = ''print'', dict_version = 0, dict_cached_value = None\<rparr>]\<rparr>"

abbreviation "demo_lookup \<equiv> (\<lambda>d n. Ret (d n)) :: (string \<rightharpoonup> nat) \<Rightarrow> string \<Rightarrow> (py_error, nat option) outcome"
abbreviation "demo_builtin \<equiv> (\<lambda>n. if n = ''print'' then Ret 1 else Throw (AttributeError n)) :: string \<Rightarrow> (py_error, nat) outcome"

definition demo_names_defined :: "nat name_state" where
  "demo_names_defined = \<lparr>tag_count = 8, globals = \<lparr>dict_items = [''print'' \<mapsto> 2], ma_version_tag = 8\<rparr>,
     sites = [\<lparr>site_name = ''print'', dict_version = 5, dict_cached_value = None\<rparr>]\<rparr>"

lemma demo_names_reachable: "reachable names_start (name_step demo_lookup demo_builtin) demo_names_defined"
proof -
  have "names_start demo_names" by (simp add: names_start_def demo_names_def)
  moreover have "name_step demo_lookup demo_builtin demo_names
      (demo_names\<lparr>sites := [\<lparr>site_name = ''print'', dict_version = 5, dict_cached_value = None\<rparr>]\<rparr>)"
    using use_name [of 0 demo_names demo_lookup demo_builtin]
    by (simp add: demo_names_def GetModuleGlobalName_def lookup_global_def)
  moreover have "name_step demo_lookup demo_builtin
      (demo_names\<lparr>sites := [\<lparr>site_name = ''print'', dict_version = 5, dict_cached_value = None\<rparr>]\<rparr>) demo_names_defined"
    using modify_globals [of "demo_names\<lparr>sites := [\<lparr>site_name = ''print'', dict_version = 5, dict_cached_value = None\<rparr>]\<rparr>"
        demo_lookup demo_builtin "[''print'' \<mapsto> 2]"]
    by (simp add: demo_names_def demo_names_defined_def)
  ultimately show ?thesis by (blast intro: reachable_start reachable_step)
qed

theorem global_names_current_witness:
  "fst (GetModuleGlobalName demo_lookup demo_builtin (globals demo_names_defined)
     \<lparr>site_name = ''print'', dict_version = 5, dict_cached_value = None\<rparr>) = Ret 2"
  using global_names_current [OF _ demo_names_reachable, THEN conjunct2,
      of "\<lparr>site_name = ''print'', dict_version = 5, dict_cached_value = None\<rparr>"]
  by (simp add: string_lookup_def demo_names_defined_def)

section \<open>Versions of an object's dictionaries\<close>

text \<open>
  The tags of the dictionary of an object's type and of its own dictionary, when it has one
  (\<open>_PyObject_GetDictPtr\<close>); both tests together tell whether an attribute may have changed.
\<close>

definition get_tp_dict_version :: "'v module_dict option \<Rightarrow> 64 word" where
  "get_tp_dict_version tp_dict = (case tp_dict of Some d \<Rightarrow> ma_version_tag d | None \<Rightarrow> 0)"

definition get_object_dict_version :: "'v module_dict option \<Rightarrow> 64 word" where
  "get_object_dict_version dictptr = (case dictptr of Some d \<Rightarrow> ma_version_tag d | None \<Rightarrow> 0)"

definition object_dict_version_matches ::
  "'v module_dict option \<Rightarrow> 'v module_dict option \<Rightarrow> 64 word \<Rightarrow> 64 word \<Rightarrow> bool" where
  "object_dict_version_matches tp_dict dictptr tp_version obj_version \<longleftrightarrow>
     (case tp_dict of
        None \<Rightarrow> False
      | Some d \<Rightarrow> tp_version = ma_version_tag d \<and> obj_version = get_object_dict_version dictptr)"

text \<open>
  Where tags are unique among the dictionaries \<open>D\<close> of a process and zero is none of them, versions that still match
  mean that both dictionaries are as they were.
\<close>

lemma matching_versions_unchanged:
  assumes "inj_on ma_version_tag D" "0 \<notin> ma_version_tag ` D" "set_option tp \<union> set_option ob \<union> set_option tp' \<union> set_option ob' \<subseteq> D"
    and "object_dict_version_matches tp' ob' (get_tp_dict_version tp) (get_object_dict_version ob)"
  shows "tp' = tp \<and> ob' = ob"
proof -
  from assms(4) obtain d' where d': "tp' = Some d'" "get_tp_dict_version tp = ma_version_tag d'"
    "get_object_dict_version ob = get_object_dict_version ob'"
    by (auto simp: object_dict_version_matches_def split: option.splits)
  have nz: "d \<in> D \<Longrightarrow> ma_version_tag d \<noteq> 0" for d using assms(2) by (metis image_eqI)
  have "tp = Some d'"
    using d'(1,2) assms(1,3) nz [of d'] by (auto simp: get_tp_dict_version_def inj_on_eq_iff split: option.splits)
  moreover have "ob' = ob"
    using d'(3) assms(1,3) nz by (auto simp: get_object_dict_version_def inj_on_eq_iff split: option.splits)
  ultimately show ?thesis using d'(1) by simp
qed

section \<open>Imports\<close>

text \<open>
  \<open>import_level\<close> is the interpreter's import of the name at a level; the other members say whether the
  auxiliary objects could be made.  Level \<open>-1\<close> asks for a relative import first, which is tried only inside
  a package, and falls back to the absolute import on \<open>ImportError\<close>.
\<close>

record 'o import_api =
  list_new :: bool
  module_dict :: bool
  dict_new :: bool
  import_level :: "int \<Rightarrow> (py_error, 'o) outcome"

definition Pyx_Import :: "'o import_api \<Rightarrow> string \<Rightarrow> 'l option \<Rightarrow> int \<Rightarrow> (py_error, 'o) outcome" where
  "Pyx_Import api module_name from_list level =
     (if from_list = None \<and> \<not> list_new api then Throw (Py_Raised ''MemoryError'')
      else if \<not> module_dict api then Throw (Py_Raised ''PyModule_GetDict'')
      else if \<not> dict_new api then Throw (Py_Raised ''MemoryError'')
      else if level = -1
      then if CHR ''.'' \<in> set module_name
           then (case import_level api 1 of
                   Throw (ImportError _) \<Rightarrow> import_level api 0
                 | r \<Rightarrow> r)
           else import_level api 0
      else import_level api level)"

definition ImportFrom :: "(string \<Rightarrow> (py_error, 'o) outcome) \<Rightarrow> string \<Rightarrow> (py_error, 'o) outcome" where
  "ImportFrom get name =
     (case get name of
        Throw (AttributeError _) \<Rightarrow> Throw (ImportError (''cannot import name '' @ name))
      | r \<Rightarrow> r)"

text \<open>
  This module is not in a package, so that its imports are absolute at either level; a missing name is an
  \<open>ImportError\<close>, and every other error of the look-up is passed on.
\<close>

lemma simple_imports_absolute: "Pyx_Import api ''simple'' from_list (-1) = Pyx_Import api ''simple'' from_list 0"
  by (simp add: Pyx_Import_def)

lemma ImportFrom_errors:
  "ImportFrom get name = Throw e \<Longrightarrow>
   get name = Throw e \<or> e = ImportError (''cannot import name '' @ name) \<and> (\<exists>m. get name = Throw (AttributeError m))"
  by (auto simp: ImportFrom_def split: outcome.splits py_error.splits)

end
