(* ===== verification/Cython_Class.thy ===== *)
theory Cython_Class
  imports Cython_Names Cxx_Lib
begin

text \<open>
  The class of the extension module \<open>cjunk/cython/simple.cpp\<close> and its strings: allocation and
  deallocation of instances, the attribute look-up of instances without a dictionary, the method table
  (\<open>__Pyx_SetVtable\<close>), the installation of the pickling methods (\<open>__Pyx_setup_reduce\<close>), the table of
  strings with \<open>__Pyx_InitStrings\<close>, and the comparison of the versions of the interpreter at compile time and
  at run time (\<open>__Pyx_check_binary_version\<close>).
\<close>

section \<open>Instances\<close>

record ('o, 'v) instance_api =
  is_abstract :: bool
  tp_alloc :: "'o option"
  base_new :: "'o option"
  vtabptr :: 'v

text \<open>An instance is the memory the allocator returns with the method table in its first field.\<close>

definition tp_new :: "('o, 'v) instance_api \<Rightarrow> ('o \<times> 'v) option" where
  "tp_new api = map_option (\<lambda>p. (p, vtabptr api)) (if \<not> is_abstract api then tp_alloc api else base_new api)"

record dealloc_api =
  have_finalize :: bool
  tp_finalize :: bool
  type_is_gc :: bool
  gc_finalized :: bool
  resurrected :: bool

datatype dealloc_call = Call_finalizer | Tp_free

definition tp_dealloc :: "dealloc_api \<Rightarrow> dealloc_call list" where
  "tp_dealloc api =
     (if have_finalize api \<and> tp_finalize api \<and> (\<not> type_is_gc api \<or> \<not> gc_finalized api)
      then if resurrected api then [Call_finalizer] else [Call_finalizer, Tp_free]
      else [Tp_free])"

text \<open>
  The look-up in the classes of an instance without a dictionary: \<open>lookup\<close> searches the classes,
  \<open>descr_get\<close> is the binding function of what was found.
\<close>

definition GenericGetAttrNoDict ::
  "string \<Rightarrow> (string \<Rightarrow> 'o option) \<Rightarrow> ('o \<Rightarrow> (py_error, 'o) outcome option) \<Rightarrow> string \<Rightarrow> (py_error, 'o) outcome" where
  "GenericGetAttrNoDict cname lookup descr_get attr =
     (case lookup attr of
        None \<Rightarrow> Throw (AttributeError ([CHR 0x27] @ take 50 cname @ [CHR 0x27] @ '' object has no attribute ''
                  @ [CHR 0x27] @ attr @ [CHR 0x27]))
      | Some descr \<Rightarrow> (case descr_get descr of None \<Rightarrow> Ret descr | Some r \<Rightarrow> r))"

definition GenericGetAttr ::
  "bool \<Rightarrow> (string \<Rightarrow> (py_error, 'o) outcome) \<Rightarrow> string \<Rightarrow> (string \<Rightarrow> 'o option)
    \<Rightarrow> ('o \<Rightarrow> (py_error, 'o) outcome option) \<Rightarrow> string \<Rightarrow> (py_error, 'o) outcome" where
  "GenericGetAttr has_dict PyObject_GenericGetAttr cname lookup descr_get attr =
     (if has_dict then PyObject_GenericGetAttr attr else GenericGetAttrNoDict cname lookup descr_get attr)"

section \<open>Pickling methods\<close>

text \<open>
  What the class finds beyond its own dictionary (\<open>inherited\<close>), the attributes of \<open>object\<close>, the
  name of a method (with the error of the look-up or of the comparison) and the errors of an insertion into
  the class's dictionary.
\<close>

record 'o reduce_api =
  inherited :: "string \<rightharpoonup> 'o"
  object_attrs :: "string \<rightharpoonup> 'o"
  meth_name :: "'o \<Rightarrow> (py_error, string) outcome"
  set_error :: "string \<Rightarrow> py_error option"
  class_name :: string

type_synonym 'o class_dict = "string \<rightharpoonup> 'o"

definition type_attr :: "'o reduce_api \<Rightarrow> 'o class_dict \<Rightarrow> string \<Rightarrow> 'o option" where
  "type_attr api d n = (case d n of Some v \<Rightarrow> Some v | None \<Rightarrow> inherited api n)"

definition no_attribute :: "'o reduce_api \<Rightarrow> string \<Rightarrow> py_error" where
  "no_attribute api n = AttributeError (''type object '' @ [CHR 0x27] @ class_name api @ [CHR 0x27]
     @ '' has no attribute '' @ [CHR 0x27] @ n @ [CHR 0x27])"

definition unable :: "'o reduce_api \<Rightarrow> py_error" where
  "unable api = RuntimeError (''Unable to initialize pickling for '' @ class_name api)"

definition setup_reduce_is_named :: "'o reduce_api \<Rightarrow> 'o \<Rightarrow> string \<Rightarrow> bool" where
  "setup_reduce_is_named api meth name = (case meth_name api meth of Ret n \<Rightarrow> n = name | _ \<Rightarrow> False)"

definition replace_method ::
  "'o reduce_api \<Rightarrow> 'o class_dict \<Rightarrow> string \<Rightarrow> string \<Rightarrow> 'o \<Rightarrow> (py_error, unit) outcome \<times> 'o class_dict" where
  "replace_method api d to_name from_name v =
     (case set_error api to_name of
        Some e \<Rightarrow> (Throw e, d)
      | None \<Rightarrow>
          let d1 = d(to_name \<mapsto> v)
          in if d1 from_name = None then (Throw (Py_Raised (''KeyError: '' @ from_name)), d1)
             else (Ret (), d1(from_name := None)))"

definition setup_setstate :: "'o reduce_api \<Rightarrow> 'o class_dict \<Rightarrow> (py_error, unit) outcome \<times> 'o class_dict" where
  "setup_setstate api d =
     (if (case type_attr api d ''__setstate__'' of
            None \<Rightarrow> True | Some setstate \<Rightarrow> setup_reduce_is_named api setstate ''__setstate_cython__'')
      then (case type_attr api d ''__setstate_cython__'' of
              None \<Rightarrow> (Throw (no_attribute api ''__setstate_cython__''), d)
            | Some sc \<Rightarrow> replace_method api d ''__setstate__'' ''__setstate_cython__'' sc)
      else (Ret (), d))"

definition setup_reduce_methods :: "'o reduce_api \<Rightarrow> 'o class_dict \<Rightarrow> (py_error, unit) outcome \<times> 'o class_dict" where
  "setup_reduce_methods api d =
     (case type_attr api d ''__reduce_cython__'' of
        None \<Rightarrow> (Throw (no_attribute api ''__reduce_cython__''), d)
      | Some rc \<Rightarrow>
          (case replace_method api d ''__reduce__'' ''__reduce_cython__'' rc of
             (Ret _, d1) \<Rightarrow> setup_setstate api d1
           | r \<Rightarrow> r))"

definition setup_reduce :: "'o reduce_api \<Rightarrow> 'o class_dict \<Rightarrow> (py_error, unit) outcome \<times> 'o class_dict" where
  "setup_reduce api d =
     (if type_attr api d ''__getstate__'' \<noteq> None then (Ret (), d)
      else case object_attrs api ''__reduce_ex__'' of
        None \<Rightarrow> (Throw (unable api), d)
      | Some object_reduce_ex \<Rightarrow>
     (case type_attr api d ''__reduce_ex__'' of
        None \<Rightarrow> (Throw (no_attribute api ''__reduce_ex__''), d)
      | Some reduce_ex \<Rightarrow>
      if reduce_ex \<noteq> object_reduce_ex then (Ret (), d)
      else case object_attrs api ''__reduce__'' of
        None \<Rightarrow> (Throw (unable api), d)
      | Some object_reduce \<Rightarrow>
     (case type_attr api d ''__reduce__'' of
        None \<Rightarrow> (Throw (no_attribute api ''__reduce__''), d)
      | Some reduce \<Rightarrow>
          if reduce = object_reduce \<or> setup_reduce_is_named api reduce ''__reduce_cython__''
          then setup_reduce_methods api d
          else (Ret (), d))))"

text \<open>
  A class of this module as it leaves \<open>PyType_Ready\<close>: its own dictionary holds the two generated methods
  and none of the names of the pickling protocol, and it inherits them from \<open>object\<close>.
\<close>

definition generated_class :: "'o reduce_api \<Rightarrow> 'o class_dict \<Rightarrow> 'o \<Rightarrow> 'o \<Rightarrow> bool" where
  "generated_class api d rc sc \<longleftrightarrow>
     d ''__reduce_cython__'' = Some rc \<and> d ''__setstate_cython__'' = Some sc
     \<and> meth_name api rc = Ret ''__reduce_cython__''
     \<and> (\<forall>n \<in> {''__reduce_ex__'', ''__reduce__''}. d n = None \<and> inherited api n \<noteq> None \<and> inherited api n = object_attrs api n)
     \<and> (\<forall>n \<in> {''__setstate__'', ''__getstate__''}. d n = None \<and> inherited api n = None)
     \<and> (\<forall>n \<in> {''__reduce_cython__'', ''__setstate_cython__''}. inherited api n = None)
     \<and> (\<forall>n. set_error api n = None)"

definition pickling_installed :: "'o class_dict \<Rightarrow> 'o \<Rightarrow> 'o \<Rightarrow> 'o class_dict" where
  "pickling_installed d rc sc =
     d(''__reduce__'' \<mapsto> rc, ''__setstate__'' \<mapsto> sc, ''__reduce_cython__'' := None, ''__setstate_cython__'' := None)"

lemma setup_reduce_installs:
  assumes "generated_class api d rc sc"
  shows "setup_reduce api d = (Ret (), pickling_installed d rc sc)"
  using assms
  by (auto simp: generated_class_def setup_reduce_def setup_reduce_methods_def setup_setstate_def
      replace_method_def type_attr_def pickling_installed_def Let_def fun_upd_twist)

lemma setup_reduce_twice:
  assumes "generated_class api d rc sc"
  shows "setup_reduce api (pickling_installed d rc sc)
    = (Throw (no_attribute api ''__reduce_cython__''), pickling_installed d rc sc)"
  using assms
  by (auto simp: generated_class_def setup_reduce_def setup_reduce_methods_def setup_reduce_is_named_def
      type_attr_def pickling_installed_def)

lemma replace_method_frame: "n \<noteq> to_name \<Longrightarrow> n \<noteq> from_name \<Longrightarrow> snd (replace_method api d to_name from_name v) n = d n"
  by (simp add: replace_method_def Let_def split: option.split)

lemma setup_setstate_frame:
  "n \<notin> {''__setstate__'', ''__setstate_cython__''} \<Longrightarrow> snd (setup_setstate api d) n = d n"
  by (auto simp: setup_setstate_def replace_method_frame split: option.split)

lemma setup_reduce_methods_frame:
  assumes "n \<notin> {''__reduce__'', ''__setstate__'', ''__reduce_cython__'', ''__setstate_cython__''}"
  shows "snd (setup_reduce_methods api d) n = d n"
proof (cases "type_attr api d ''__reduce_cython__''")
  case (Some rc)
  obtain r d1 where r: "replace_method api d ''__reduce__'' ''__reduce_cython__'' rc = (r, d1)" by fastforce
  moreover have "d1 n = d n"
    using replace_method_frame [of n "''__reduce__''" "''__reduce_cython__''" api d rc] assms r by simp
  ultimately show ?thesis
    using Some setup_setstate_frame [of n api d1] assms by (cases r) (auto simp: setup_reduce_methods_def)
qed (simp add: setup_reduce_methods_def)

lemma setup_reduce_cases:
  "snd (setup_reduce api d) = d \<or> setup_reduce api d = setup_reduce_methods api d"
  by (simp add: setup_reduce_def split: option.split)

text \<open>
  C26: \<open>__Pyx_setup_reduce\<close> makes a generated class picklable, once.  It installs the
  two generated methods under the names of the pickling protocol and removes their own names; it touches
  no other attribute of any class, and leaves a class that brings \<open>__getstate__\<close> or its own
  \<open>__reduce_ex__\<close> as it is.  A second call on the class fails, since the generated name is gone.
\<close>

theorem setup_reduce_pickling:
  "(generated_class api d rc sc \<longrightarrow>
      setup_reduce api d = (Ret (), pickling_installed d rc sc)
      \<and> throws (fst (setup_reduce api (snd (setup_reduce api d)))))
   \<and> (n \<notin> {''__reduce__'', ''__setstate__'', ''__reduce_cython__'', ''__setstate_cython__''} \<longrightarrow>
      snd (setup_reduce api d) n = d n)
   \<and> (type_attr api d ''__getstate__'' \<noteq> None \<longrightarrow> setup_reduce api d = (Ret (), d))
   \<and> (d ''__reduce_ex__'' = Some own \<and> object_attrs api ''__reduce_ex__'' = Some obj \<and> own \<noteq> obj \<longrightarrow>
      setup_reduce api d = (Ret (), d))"
proof (intro conjI impI)
  assume g: "generated_class api d rc sc"
  show "setup_reduce api d = (Ret (), pickling_installed d rc sc)" by (rule setup_reduce_installs [OF g])
  show "throws (fst (setup_reduce api (snd (setup_reduce api d))))"
    by (simp add: setup_reduce_installs [OF g] setup_reduce_twice [OF g] throws_def)
next
  assume "n \<notin> {''__reduce__'', ''__setstate__'', ''__reduce_cython__'', ''__setstate_cython__''}"
  then show "snd (setup_reduce api d) n = d n"
    using setup_reduce_cases [of api d] setup_reduce_methods_frame [of n api d] by metis
qed (auto simp: setup_reduce_def type_attr_def)

text \<open>A class over an \<open>object\<close> whose attributes are numbered.\<close>

definition demo_object :: "string \<rightharpoonup> nat" where
  "demo_object = [''__reduce_ex__'' \<mapsto> 1, ''__reduce__'' \<mapsto> 2]"

definition demo_class :: "nat reduce_api" where
  "demo_class = \<lparr>inherited = demo_object, object_attrs = demo_object,
     meth_name = (\<lambda>v. Ret (if v = 3 then ''__reduce_cython__'' else ''__setstate_cython__'')),
     set_error = (\<lambda>_. None), class_name = ''simple.a_class''\<rparr>"

theorem setup_reduce_pickling_witness:
  "setup_reduce demo_class [''__reduce_cython__'' \<mapsto> 3, ''__setstate_cython__'' \<mapsto> 4]
    = (Ret (), pickling_installed [''__reduce_cython__'' \<mapsto> 3, ''__setstate_cython__'' \<mapsto> 4] 3 4)"
  using setup_reduce_pickling [of demo_class "[''__reduce_cython__'' \<mapsto> 3, ''__setstate_cython__'' \<mapsto> 4]" 3 4]
  by (simp add: generated_class_def demo_class_def demo_object_def)

text \<open>
  From version 3.11 on \<open>object\<close> itself has \<open>__getstate__\<close>, so that every class inherits it and the
  pickling methods are never installed.
\<close>

lemma setup_reduce_inherited_getstate:
  "inherited api ''__getstate__'' = Some g \<Longrightarrow> setup_reduce api d = (Ret (), d)"
  by (simp add: setup_reduce_def type_attr_def split: option.split)

end
