(* ===== verification/Cython_Module.thy ===== *)
theory Cython_Module
  imports Cython_Ints Cxx_Lib
begin

text \<open>
  The functions of the checked-in extension module \<open>cjunk/cython/simple.cpp\<close>: the unpacking of
  positional and keyword arguments, the pickling of \<open>a_class\<close>, the matching of exceptions against
  classes and tuples of classes, \<open>second_function\<close>, and the creation and execution of the module.
  Python's own functions are parameters: the conversion of an integer to \<open>long\<close>, whether an
  allocation succeeds, what \<open>print\<close> does.
\<close>

section \<open>Argument unpacking\<close>

text \<open>The message of \<open>__Pyx_RaiseArgtupleInvalid\<close>.\<close>

definition RaiseArgtupleInvalid :: "string \<Rightarrow> bool \<Rightarrow> nat \<Rightarrow> nat \<Rightarrow> nat \<Rightarrow> py_error" where
  "RaiseArgtupleInvalid func_name exact num_min num_max num_found =
     (let num_expected = (if num_found < num_min then num_min else num_max);
          more_or_less = (if exact then ''exactly'' else if num_found < num_min then ''at least'' else ''at most'')
      in TypeError (take 200 func_name @ ''() takes '' @ take 8 more_or_less @ '' '' @ nat_to_string num_expected
           @ '' positional argument'' @ (if num_expected = 1 then [] else ''s'') @ '' (''
           @ nat_to_string num_found @ '' given)''))"

definition RaiseDoubleKeywordsError :: "string \<Rightarrow> string \<Rightarrow> py_error" where
  "RaiseDoubleKeywordsError func_name kw_name =
     TypeError (func_name @ ''() got multiple values for keyword argument '' @ [CHR 0x27] @ kw_name @ [CHR 0x27])"

text \<open>A keyword dictionary in its order; a key is a string or some other object.\<close>

type_synonym 'v kwargs = "(string option \<times> 'v) list"

fun name_index :: "string list \<Rightarrow> string \<Rightarrow> nat option" where
  "name_index [] key = None"
| "name_index (n # ns) key = (if n = key then Some 0 else map_option Suc (name_index ns key))"

text \<open>
  \<open>__Pyx_ParseOptionalKeywords\<close> without a dictionary for further keywords: the names after the
  positional ones are searched first, then the positional ones.
\<close>

fun ParseOptionalKeywords ::
  "'v kwargs \<Rightarrow> string list \<Rightarrow> 'v option list \<Rightarrow> nat \<Rightarrow> string \<Rightarrow> (py_error, 'v option list) outcome" where
  "ParseOptionalKeywords [] argnames vals num_pos_args f = Ret vals"
| "ParseOptionalKeywords ((key, v) # kwds) argnames vals num_pos_args f =
     (case key of
        None \<Rightarrow> Throw (TypeError (take 200 f @ ''() keywords must be strings''))
      | Some k \<Rightarrow>
          (case name_index (drop num_pos_args argnames) k of
             Some i \<Rightarrow> ParseOptionalKeywords kwds argnames (vals[num_pos_args + i := Some v]) num_pos_args f
           | None \<Rightarrow>
               if k \<in> set (take num_pos_args argnames) then Throw (RaiseDoubleKeywordsError f k)
               else Throw (TypeError (f @ ''() got an unexpected keyword argument '' @ [CHR 0x27] @ k @ [CHR 0x27]))))"

definition dict_get :: "'v kwargs \<Rightarrow> string \<Rightarrow> 'v option" where
  "dict_get kwds k = map_of kwds (Some k)"

definition unpickle_argnames :: "string list" where
  "unpickle_argnames = [''__pyx_type'', ''__pyx_checksum'', ''__pyx_state'']"

definition unpickle_name :: string where
  "unpickle_name = ''__pyx_unpickle_a_class''"

text \<open>
  The wrapper of \<open>__pyx_unpickle_a_class\<close> up to the label \<open>argument_unpacking_done\<close>.  The switch
  falls through: a missing argument is looked up in the dictionary from its position on.
\<close>

definition take_keyword ::
  "'v kwargs \<Rightarrow> nat \<Rightarrow> nat \<Rightarrow> nat \<Rightarrow> 'v option list \<times> int \<Rightarrow> (py_error, 'v option list \<times> int) outcome" where
  "take_keyword kwds pos_args i num_found st =
     (if pos_args \<le> i
      then case dict_get kwds (unpickle_argnames ! i) of
             Some v \<Rightarrow> Ret ((fst st)[i := Some v], snd st - 1)
           | None \<Rightarrow> Throw (RaiseArgtupleInvalid unpickle_name True 3 3 num_found)
      else Ret st)"

definition take_keywords ::
  "'v kwargs \<Rightarrow> nat \<Rightarrow> 'v option list \<times> int \<Rightarrow> (py_error, 'v option list \<times> int) outcome" where
  "take_keywords kwds pos_args st =
     obind (take_keyword kwds pos_args 0 pos_args st) (\<lambda>st0.
     obind (take_keyword kwds pos_args 1 1 st0) (\<lambda>st1. take_keyword kwds pos_args 2 2 st1))"

definition unpickle_args :: "'v list \<Rightarrow> 'v kwargs option \<Rightarrow> (py_error, 'v option list) outcome" where
  "unpickle_args args kwds_opt =
     (case kwds_opt of
        Some kwds \<Rightarrow>
          let pos_args = length args
          in if pos_args > 3 then Throw (RaiseArgtupleInvalid unpickle_name True 3 3 pos_args)
             else let vals = map Some args @ replicate (3 - pos_args) None
                  in obind (take_keywords kwds pos_args (vals, int (length kwds))) (\<lambda>(vals2, kw_args).
                       if kw_args > 0 then ParseOptionalKeywords kwds unpickle_argnames vals2 pos_args unpickle_name
                       else Ret vals2)
      | None \<Rightarrow>
          if length args \<noteq> 3 then Throw (RaiseArgtupleInvalid unpickle_name True 3 3 (length args))
          else Ret (map Some args))"

text \<open>
  The binding that the language defines for a function of required parameters: every parameter
  gets one value, by position or by keyword, and nothing is left over.
\<close>

definition python_binding :: "string list \<Rightarrow> 'v list \<Rightarrow> 'v kwargs \<Rightarrow> 'v list option" where
  "python_binding names args kwds =
     (if length args \<le> length names \<and> fst ` set kwds = Some ` set (drop (length args) names)
      then Some (args @ map (\<lambda>n. the (dict_get kwds n)) (drop (length args) names)) else None)"

section \<open>Pickling\<close>

text \<open>
  The Python values that pickling handles.  An instance has its class and, when its class gives
  instances a dictionary, its attributes.
\<close>

datatype ('t, 'd) pickle_obj =
    PNone
  | PType 't
  | PInt int
  | PTuple "('t, 'd) pickle_obj list"
  | PDict 'd
  | PInstance 't "'d option"

definition pickle_checksum :: int where
  "pickle_checksum = 222419149"

text \<open>
  \<open>__reduce_cython__\<close>: the arguments of the call that recreates the object and, with attributes,
  the state to set afterwards.
\<close>

definition reduce_cython :: "'t \<Rightarrow> 'd option \<Rightarrow> ('t, 'd) pickle_obj list \<times> ('t, 'd) pickle_obj option" where
  "reduce_cython cls attrs =
     (let state = (case attrs of None \<Rightarrow> PTuple [] | Some d \<Rightarrow> PTuple [PDict d]); use_setstate = (attrs \<noteq> None)
      in if use_setstate then ([PType cls, PInt pickle_checksum, PNone], Some state)
         else ([PType cls, PInt pickle_checksum, state], None))"

text \<open>
  \<open>__pyx_unpickle_a_class__set_state\<close> on an instance: a non-empty state updates the attributes.
  \<open>upd\<close> is \<open>dict.update\<close>, which refuses an argument that is not a mapping.
\<close>

fun set_state ::
  "('d \<Rightarrow> ('t, 'd) pickle_obj \<Rightarrow> (py_error, 'd) outcome) \<Rightarrow> ('t, 'd) pickle_obj \<Rightarrow> 't \<Rightarrow> 'd option
   \<Rightarrow> (py_error, 't \<times> 'd option) outcome" where
  "set_state upd PNone cls attrs = Throw (TypeError (''object of type '' @ [CHR 0x27] @ ''NoneType'' @ [CHR 0x27] @ '' has no len()''))"
| "set_state upd (PTuple []) cls attrs = Ret (cls, attrs)"
| "set_state upd (PTuple (s # ss)) cls attrs =
     (case attrs of None \<Rightarrow> Ret (cls, None) | Some d \<Rightarrow> omap (\<lambda>d'. (cls, Some d')) (upd d s))"
| "set_state upd v cls attrs = Throw Undefined_Behaviour"

definition is_tuple :: "('t, 'd) pickle_obj \<Rightarrow> bool" where
  "is_tuple v = (case v of PTuple _ \<Rightarrow> True | _ \<Rightarrow> False)"

text \<open>The test before every call of \<open>set_state\<close>.\<close>

definition expect_tuple :: "(('t, 'd) pickle_obj \<Rightarrow> string) \<Rightarrow> ('t, 'd) pickle_obj \<Rightarrow> (py_error, unit) outcome" where
  "expect_tuple name v =
     (if is_tuple v \<or> v = PNone then Ret ()
      else Throw (TypeError (''Expected tuple, got '' @ take 200 (name v))))"

record ('t, 'd) pickle_api =
  new_object :: "'t \<Rightarrow> (py_error, 't \<times> 'd option) outcome"
  dict_update :: "'d \<Rightarrow> ('t, 'd) pickle_obj \<Rightarrow> (py_error, 'd) outcome"
  obj_type_name :: "('t, 'd) pickle_obj \<Rightarrow> string"

definition setstate_cython ::
  "('t, 'd) pickle_api \<Rightarrow> ('t, 'd) pickle_obj \<Rightarrow> 't \<times> 'd option \<Rightarrow> (py_error, 't \<times> 'd option) outcome" where
  "setstate_cython api state self =
     obind (expect_tuple (obj_type_name api) state) (\<lambda>_. set_state (dict_update api) state (fst self) (snd self))"

text \<open>\<open>__pyx_unpickle_a_class\<close> after its arguments are unpacked; \<open>__new__\<close> refuses what is not a class.\<close>

definition unpickle_a_class ::
  "('t, 'd) pickle_api \<Rightarrow> ('t, 'd) pickle_obj \<Rightarrow> int \<Rightarrow> ('t, 'd) pickle_obj \<Rightarrow> (py_error, 't \<times> 'd option) outcome" where
  "unpickle_a_class api ty checksum state =
     (if checksum \<noteq> pickle_checksum
      then Throw (PickleError (''Incompatible checksums ('' @ to_string checksum @ '' vs 0xd41d8cd = ())''))
      else obind (case ty of PType t \<Rightarrow> new_object api t | _ \<Rightarrow> Throw (TypeError ''object.__new__(X): X is not a type object''))
             (\<lambda>result. if state \<noteq> PNone then setstate_cython api state result else Ret result))"

text \<open>The whole call: unpacking, conversion of the checksum, and the function.\<close>

definition unpickle_call ::
  "('t, 'd) pickle_api \<Rightarrow> (('t, 'd) pickle_obj \<Rightarrow> (py_error, int) outcome) \<Rightarrow> ('t, 'd) pickle_obj list
   \<Rightarrow> ('t, 'd) pickle_obj kwargs option \<Rightarrow> (py_error, 't \<times> 'd option) outcome" where
  "unpickle_call api as_long args kwds =
     obind (unpickle_args args kwds) (\<lambda>vals.
     obind (as_long (the (vals ! 1))) (\<lambda>checksum.
       unpickle_a_class api (the (vals ! 0)) checksum (the (vals ! 2))))"

text \<open>What \<open>pickle\<close> does with a reduced object: call, then \<open>__setstate__\<close> when there is a state.\<close>

definition pickle_load ::
  "('t, 'd) pickle_api \<Rightarrow> (('t, 'd) pickle_obj \<Rightarrow> (py_error, int) outcome)
   \<Rightarrow> ('t, 'd) pickle_obj list \<times> ('t, 'd) pickle_obj option \<Rightarrow> (py_error, 't \<times> 'd option) outcome" where
  "pickle_load api as_long reduced =
     obind (unpickle_call api as_long (fst reduced) None) (\<lambda>self.
       case snd reduced of None \<Rightarrow> Ret self | Some state \<Rightarrow> setstate_cython api state self)"

lemma name_index_None: "name_index ns k = None \<longleftrightarrow> k \<notin> set ns"
  by (induction ns) auto

lemma dict_get_None: "dict_get kwds k = None \<longleftrightarrow> Some k \<notin> fst ` set kwds"
  by (simp add: dict_get_def map_of_eq_None_iff)

text \<open>A key that is not the name of a missing parameter is refused.\<close>

lemma ParseOptionalKeywords_extra:
  "key \<in> fst ` set kwds \<Longrightarrow> key \<notin> Some ` set (drop n argnames) \<Longrightarrow>
   throws (ParseOptionalKeywords kwds argnames vals n f)"
proof (induction kwds argnames vals n f rule: ParseOptionalKeywords.induct)
  case (2 key' v kwds argnames vals n f)
  show ?case
  proof (cases key')
    case (Some k)
    show ?thesis
    proof (cases "name_index (drop n argnames) k")
      case (Some i)
      then have "k \<in> set (drop n argnames)" by (metis name_index_None option.distinct(1))
      then have "key \<noteq> key'" using "2.prems"(2) \<open>key' = Some k\<close> by blast
      then have "throws (ParseOptionalKeywords kwds argnames (vals[n + i := Some v]) n f)"
        using "2.IH" [OF \<open>key' = Some k\<close> Some] "2.prems" by auto
      then show ?thesis using Some \<open>key' = Some k\<close> by simp
    qed (use Some in simp)
  qed simp
qed simp

lemma args_shape:
  assumes "length args \<le> 3"
  obtains "args = []" | x where "args = [x]" | x y where "args = [x, y]" | x y z where "args = [x, y, z]"
proof -
  from assms consider "length args = 0" | "length args = 1" | "length args = 2" | "length args = 3" by linarith
  then show thesis
    using that by cases (auto simp: numeral_2_eq_2 numeral_3_eq_3 length_Suc_conv)
qed

text \<open>The three lookups together fill the missing values and count them, or fail.\<close>

lemma take_keywords_found:
  assumes "length args \<le> 3" "\<forall>n \<in> set (drop (length args) unpickle_argnames). dict_get kwds n \<noteq> None"
  shows "take_keywords kwds (length args) (map Some args @ replicate (3 - length args) None, m)
    = Ret (map Some (args @ map (\<lambda>n. the (dict_get kwds n)) (drop (length args) unpickle_argnames)),
           m - int (3 - length args))"
  by (rule args_shape [OF assms(1)]) (use assms(2) in \<open>auto simp: take_keywords_def take_keyword_def
      unpickle_argnames_def numeral_2_eq_2 numeral_3_eq_3\<close>)

lemma take_keywords_missing:
  assumes "length args \<le> 3" "n \<in> set (drop (length args) unpickle_argnames)" "dict_get kwds n = None"
  shows "throws (take_keywords kwds (length args) (map Some args @ replicate (3 - length args) None, m))"
  by (rule args_shape [OF assms(1)]) (use assms(2,3) in \<open>auto simp: take_keywords_def take_keyword_def
      unpickle_argnames_def numeral_2_eq_2 numeral_3_eq_3 split: option.splits\<close>)

lemma keys_left_over:
  assumes "distinct (map fst kwds)" "Some ` set ns \<subseteq> fst ` set kwds" "distinct ns"
  shows "int (length kwds) - int (length ns) > 0 \<longleftrightarrow> fst ` set kwds \<noteq> Some ` set ns"
proof -
  have "length kwds = card (fst ` set kwds)" using assms(1) by (metis distinct_card length_map set_map)
  moreover have "length ns = card (Some ` set ns)" using assms(3) by (simp add: distinct_card card_image)
  moreover have "card (Some ` set ns) < card (fst ` set kwds) \<longleftrightarrow> fst ` set kwds \<noteq> Some ` set ns"
    using assms(2) by (metis List.finite_set card_subset_eq finite_imageI less_irrefl psubset_card_mono psubsetI)
  ultimately show ?thesis by linarith
qed

lemma unpickle_args_keywords:
  assumes "distinct (map fst kwds)" "length args \<le> 3"
  shows "case python_binding unpickle_argnames args kwds of
      Some vs \<Rightarrow> unpickle_args args (Some kwds) = Ret (map Some vs)
    | None \<Rightarrow> throws (unpickle_args args (Some kwds))"
proof -
  define ns where "ns = drop (length args) unpickle_argnames"
  have ns: "distinct ns" "length ns = 3 - length args" "length args \<le> length unpickle_argnames"
    using assms(2) by (simp_all add: ns_def unpickle_argnames_def)
  show ?thesis
  proof (cases "\<forall>n \<in> set ns. dict_get kwds n \<noteq> None")
    case True
    then have sub: "Some ` set ns \<subseteq> fst ` set kwds" by (auto simp: dict_get_None)
    note found = take_keywords_found [OF assms(2) True [unfolded ns_def], folded ns_def]
    show ?thesis
    proof (cases "fst ` set kwds = Some ` set ns")
      case eq: True
      then show ?thesis
        using found assms(2) ns keys_left_over [OF assms(1) sub ns(1)]
        by (simp add: python_binding_def unpickle_args_def Let_def flip: ns_def)
    next
      case neq: False
      then obtain key where "key \<in> fst ` set kwds" "key \<notin> Some ` set ns" using sub by blast
      from ParseOptionalKeywords_extra [OF this [unfolded ns_def]] neq
      show ?thesis
        using found assms(2) ns keys_left_over [OF assms(1) sub ns(1)]
        by (simp add: python_binding_def unpickle_args_def Let_def flip: ns_def)
    qed
  next
    case False
    then obtain n where n: "n \<in> set ns" "dict_get kwds n = None" by blast
    then have "fst ` set kwds \<noteq> Some ` set ns" by (auto simp: dict_get_None)
    with take_keywords_missing [OF assms(2) n [unfolded ns_def], of "int (length kwds)"] assms(2)
    show ?thesis
      by (cases "take_keywords kwds (length args) (map Some args @ replicate (3 - length args) None, int (length kwds))")
        (simp_all add: python_binding_def unpickle_args_def Let_def ns_def)
  qed
qed

text \<open>
  C14: the argument unpacking implements Python's call rule.  With any positional and keyword
  arguments it returns exactly the values that the rule binds to the three parameters, and raises
  when the rule has no binding: too few or too many arguments, an unknown keyword, a keyword that
  is not a string, or a parameter given twice.
\<close>

theorem unpickle_args_python_call:
  assumes "distinct (map fst kwds)" and "given = Some kwds \<or> given = None \<and> kwds = []"
  shows "case python_binding unpickle_argnames args kwds of
      Some vs \<Rightarrow> unpickle_args args given = Ret (map Some vs)
    | None \<Rightarrow> throws (unpickle_args args given)"
proof (cases "given = None \<or> length args > 3")
  case True
  with assms(2) show ?thesis
    by (cases "length args \<le> 2") (auto simp: python_binding_def unpickle_args_def unpickle_argnames_def Let_def image_iff drop_Cons')
next
  case False
  with assms show ?thesis using unpickle_args_keywords [OF assms(1), of args] by auto
qed

theorem unpickle_args_python_call_witness:
  "unpickle_args [7 :: nat] (Some [(Some ''__pyx_state'', 1), (Some ''__pyx_checksum'', 2)]) = Ret [Some 7, Some 2, Some 1]
   \<and> throws (unpickle_args [7 :: nat] (Some [(Some ''__pyx_type'', 1)]))"
  using unpickle_args_python_call [of "[(Some ''__pyx_state'', 1), (Some ''__pyx_checksum'', 2)]"
      "Some [(Some ''__pyx_state'', 1), (Some ''__pyx_checksum'', 2)]" "[7 :: nat]"]
    unpickle_args_python_call [of "[(Some ''__pyx_type'', 1)]" "Some [(Some ''__pyx_type'', 1)]" "[7 :: nat]"]
  by (simp add: python_binding_def unpickle_argnames_def dict_get_def insert_commute doubleton_eq_iff)

text \<open>
  What the round trip relies on: \<open>__new__\<close> makes an object of the class with an empty dictionary
  exactly for the classes that have one, updating an empty dictionary with another gives the other,
  and the conversion of a Python integer in range is exact.
\<close>

definition pickle_documented ::
  "('t \<Rightarrow> bool) \<Rightarrow> 'd \<Rightarrow> ('t, 'd) pickle_api \<Rightarrow> (('t, 'd) pickle_obj \<Rightarrow> (py_error, int) outcome) \<Rightarrow> bool" where
  "pickle_documented has_dict empty_dict api as_long \<longleftrightarrow>
     (\<forall>t. new_object api t = Ret (t, if has_dict t then Some empty_dict else None))
     \<and> (\<forall>d. dict_update api empty_dict (PDict d) = Ret d)
     \<and> (\<forall>i. in_signed 64 i \<longrightarrow> as_long (PInt i) = Ret i)"

lemma unpickle_three: "unpickle_args [x, y, z] None = Ret [Some x, Some y, Some z]"
  by (simp add: unpickle_args_def)

text \<open>
  C25: pickling is a round trip.  Loading what \<open>__reduce_cython__\<close> made of an object of a class,
  with or without attributes, gives an object of the same class with the same attributes; a
  checksum of another layout is refused.
\<close>

theorem pickle_roundtrip:
  assumes "pickle_documented has_dict empty_dict api as_long" "attrs \<noteq> None \<longleftrightarrow> has_dict cls"
  shows "pickle_load api as_long (reduce_cython cls attrs) = Ret (cls, attrs)
    \<and> (checksum \<noteq> pickle_checksum \<longrightarrow> throws (unpickle_a_class api (PType cls) checksum state))"
proof -
  have new: "new_object api cls = Ret (cls, if has_dict cls then Some empty_dict else None)"
    and upd: "dict_update api empty_dict (PDict d) = Ret d"
    and conv: "as_long (PInt pickle_checksum) = Ret pickle_checksum" for d
    using assms(1) by (auto simp: pickle_documented_def in_signed_def pickle_checksum_def)
  have "pickle_load api as_long (reduce_cython cls attrs) = Ret (cls, attrs)"
  proof (cases attrs)
    case None
    with assms(2) new conv show ?thesis
      by (simp add: pickle_load_def reduce_cython_def unpickle_call_def unpickle_three unpickle_a_class_def
          setstate_cython_def expect_tuple_def is_tuple_def)
  next
    case (Some d)
    with assms(2) new upd conv show ?thesis
      by (simp add: pickle_load_def reduce_cython_def unpickle_call_def unpickle_three unpickle_a_class_def
          setstate_cython_def expect_tuple_def is_tuple_def)
  qed
  then show ?thesis by (simp add: unpickle_a_class_def)
qed

definition demo_pickle :: "(nat, nat list) pickle_api" where
  "demo_pickle = \<lparr>new_object = (\<lambda>t. Ret (t, if t = 1 then Some [] else None)),
     dict_update = (\<lambda>d v. case v of PDict e \<Rightarrow> Ret (d @ e) | _ \<Rightarrow> Throw (TypeError [])), obj_type_name = (\<lambda>_. [])\<rparr>"

definition demo_as_long :: "(nat, nat list) pickle_obj \<Rightarrow> (py_error, int) outcome" where
  "demo_as_long v = (case v of PInt i \<Rightarrow> Ret i | _ \<Rightarrow> Throw (TypeError ''an integer is required''))"

theorem pickle_roundtrip_witness:
  "pickle_load demo_pickle demo_as_long (reduce_cython 1 (Some [4, 2])) = Ret (1, Some [4, 2])"
  using pickle_roundtrip [of "\<lambda>t. t = 1" "[]" demo_pickle demo_as_long "Some [4, 2]" 1 0 PNone]
  by (simp add: pickle_documented_def demo_pickle_def demo_as_long_def)

end
