(* ===== verification/Cython_Init.thy ===== *)
theory Cython_Init
  imports Cython_Module Step_System
begin

text \<open>
  Type tests and the life of the module \<open>cjunk/cython/simple.cpp\<close>: subclass tests and the
  matching of an exception against a class or a tuple of classes, \<open>unique_function\<close> and
  \<open>second_function\<close>, and the creation and execution of the module, which its own state limits to one
  interpreter and one initialisation per process.
\<close>

section \<open>Subclass tests and exception matching\<close>

text \<open>Classes with their base and, once ready, their method resolution order.\<close>

record 'c class_api =
  tp_base :: "'c \<Rightarrow> 'c option"
  tp_mro :: "'c \<Rightarrow> 'c list option"
  base_object :: 'c

text \<open>The loop follows the bases, which form a finite chain in Python; on a cycle it would not end.\<close>

partial_function (option) InBases :: "'c class_api \<Rightarrow> 'c option \<Rightarrow> 'c \<Rightarrow> bool option" where
  "InBases api a b =
     (case a of
        None \<Rightarrow> Some (b = base_object api)
      | Some x \<Rightarrow> if tp_base api x = Some b then Some True else InBases api (tp_base api x) b)"

declare InBases.simps [code]

definition IsSubtype :: "'c class_api \<Rightarrow> 'c \<Rightarrow> 'c \<Rightarrow> bool option" where
  "IsSubtype api a b =
     (if a = b then Some True
      else case tp_mro api a of Some mro \<Rightarrow> Some (b \<in> set mro) | None \<Rightarrow> InBases api (Some a) b)"

text \<open>What an \<open>except\<close> clause may name: a class, a tuple, or an object that is neither.\<close>

datatype 'c exc_spec = ExcClass 'c | ExcTuple "'c exc_spec list" | ExcOther

fun matches_classes :: "'c class_api \<Rightarrow> 'c \<Rightarrow> 'c exc_spec list \<Rightarrow> bool option" where
  "matches_classes api err [] = Some False"
| "matches_classes api err (ExcClass t # ts) =
     (case IsSubtype api err t of
        None \<Rightarrow> None
      | Some True \<Rightarrow> Some True
      | Some False \<Rightarrow> matches_classes api err ts)"
| "matches_classes api err (_ # ts) = matches_classes api err ts"

text \<open>The tuple is scanned for the class itself before any subclass test.\<close>

definition GivenExceptionMatchesTuple :: "'c class_api \<Rightarrow> 'c \<Rightarrow> 'c exc_spec list \<Rightarrow> bool option" where
  "GivenExceptionMatchesTuple api err ts = (if ExcClass err \<in> set ts then Some True else matches_classes api err ts)"

definition GivenExceptionMatches :: "'c class_api \<Rightarrow> ('c \<Rightarrow> bool) \<Rightarrow> 'c \<Rightarrow> 'c exc_spec \<Rightarrow> bool option" where
  "GivenExceptionMatches api PyErr_GivenExceptionMatches err exc =
     (if exc = ExcClass err then Some True
      else case exc of
        ExcClass t \<Rightarrow> IsSubtype api err t
      | ExcTuple ts \<Rightarrow> GivenExceptionMatchesTuple api err ts
      | ExcOther \<Rightarrow> Some (PyErr_GivenExceptionMatches err))"

definition GivenExceptionMatches2 :: "'c class_api \<Rightarrow> 'c \<Rightarrow> 'c \<Rightarrow> 'c \<Rightarrow> bool option" where
  "GivenExceptionMatches2 api err exc1 exc2 =
     (if err = exc1 \<or> err = exc2 then Some True
      else case IsSubtype api err exc1 of
        None \<Rightarrow> None
      | Some True \<Rightarrow> Some True
      | Some False \<Rightarrow> IsSubtype api err exc2)"

text \<open>
  The test of the pending exception.  Here the members of a tuple may be tuples themselves, since each is
  matched in full.
\<close>

fun matches_specs :: "'c class_api \<Rightarrow> ('c \<Rightarrow> bool) \<Rightarrow> 'c \<Rightarrow> 'c exc_spec list \<Rightarrow> bool option" where
  "matches_specs api other err [] = Some False"
| "matches_specs api other err (t # ts) =
     (case GivenExceptionMatches api other err t of
        None \<Rightarrow> None
      | Some True \<Rightarrow> Some True
      | Some False \<Rightarrow> matches_specs api other err ts)"

definition ExceptionMatchesTuple :: "'c class_api \<Rightarrow> ('c \<Rightarrow> bool) \<Rightarrow> 'c \<Rightarrow> 'c exc_spec list \<Rightarrow> bool option" where
  "ExceptionMatchesTuple api other err ts = (if ExcClass err \<in> set ts then Some True else matches_specs api other err ts)"

definition ExceptionMatchesInState :: "'c class_api \<Rightarrow> ('c \<Rightarrow> bool) \<Rightarrow> 'c option \<Rightarrow> 'c exc_spec \<Rightarrow> bool option" where
  "ExceptionMatchesInState api other curexc_type err =
     (case curexc_type of
        None \<Rightarrow> Some False
      | Some e \<Rightarrow>
          if err = ExcClass e then Some True
          else case err of
            ExcTuple ts \<Rightarrow> ExceptionMatchesTuple api other e ts
          | _ \<Rightarrow> GivenExceptionMatches api other e err)"

text \<open>The classes above a class.\<close>

inductive superclass :: "'c class_api \<Rightarrow> 'c \<Rightarrow> 'c \<Rightarrow> bool" for api where
  superclass_base: "tp_base api a = Some b \<Longrightarrow> superclass api a b"
| superclass_step: "tp_base api a = Some c \<Longrightarrow> superclass api c b \<Longrightarrow> superclass api a b"

inductive_simps superclass_iff: "superclass api a b"

definition finite_bases :: "'c class_api \<Rightarrow> ('c \<Rightarrow> nat) \<Rightarrow> bool" where
  "finite_bases api depth \<longleftrightarrow> (\<forall>a b. tp_base api a = Some b \<longrightarrow> depth b < depth a)"

lemma InBases_returns:
  assumes "finite_bases api depth"
  shows "InBases api (Some a) b = Some (superclass api a b \<or> b = base_object api)"
proof (induction "depth a" arbitrary: a rule: less_induct)
  case less
  show ?case
  proof (cases "tp_base api a")
    case None
    then have "\<not> superclass api a b" by (subst superclass_iff) simp
    with None show ?thesis by (subst InBases.simps) (simp, subst InBases.simps, simp)
  next
    case (Some c)
    then have "depth c < depth a" using assms by (simp add: finite_bases_def)
    then have "InBases api (Some c) b = Some (superclass api c b \<or> b = base_object api)" by (rule less)
    moreover have "superclass api a b \<longleftrightarrow> c = b \<or> superclass api c b" using Some by (subst superclass_iff) auto
    ultimately show ?thesis using Some by (subst InBases.simps) auto
  qed
qed

text \<open>What the tests decide: the resolution order of a ready class, or the chain of bases before that.\<close>

definition subclass_of :: "'c class_api \<Rightarrow> 'c \<Rightarrow> 'c \<Rightarrow> bool" where
  "subclass_of api a b \<longleftrightarrow> a = b \<or> (case tp_mro api a of
     Some mro \<Rightarrow> b \<in> set mro | None \<Rightarrow> superclass api a b \<or> b = base_object api)"

lemma IsSubtype_correct: "finite_bases api depth \<Longrightarrow> IsSubtype api a b = Some (subclass_of api a b)"
  using InBases_returns [of api depth a b] by (auto simp: IsSubtype_def subclass_of_def split: option.splits)

lemma matches_classes_correct:
  assumes "finite_bases api depth"
  shows "matches_classes api err ts = Some (\<exists>t. ExcClass t \<in> set ts \<and> subclass_of api err t)"
proof (induction ts)
  case (Cons s ts)
  then show ?case
    by (cases s) (auto simp: IsSubtype_correct [OF assms] split: bool.splits)
qed simp

text \<open>
  matching an exception against a tuple of classes always ends and finds a match exactly when the
  exception's class is a subclass of some class of the tuple; the first scan for the class itself
  does not change the answer, and neither does asking for two classes at once.
\<close>

theorem exception_matching_correct:
  assumes "finite_bases api depth"
  shows "GivenExceptionMatchesTuple api err ts = Some (\<exists>t. ExcClass t \<in> set ts \<and> subclass_of api err t)
    \<and> GivenExceptionMatches2 api err t1 t2 = GivenExceptionMatchesTuple api err [ExcClass t1, ExcClass t2]"
proof -
  have self: "subclass_of api err err" by (simp add: subclass_of_def)
  then have tup: "GivenExceptionMatchesTuple api err us = Some (\<exists>t. ExcClass t \<in> set us \<and> subclass_of api err t)" for us
    by (auto simp: GivenExceptionMatchesTuple_def matches_classes_correct [OF assms])
  with self show ?thesis
    by (auto simp: tup GivenExceptionMatches2_def IsSubtype_correct [OF assms] split: bool.splits)
qed

text \<open>What an \<open>except\<close> clause catches: a class those below it, a tuple what one of its classes catches.\<close>

fun catches :: "'c class_api \<Rightarrow> ('c \<Rightarrow> bool) \<Rightarrow> 'c \<Rightarrow> 'c exc_spec \<Rightarrow> bool" where
  "catches api other e (ExcClass t) = subclass_of api e t"
| "catches api other e (ExcTuple ts) = (\<exists>t. ExcClass t \<in> set ts \<and> subclass_of api e t)"
| "catches api other e ExcOther = other e"

lemma GivenExceptionMatches_catches:
  assumes "finite_bases api depth"
  shows "GivenExceptionMatches api other e spec = Some (catches api other e spec)"
proof -
  have "subclass_of api e e" by (simp add: subclass_of_def)
  then show ?thesis
    by (cases spec) (auto simp: GivenExceptionMatches_def GivenExceptionMatchesTuple_def IsSubtype_correct [OF assms]
        matches_classes_correct [OF assms])
qed

lemma matches_specs_catches:
  "finite_bases api depth \<Longrightarrow> matches_specs api other e ts = Some (\<exists>t \<in> set ts. catches api other e t)"
  by (induction ts) (auto simp: GivenExceptionMatches_catches split: bool.splits)

text \<open>
  The test of the pending exception agrees with that of a given one on classes, also in a tuple; it
  goes one level deeper into nested tuples.
\<close>

theorem pending_matching_correct:
  assumes "finite_bases api depth"
  shows "ExceptionMatchesInState api other None spec = Some False
    \<and> ExceptionMatchesInState api other (Some e) (ExcClass t) = Some (subclass_of api e t)
    \<and> ExceptionMatchesInState api other (Some e) (ExcTuple ts) = Some (\<exists>t \<in> set ts. catches api other e t)"
proof -
  have "subclass_of api e e" by (simp add: subclass_of_def)
  then show ?thesis
    using GivenExceptionMatches_catches [OF assms, of other e "ExcClass t"] matches_specs_catches [OF assms, of other e ts]
    by (force simp: ExceptionMatchesInState_def ExceptionMatchesTuple_def)
qed

section \<open>The functions of the module\<close>

datatype py_value = NoneV | IntV int

definition unique_function :: py_value where
  "unique_function = IntV 100"

text \<open>
  The loop of \<open>second_function\<close>: \<open>from_long\<close> and \<open>add_ok\<close> say whether Python can make the integer
  and the sum; a failure reports the line of \<open>simple.pyx\<close>.
\<close>

function second_loop :: "(int \<Rightarrow> bool) \<Rightarrow> (int \<Rightarrow> int \<Rightarrow> bool) \<Rightarrow> int \<Rightarrow> int \<Rightarrow> (nat, int) outcome" where
  "second_loop from_long add_ok t a =
     (if t < 100
      then if \<not> from_long t then Throw 6
           else if \<not> add_ok a t then Throw 7
           else second_loop from_long add_ok (t + 1) (a + t)
      else Ret a)"
  by pat_completeness auto
termination
  by (relation "measure (\<lambda>(f, g, t, a). nat (100 - t))") auto

declare second_loop.simps [simp del]

definition second_function :: "(int \<Rightarrow> bool) \<Rightarrow> (int \<Rightarrow> int \<Rightarrow> bool) \<Rightarrow> (nat, py_value) outcome" where
  "second_function from_long add_ok = omap (\<lambda>_. NoneV) (second_loop from_long add_ok 0 0)"

lemma second_loop_sum:
  assumes "\<forall>t a. from_long t \<and> add_ok a t" "0 \<le> t" "t \<le> 100"
  shows "second_loop from_long add_ok t a = Ret (a + (\<Sum>i \<in> {t..<100}. i))"
  using assms(2,3)
proof (induction "nat (100 - t)" arbitrary: t a rule: less_induct)
  case less
  show ?case
  proof (cases "t < 100")
    case True
    have "{t..<100} = insert t {t + 1..<100}" using True by auto
    then have "(\<Sum>i \<in> {t..<100}. i) = t + (\<Sum>i \<in> {t + 1..<100}. i)" by simp
    moreover have "second_loop from_long add_ok (t + 1) (a + t) = Ret (a + t + (\<Sum>i \<in> {t + 1..<100}. i))"
      using True less.prems by (intro less.hyps) auto
    ultimately show ?thesis using True assms(1) by (subst second_loop.simps) simp
  next
    case False
    then show ?thesis by (subst second_loop.simps) simp
  qed
qed

text \<open>
  \<open>second_function\<close> adds the numbers below 100 and then returns \<open>None\<close>, not the sum.
\<close>

theorem second_function_discards_sum:
  assumes "\<forall>t a. from_long t \<and> add_ok a t"
  shows "second_loop from_long add_ok 0 0 = Ret 4950 \<and> second_function from_long add_ok = Ret NoneV"
proof -
  have "second_loop from_long add_ok 0 0 = Ret (\<Sum>i \<in> {0..<100}. i)"
    using second_loop_sum [OF assms, of 0 0] by simp
  moreover have "(\<Sum>i \<in> {0..<100 :: int}. i) = 4950" by code_simp
  ultimately show ?thesis by (simp add: second_function_def)
qed

section \<open>Creating and executing the module\<close>

text \<open>
  The static variables: the module object, the interpreter that loaded it (\<open>-1\<close> before), and what
  was printed.  Each call returns its result and the new state.
\<close>

record module_state =
  pyx_m :: "nat option"
  main_interpreter_id :: int
  printed :: "string list"

definition module_start :: module_state where
  "module_start = \<lparr>pyx_m = None, main_interpreter_id = -1, printed = []\<rparr>"

definition check_single_interpreter :: "int \<Rightarrow> module_state \<Rightarrow> (py_error, unit) outcome \<times> module_state" where
  "check_single_interpreter current_id st =
     (if main_interpreter_id st = -1
      then (if current_id = -1 then Throw (Py_Raised ''PyInterpreterState_GetID'') else Ret (),
            st\<lparr>main_interpreter_id := current_id\<rparr>)
      else if main_interpreter_id st \<noteq> current_id
      then (Throw (ImportError (''Interpreter change detected - this module can only be loaded into ''
              @ ''one interpreter per process.'')), st)
      else (Ret (), st))"

text \<open>The module specification and the dictionary of the new module; \<open>None\<close> is Python's \<open>None\<close>.\<close>

type_synonym spec_attr = "string \<Rightarrow> (py_error, string option) outcome option"
type_synonym mod_dict = "(string \<times> string option) list"

text \<open>
  \<open>spec\<close> gives no entry for an attribute that raises \<open>AttributeError\<close>; \<open>set_ok\<close> is whether the
  dictionary can be extended.
\<close>

definition copy_spec_to_module ::
  "spec_attr \<Rightarrow> bool \<Rightarrow> string \<Rightarrow> string \<Rightarrow> bool \<Rightarrow> mod_dict \<Rightarrow> (py_error, mod_dict) outcome" where
  "copy_spec_to_module spec set_ok from_name to_name allow_none d =
     (case spec from_name of
        None \<Rightarrow> Ret d
      | Some r \<Rightarrow> obind r (\<lambda>v.
          if allow_none \<or> v \<noteq> None
          then if set_ok then Ret ((to_name, v) # d) else Throw (Py_Raised ''PyDict_SetItemString'')
          else Ret d))"

definition copy_spec :: "spec_attr \<Rightarrow> bool \<Rightarrow> mod_dict \<Rightarrow> (py_error, mod_dict) outcome" where
  "copy_spec spec set_ok d =
     obind (copy_spec_to_module spec set_ok ''loader'' ''__loader__'' True d) (\<lambda>d1.
     obind (copy_spec_to_module spec set_ok ''origin'' ''__file__'' True d1) (\<lambda>d2.
     obind (copy_spec_to_module spec set_ok ''parent'' ''__package__'' True d2) (\<lambda>d3.
       copy_spec_to_module spec set_ok ''submodule_search_locations'' ''__path__'' False d3)))"

text \<open>\<open>fresh_module\<close> is the result of \<open>PyModule_NewObject\<close>.\<close>

definition pymod_create ::
  "int \<Rightarrow> spec_attr \<Rightarrow> bool \<Rightarrow> (py_error, nat) outcome \<Rightarrow> module_state \<Rightarrow> (py_error, nat) outcome \<times> module_state" where
  "pymod_create current_id spec set_ok fresh_module st =
     (let (checked, st1) = check_single_interpreter current_id st
      in (obind checked (\<lambda>_.
            case pyx_m st1 of
              Some m \<Rightarrow> Ret m
            | None \<Rightarrow> obind fresh_module (\<lambda>m. omap (\<lambda>_. m) (copy_spec spec set_ok []))), st1))"

text \<open>The calls of the execution that may fail, in the order of the code.\<close>

datatype init_call =
    Check_binary_version | New_empty_tuple | New_empty_bytes | New_empty_unicode
  | Get_module_dict | Add_builtins_module | Add_runtime_module | Set_builtins
  | Init_strings | New_int_0 | New_int_100 | New_int_checksum
  | Set_main_name | Get_modules | Register_module
  | Get_print | Get_range | Pack_names | New_unpickle_code
  | Type_ready | Set_vtable | Add_class | Setup_reduce
  | New_unpickle_function | Add_unpickle_function | New_test_dict | Add_test_dict

text \<open>The first failure ends a sequence of calls.\<close>

fun run_calls :: "(init_call \<Rightarrow> py_error option) \<Rightarrow> init_call list \<Rightarrow> py_error option" where
  "run_calls f [] = None"
| "run_calls f (c # cs) = (case f c of Some e \<Rightarrow> Some e | None \<Rightarrow> run_calls f cs)"

definition InitGlobals :: "init_call list" where
  "InitGlobals = [Init_strings, New_int_0, New_int_100, New_int_checksum]"

definition InitCachedBuiltins :: "init_call list" where
  "InitCachedBuiltins = [Get_print, Get_range]"

definition InitCachedConstants :: "init_call list" where
  "InitCachedConstants = [Pack_names, New_unpickle_code]"

definition modinit_type_init_code :: "init_call list" where
  "modinit_type_init_code = [Type_ready, Set_vtable, Add_class, Setup_reduce]"

text \<open>
  The results of these calls, of \<open>second_function\<close> and of \<open>print\<close>, whether the module is the main
  program, and whether it is registered already.
\<close>

record exec_api =
  call_result :: "init_call \<Rightarrow> py_error option"
  second_result :: "(nat, py_value) outcome"
  print_ok :: bool
  module_is_main :: bool
  in_modules :: bool

definition early_calls :: "init_call list" where
  "early_calls = [Check_binary_version, New_empty_tuple, New_empty_bytes, New_empty_unicode]"

definition init_calls :: "exec_api \<Rightarrow> init_call list" where
  "init_calls api =
     [Get_module_dict, Add_builtins_module, Add_runtime_module, Set_builtins] @ InitGlobals
     @ (if module_is_main api then [Set_main_name] else []) @ [Get_modules]
     @ (if in_modules api then [] else [Register_module])
     @ InitCachedBuiltins @ InitCachedConstants @ modinit_type_init_code"

definition final_calls :: "init_call list" where
  "final_calls = [New_unpickle_function, Add_unpickle_function, New_test_dict, Add_test_dict]"

fun py_text :: "py_value \<Rightarrow> string" where
  "py_text NoneV = ''None''"
| "py_text (IntV i) = to_string i"

definition run_module :: "exec_api \<Rightarrow> module_state \<Rightarrow> (py_error, unit) outcome \<times> module_state" where
  "run_module api st =
     (case run_calls (call_result api) (init_calls api) of
        Some e \<Rightarrow> (Throw e, st)
      | None \<Rightarrow>
          (case second_result api of
             Ret v \<Rightarrow>
               if \<not> print_ok api then (Throw (Py_Raised ''print''), st)
               else let st1 = st\<lparr>printed := printed st @ [py_text v]\<rparr>
                    in (case run_calls (call_result api) final_calls of Some e \<Rightarrow> (Throw e, st1) | None \<Rightarrow> (Ret (), st1))
           | Throw line \<Rightarrow> (Throw (Py_Raised ''second_function''), st)
           | Diverge \<Rightarrow> (Diverge, st)))"

definition pymod_exec_simple :: "exec_api \<Rightarrow> nat \<Rightarrow> module_state \<Rightarrow> (py_error, unit) outcome \<times> module_state" where
  "pymod_exec_simple api m st =
     (case pyx_m st of
        Some m' \<Rightarrow>
          (if m' = m then Ret ()
           else Throw (RuntimeError (''Module '' @ [CHR 0x27] @ ''simple'' @ [CHR 0x27]
             @ '' has already been imported. Re-initialisation is not supported.'')), st)
      | None \<Rightarrow>
          (case run_calls (call_result api) early_calls of
             Some e \<Rightarrow> (Throw e, st)
           | None \<Rightarrow>
               let (r, st1) = run_module api (st\<lparr>pyx_m := Some m\<rparr>)
               in (r, if r = Ret () then st1 else st1\<lparr>pyx_m := None\<rparr>)))"

text \<open>Any sequence of attempts to import, by any interpreter.\<close>

inductive import_step :: "module_state \<Rightarrow> module_state \<Rightarrow> bool" where
  create_call: "import_step st (snd (pymod_create cur spec set_ok fresh_module st))"
| exec_call: "import_step st (snd (pymod_exec_simple api m st))"

inductive_cases import_stepE: "import_step st st'"

definition loaded :: "nat \<Rightarrow> int \<Rightarrow> string list \<Rightarrow> module_state \<Rightarrow> bool" where
  "loaded m i out st \<longleftrightarrow> pyx_m st = Some m \<and> main_interpreter_id st = i \<and> i \<noteq> -1 \<and> printed st = out"

interpretation loaded_module: step_invariant "loaded m i out" import_step "loaded m i out" for m i out
proof
  fix s s' assume "loaded m i out s" "import_step s s'"
  then show "loaded m i out s'"
    by (elim import_stepE) (auto simp: loaded_def pymod_create_def check_single_interpreter_def pymod_exec_simple_def)
qed

lemma exec_success:
  assumes "pymod_exec_simple api m st = (Ret (), st')" "main_interpreter_id st \<noteq> -1"
  shows "loaded m (main_interpreter_id st) (printed st') st'"
  using assms by (auto simp: pymod_exec_simple_def run_module_def loaded_def Let_def
      split: option.splits outcome.splits if_splits prod.splits)

text \<open>
  C22: the module is initialised once.  After a successful execution no further attempt, by any
  interpreter and in any order, prints anything or replaces the module: executing the same module
  again succeeds without effect, another one is refused, and creating the module is refused from
  another interpreter and gives the existing module from the same one.
\<close>

theorem module_initialised_once:
  assumes "pymod_exec_simple api m st = (Ret (), st')" "main_interpreter_id st = i" "i \<noteq> -1"
    and "reachable ((=) st') import_step s"
  shows "printed s = printed st' \<and> pymod_exec_simple api' m s = (Ret (), s)
    \<and> (m' \<noteq> m \<longrightarrow> throws (fst (pymod_exec_simple api' m' s)))
    \<and> fst (pymod_create i spec set_ok fresh_module s) = Ret m
    \<and> (j \<noteq> i \<longrightarrow> throws (fst (pymod_create j spec set_ok fresh_module s)))"
proof -
  have "loaded m i (printed st') st'" using exec_success [OF assms(1)] assms(2,3) by simp
  then have "reachable (loaded m i (printed st')) import_step s"
    using reachable_weaken [OF assms(4), of "loaded m i (printed st')"] by blast
  then have "loaded m i (printed st') s" by (rule loaded_module.reachable_inv)
  then show ?thesis
    by (auto simp: loaded_def pymod_exec_simple_def pymod_create_def check_single_interpreter_def)
qed

definition demo_exec :: exec_api where
  "demo_exec = \<lparr>call_result = (\<lambda>_. None), second_result = second_function (\<lambda>_. True) (\<lambda>_ _. True),
     print_ok = True, module_is_main = False, in_modules = False\<rparr>"

lemma run_calls_None: "(\<forall>c \<in> set cs. f c = None) \<Longrightarrow> run_calls f cs = None"
  by (induction cs) auto

lemma demo_exec_prints_None:
  "pymod_exec_simple demo_exec 5 (module_start\<lparr>main_interpreter_id := 0\<rparr>)
    = (Ret (), \<lparr>pyx_m = Some 5, main_interpreter_id = 0, printed = [''None'']\<rparr>)"
proof -
  have "second_result demo_exec = Ret NoneV"
    using second_loop_sum [of "\<lambda>_. True" "\<lambda>_ _. True" 0 0] by (simp add: demo_exec_def second_function_def)
  moreover have "run_calls (call_result demo_exec) cs = None" for cs
    by (rule run_calls_None) (simp add: demo_exec_def)
  moreover have "print_ok demo_exec" by (simp add: demo_exec_def)
  ultimately show ?thesis by (simp add: pymod_exec_simple_def run_module_def Let_def module_start_def)
qed

theorem module_initialised_once_witness:
  "throws (fst (pymod_exec_simple demo_exec 6 \<lparr>pyx_m = Some 5, main_interpreter_id = 0, printed = [''None'']\<rparr>))"
  using module_initialised_once [OF demo_exec_prints_None _ _ reachable_initial, of 0 demo_exec 6]
  by (simp add: module_start_def)

end
