(* ===== verification/Cython_Types.thy ===== *)
theory Cython_Types
  imports Cython_Class Cython_Init
begin

text \<open>
  The initialisation of the class in \<open>cjunk/cython/simple.cpp\<close> (\<open>__Pyx_modinit_type_init_code\<close>,
  \<open>__Pyx_SetVtable\<close>) as part of the execution of the module.  The class is a static object: it keeps what
  an execution did to it when the module object is given up after an error.
\<close>

section \<open>The class object\<close>

record 'o class_obj =
  type_ready :: bool
  cls_dict :: "'o class_dict"
  vtab_ptr :: bool
  pyx_getattro :: bool
  in_module :: bool
  ptype_set :: bool

text \<open>
  The interpreter's part: the errors of \<open>PyType_Ready\<close>, of the insertion of the method table and of the
  assignment to the module, the dictionary a fresh class gets, and what \<open>__Pyx_setup_reduce\<close> uses.
\<close>

record 'o type_api =
  ready_error :: "py_error option"
  ready_dict :: "'o class_dict"
  has_dictoffset :: bool
  capsule_new :: "py_error + 'o"
  vtable_error :: "py_error option"
  add_error :: "py_error option"
  reduce_part :: "'o reduce_api"

definition class_start :: "'o class_obj" where
  "class_start = \<lparr>type_ready = False, cls_dict = Map.empty, vtab_ptr = False, pyx_getattro = False,
     in_module = False, ptype_set = False\<rparr>"

text \<open>\<open>PyType_Ready\<close> returns at once for a class that is ready.\<close>

definition PyType_Ready :: "'o type_api \<Rightarrow> 'o class_obj \<Rightarrow> (py_error, unit) outcome \<times> 'o class_obj" where
  "PyType_Ready api c =
     (if type_ready c then (Ret (), c)
      else case ready_error api of
        Some e \<Rightarrow> (Throw e, c)
      | None \<Rightarrow> (Ret (), c\<lparr>type_ready := True, cls_dict := ready_dict api\<rparr>))"

definition SetVtable :: "'o type_api \<Rightarrow> 'o class_dict \<Rightarrow> (py_error, unit) outcome \<times> 'o class_dict" where
  "SetVtable api d =
     (case capsule_new api of
        Inr ob \<Rightarrow> (case vtable_error api of
                     Some e \<Rightarrow> (Throw e, d)
                   | None \<Rightarrow> (Ret (), d(''__pyx_vtable__'' \<mapsto> ob)))
      | Inl e \<Rightarrow> (Throw e, d))"

definition type_init_code :: "'o type_api \<Rightarrow> 'o class_obj \<Rightarrow> (py_error, unit) outcome \<times> 'o class_obj" where
  "type_init_code api c0 =
     (let c = c0\<lparr>vtab_ptr := True\<rparr>
      in case PyType_Ready api c of
        (Ret _, c1) \<Rightarrow>
          (let c2 = (if \<not> has_dictoffset api then c1\<lparr>pyx_getattro := True\<rparr> else c1)
           in case SetVtable api (cls_dict c2) of
             (Ret _, d) \<Rightarrow>
               (let c3 = c2\<lparr>cls_dict := d\<rparr>
                in case add_error api of
                  Some e \<Rightarrow> (Throw e, c3)
                | None \<Rightarrow>
                    (let c4 = c3\<lparr>in_module := True\<rparr>
                     in case setup_reduce (reduce_part api) d of
                       (Ret _, d') \<Rightarrow> (Ret (), c4\<lparr>cls_dict := d', ptype_set := True\<rparr>)
                     | (r, d') \<Rightarrow> (r, c4\<lparr>cls_dict := d'\<rparr>)))
           | (r, d) \<Rightarrow> (r, c2))
      | (r, c1) \<Rightarrow> (r, c1))"

text \<open>
  \<open>a_class.memberA\<close> returns the attribute \<open>__name__\<close> of the instance; an error adds an entry to the
  traceback with the function's name and the line of the source.  The look-up is that of the class, which
  \<open>descr_get\<close> may bind; instances have no dictionary.
\<close>

definition memberA ::
  "'o type_api \<Rightarrow> 'o class_obj \<Rightarrow> ('o \<Rightarrow> (py_error, 'o) outcome option)
    \<Rightarrow> (py_error, 'o) outcome \<times> (string \<times> nat) list" where
  "memberA capi c descr_get =
     (let r = GenericGetAttr False (\<lambda>_. Throw Undefined_Behaviour) ''simple.a_class''
                (type_attr (reduce_part capi) (cls_dict c)) descr_get ''__name__''
      in (r, case r of Throw _ \<Rightarrow> [(''simple.a_class.memberA'', 11)] | _ \<Rightarrow> []))"

section \<open>Execution of the module with its class\<close>

text \<open>
  The four calls of the class's initialisation run one after the other, so that their joint result can
  stand for the first of them; the initialisation is reached when the calls before it succeed.
\<close>

definition error_of :: "(py_error, unit) outcome \<Rightarrow> py_error option" where
  "error_of r = (case r of Throw e \<Rightarrow> Some e | _ \<Rightarrow> None)"

definition with_class :: "'o type_api \<Rightarrow> 'o class_obj \<Rightarrow> exec_api \<Rightarrow> exec_api" where
  "with_class capi c api = api\<lparr>call_result := (call_result api)
     (Type_ready := error_of (fst (type_init_code capi c)), Set_vtable := None, Add_class := None, Setup_reduce := None)\<rparr>"

definition before_class :: "exec_api \<Rightarrow> init_call list" where
  "before_class api = early_calls @ takeWhile (\<lambda>k. k \<noteq> Type_ready) (init_calls api)"

definition exec_with_class ::
  "exec_api \<Rightarrow> 'o type_api \<Rightarrow> nat \<Rightarrow> module_state \<times> 'o class_obj
    \<Rightarrow> (py_error, unit) outcome \<times> module_state \<times> 'o class_obj" where
  "exec_with_class api capi m s =
     (let (r, st) = pymod_exec_simple (with_class capi (snd s) api) m (fst s);
          reached = (pyx_m (fst s) = None \<and> run_calls (call_result api) (before_class api) = None)
      in (r, st, if reached then snd (type_init_code capi (snd s)) else snd s))"

section \<open>A class that was set up cannot be set up again\<close>

text \<open>What the installation of the pickling methods leaves behind, and what no later attempt changes.\<close>

definition used_up :: "'o reduce_api \<Rightarrow> 'o class_dict \<Rightarrow> bool" where
  "used_up api d \<longleftrightarrow> type_attr api d ''__getstate__'' = None
     \<and> object_attrs api ''__reduce_ex__'' \<noteq> None \<and> type_attr api d ''__reduce_ex__'' = object_attrs api ''__reduce_ex__''
     \<and> object_attrs api ''__reduce__'' \<noteq> None
     \<and> (\<exists>rc. d ''__reduce__'' = Some rc \<and> meth_name api rc = Ret ''__reduce_cython__'')
     \<and> type_attr api d ''__reduce_cython__'' = None"

lemma used_up_vtable [simp]: "used_up api (d(''__pyx_vtable__'' \<mapsto> v)) = used_up api d"
  by (simp add: used_up_def type_attr_def)

lemma used_up_setup:
  "used_up api d \<Longrightarrow> setup_reduce api d = (Throw (no_attribute api ''__reduce_cython__''), d)"
  by (auto simp: used_up_def setup_reduce_def setup_reduce_methods_def setup_reduce_is_named_def type_attr_def
      split: option.splits)

lemma generated_vtable [simp]:
  "generated_class api (d(''__pyx_vtable__'' \<mapsto> v)) rc sc = generated_class api d rc sc"
  by (simp add: generated_class_def)

lemma generated_used_up: "generated_class api d rc sc \<Longrightarrow> used_up api (pickling_installed d rc sc)"
  by (auto simp: generated_class_def used_up_def pickling_installed_def type_attr_def)

lemma type_init_success:
  assumes "generated_class (reduce_part capi) (ready_dict capi) rc sc"
    and "ready_error capi = None" "capsule_new capi = Inr v" "vtable_error capi = None" "add_error capi = None"
  shows "type_init_code capi class_start = (Ret (),
    \<lparr>type_ready = True, cls_dict = pickling_installed ((ready_dict capi)(''__pyx_vtable__'' \<mapsto> v)) rc sc,
     vtab_ptr = True, pyx_getattro = (\<not> has_dictoffset capi), in_module = True, ptype_set = True\<rparr>)"
proof -
  have "setup_reduce (reduce_part capi) ((ready_dict capi)(''__pyx_vtable__'' \<mapsto> v))
      = (Ret (), pickling_installed ((ready_dict capi)(''__pyx_vtable__'' \<mapsto> v)) rc sc)"
    using assms(1) by (intro setup_reduce_installs) simp
  then show ?thesis
    using assms(2-5) by (simp add: type_init_code_def PyType_Ready_def SetVtable_def class_start_def)
qed

text \<open>
  After the class is set up \<open>memberA\<close> always fails: neither the class's dictionary nor \<open>object\<close> has
  \<open>__name__\<close>, which the interpreter keeps in the type of classes.
\<close>

lemma memberA_raises:
  assumes "generated_class (reduce_part capi) (ready_dict capi) rc sc"
    and "ready_error capi = None" "capsule_new capi = Inr v" "vtable_error capi = None" "add_error capi = None"
    and "ready_dict capi ''__name__'' = None" "inherited (reduce_part capi) ''__name__'' = None"
  shows "\<exists>msg. memberA capi (snd (type_init_code capi class_start)) descr_get
    = (Throw (AttributeError msg), [(''simple.a_class.memberA'', 11)])"
  using type_init_success [OF assms(1-5)] assms(6,7)
  by (simp add: memberA_def GenericGetAttr_def GenericGetAttrNoDict_def type_attr_def pickling_installed_def)

lemma type_init_used_up:
  assumes "type_ready c" "used_up (reduce_part capi) (cls_dict c)"
  shows "(\<exists>e. fst (type_init_code capi c) = Throw e) \<and> type_ready (snd (type_init_code capi c))
    \<and> used_up (reduce_part capi) (cls_dict (snd (type_init_code capi c)))"
proof -
  have "used_up (reduce_part capi) ((cls_dict c)(''__pyx_vtable__'' \<mapsto> v))" for v using assms(2) by simp
  note later = used_up_setup [OF this]
  show ?thesis
    using assms by (auto simp: type_init_code_def PyType_Ready_def SetVtable_def Let_def later split: sum.splits option.splits)
qed

lemma run_calls_fails: "c \<in> set cs \<Longrightarrow> f c = Some e \<Longrightarrow> run_calls f cs \<noteq> None"
  by (induction cs) (auto split: option.splits)

lemma exec_type_error:
  assumes "pyx_m st = None" "call_result api Type_ready = Some e"
  shows "throws (fst (pymod_exec_simple api m st)) \<and> pyx_m (snd (pymod_exec_simple api m st)) = None"
proof -
  have "Type_ready \<in> set (init_calls api)" by (simp add: init_calls_def modinit_type_init_code_def)
  then obtain e' where "run_calls (call_result api) (init_calls api) = Some e'"
    using run_calls_fails [of Type_ready "init_calls api" "call_result api" e] assms(2) by auto
  then show ?thesis
    using assms(1) by (auto simp: pymod_exec_simple_def run_module_def Let_def throws_def split: option.splits)
qed

text \<open>Further attempts, whatever the interpreter's calls return in them; the class keeps its attributes.\<close>

inductive retry_step ::
  "'o reduce_api \<Rightarrow> module_state \<times> 'o class_obj \<Rightarrow> module_state \<times> 'o class_obj \<Rightarrow> bool" for R where
  retry: "reduce_part capi = R \<Longrightarrow> retry_step R s (snd (exec_with_class api capi m s))"

inductive_cases retry_stepE: "retry_step R s s'"

definition stuck :: "'o reduce_api \<Rightarrow> module_state \<times> 'o class_obj \<Rightarrow> bool" where
  "stuck R s \<longleftrightarrow> pyx_m (fst s) = None \<and> type_ready (snd s) \<and> used_up R (cls_dict (snd s))"

lemma stuck_exec:
  assumes "stuck R s" "reduce_part capi = R"
  shows "throws (fst (exec_with_class api capi m s)) \<and> stuck R (snd (exec_with_class api capi m s))"
proof -
  obtain e where t: "fst (type_init_code capi (snd s)) = Throw e" "type_ready (snd (type_init_code capi (snd s)))"
    "used_up R (cls_dict (snd (type_init_code capi (snd s))))"
    using type_init_used_up [of "snd s" capi] assms by (auto simp: stuck_def)
  have "call_result (with_class capi (snd s) api) Type_ready = Some e" using t(1) by (simp add: with_class_def error_of_def)
  then show ?thesis
    using exec_type_error [of "fst s" "with_class capi (snd s) api" e m] t assms(1)
    by (auto simp: exec_with_class_def stuck_def case_prod_beta Let_def)
qed

interpretation failed_import: step_invariant "stuck R" "retry_step R" "stuck R" for R
  by unfold_locales (auto elim!: retry_stepE simp: stuck_exec)

lemma exec_failed:
  assumes "pymod_exec_simple api m st = (Throw e, st')" "pyx_m st = None"
  shows "pyx_m st' = None"
  using assms by (auto simp: pymod_exec_simple_def Let_def split: option.splits prod.splits if_splits)

text \<open>
  C24: a failed import is final.  When an execution of the module fails after it has set up the class, no
  later attempt in the same process succeeds, with whatever module object and whatever the
  interpreter's calls return: the class is found ready, its generated method has lost its name, and the
  second installation of the pickling methods raises an error.
\<close>

theorem failed_import_final:
  assumes "generated_class R (ready_dict capi) rc sc" "reduce_part capi = R"
    and "exec_with_class api capi m (st, class_start) = (Throw e, s1)" "pyx_m st = None"
    and "run_calls (call_result api) (before_class api) = None" "fst (type_init_code capi class_start) = Ret ()"
    and "reachable ((=) s1) (retry_step R) s" "reduce_part capi' = R"
  shows "throws (fst (exec_with_class api' capi' m' s))"
proof -
  from assms(6) obtain v where ok: "ready_error capi = None" "capsule_new capi = Inr v" "vtable_error capi = None"
    "add_error capi = None"
    by (auto simp: type_init_code_def PyType_Ready_def SetVtable_def class_start_def Let_def
        split: option.splits sum.splits prod.splits outcome.splits)
  have "snd s1 = snd (type_init_code capi class_start)" "pyx_m (fst s1) = None"
    using assms(3-5) exec_failed [of "with_class capi class_start api" m st e "fst s1"]
    by (auto simp: exec_with_class_def case_prod_beta Let_def prod_eq_iff)
  moreover have "used_up R (pickling_installed ((ready_dict capi)(''__pyx_vtable__'' \<mapsto> v)) rc sc)"
    using assms(1) by (intro generated_used_up) simp
  ultimately have "stuck R s1"
    using type_init_success [OF _ ok, of rc sc] assms(1,2) by (simp add: stuck_def)
  then have "stuck R s"
    using failed_import.reachable_inv [OF reachable_weaken [OF assms(7), of "stuck R"]] by blast
  then show ?thesis using stuck_exec assms(8) by blast
qed

text \<open>An execution that fails when its last call has no memory.\<close>

definition demo_type :: "nat type_api" where
  "demo_type = \<lparr>ready_error = None, ready_dict = [''__reduce_cython__'' \<mapsto> 3, ''__setstate_cython__'' \<mapsto> 4],
     has_dictoffset = False, capsule_new = Inr 9, vtable_error = None, add_error = None, reduce_part = demo_class\<rparr>"

definition demo_failing :: exec_api where
  "demo_failing = demo_exec\<lparr>call_result := (\<lambda>c. if c = Add_test_dict then Some (Py_Raised ''MemoryError'') else None)\<rparr>"

lemma demo_type_generated: "generated_class demo_class (ready_dict demo_type) 3 4"
  by (simp add: generated_class_def demo_class_def demo_object_def demo_type_def)

lemma demo_type_init: "fst (type_init_code demo_type class_start) = Ret ()"
  using type_init_success [of demo_type 3 4 9] demo_type_generated by (simp add: demo_type_def)

lemma demo_failing_exec:
  "fst (exec_with_class demo_failing demo_type 5 (module_start\<lparr>main_interpreter_id := 0\<rparr>, class_start))
    = Throw (Py_Raised ''MemoryError'')"
proof -
  let ?api = "with_class demo_type class_start demo_failing"
  have f: "call_result ?api = (\<lambda>c. if c = Add_test_dict then Some (Py_Raised ''MemoryError'') else None)"
    by (auto simp: with_class_def demo_failing_def error_of_def demo_type_init)
  have "run_calls (call_result ?api) early_calls = None" "run_calls (call_result ?api) (init_calls ?api) = None"
    unfolding f by (rule run_calls_None, simp add: early_calls_def init_calls_def InitGlobals_def InitCachedBuiltins_def
        InitCachedConstants_def modinit_type_init_code_def with_class_def demo_failing_def demo_exec_def)+
  moreover have "run_calls (call_result ?api) final_calls = Some (Py_Raised ''MemoryError'')"
    unfolding f by (simp add: final_calls_def)
  moreover have "second_result ?api = Ret NoneV" "print_ok ?api"
    using second_loop_sum [of "\<lambda>_. True" "\<lambda>_ _. True" 0 0]
    by (simp_all add: with_class_def demo_failing_def demo_exec_def second_function_def)
  ultimately show ?thesis
    by (simp add: exec_with_class_def pymod_exec_simple_def run_module_def Let_def module_start_def case_prod_beta)
qed

theorem failed_import_final_witness:
  "throws (fst (exec_with_class demo_exec demo_type 6
     (snd (exec_with_class demo_failing demo_type 5 (module_start\<lparr>main_interpreter_id := 0\<rparr>, class_start)))))"
proof (rule failed_import_final [OF demo_type_generated])
  show "exec_with_class demo_failing demo_type 5 (module_start\<lparr>main_interpreter_id := 0\<rparr>, class_start)
      = (Throw (Py_Raised ''MemoryError''),
         snd (exec_with_class demo_failing demo_type 5 (module_start\<lparr>main_interpreter_id := 0\<rparr>, class_start)))"
    using demo_failing_exec by (simp add: prod_eq_iff)
  show "run_calls (call_result demo_failing) (before_class demo_failing) = None"
    by (rule run_calls_None)
      (simp add: before_class_def early_calls_def init_calls_def InitGlobals_def InitCachedBuiltins_def
        InitCachedConstants_def modinit_type_init_code_def demo_failing_def demo_exec_def)
qed (simp_all add: demo_type_def demo_type_init [unfolded demo_type_def] module_start_def reachable_initial)

end
