(* ===== verification/Cython_Strings.thy ===== *)
theory Cython_Strings
  imports Cython_Ints Cxx_Lib
begin

text \<open>
  The strings of the extension module \<open>cjunk/cython/simple.cpp\<close>: the table \<open>__pyx_string_tab\<close> of the
  names the module uses, their creation by \<open>__Pyx_InitStrings\<close>, the comparison of versions by
  \<open>__Pyx_check_binary_version\<close>, and truth values and texts of objects (\<open>__Pyx_PyObject_IsTrue\<close>,
  \<open>__Pyx_PyObject_AsStringAndSize\<close>).  The functions of the interpreter that create objects are arguments.
\<close>

section \<open>The string table\<close>

text \<open>An entry: the variable, the character array with its final NUL and its size, the encoding and the three flags.\<close>

record StringTabEntry =
  tab_p :: string
  tab_s :: string
  tab_n :: nat
  tab_encoding :: "string option"
  tab_is_unicode :: bool
  tab_is_str :: bool
  tab_intern :: bool

definition string_entry :: "string \<Rightarrow> string \<Rightarrow> bool \<Rightarrow> StringTabEntry" where
  "string_entry var txt intrn =
     \<lparr>tab_p = var, tab_s = txt @ [NUL], tab_n = length txt + 1, tab_encoding = None,
      tab_is_unicode = False, tab_is_str = True, tab_intern = intrn\<rparr>"

definition string_tab :: "StringTabEntry list" where
  "string_tab =
     [string_entry ''kp_s_Incompatible_checksums_s_vs_0xd4'' ''Incompatible checksums (%s vs 0xd41d8cd = ())'' False,
      string_entry ''n_s_PickleError'' ''PickleError'' True,
      string_entry ''n_s_a_class'' ''a_class'' True,
      string_entry ''n_s_cline_in_traceback'' ''cline_in_traceback'' True,
      string_entry ''n_s_dict'' ''__dict__'' True,
      string_entry ''n_s_getstate'' ''__getstate__'' True,
      string_entry ''n_s_import'' ''__import__'' True,
      string_entry ''n_s_main'' ''__main__'' True,
      string_entry ''n_s_name'' ''__name__'' True,
      string_entry ''n_s_new'' ''__new__'' True,
      string_entry ''n_s_pickle'' ''pickle'' True,
      string_entry ''n_s_print'' ''print'' True,
      string_entry ''n_s_pyx_PickleError'' ''__pyx_PickleError'' True,
      string_entry ''n_s_pyx_checksum'' ''__pyx_checksum'' True,
      string_entry ''n_s_pyx_result'' ''__pyx_result'' True,
      string_entry ''n_s_pyx_state'' ''__pyx_state'' True,
      string_entry ''n_s_pyx_type'' ''__pyx_type'' True,
      string_entry ''n_s_pyx_unpickle_a_class'' ''__pyx_unpickle_a_class'' True,
      string_entry ''n_s_pyx_vtable'' ''__pyx_vtable__'' True,
      string_entry ''n_s_range'' ''range'' True,
      string_entry ''n_s_reduce'' ''__reduce__'' True,
      string_entry ''n_s_reduce_cython'' ''__reduce_cython__'' True,
      string_entry ''n_s_reduce_ex'' ''__reduce_ex__'' True,
      string_entry ''n_s_setstate'' ''__setstate__'' True,
      string_entry ''n_s_setstate_cython'' ''__setstate_cython__'' True,
      string_entry ''n_s_simple'' ''simple'' True,
      string_entry ''kp_s_stringsource'' ''stringsource'' False,
      string_entry ''n_s_test'' ''__test__'' True,
      string_entry ''n_s_update'' ''update'' True]"

record 'o string_api =
  intern_from_string :: "string \<Rightarrow> 'o option"
  unicode_decode :: "string \<Rightarrow> string \<Rightarrow> 'o option"
  unicode_from :: "string \<Rightarrow> 'o option"
  bytes_from :: "string \<Rightarrow> 'o option"
  hash_ok :: "'o \<Rightarrow> bool"

definition make_string :: "'o string_api \<Rightarrow> StringTabEntry \<Rightarrow> 'o option" where
  "make_string api t =
     (let sized = take (tab_n t - 1) (tab_s t)
      in if tab_is_unicode t \<or> tab_is_str t
         then if tab_intern t then intern_from_string api (until_nul (tab_s t))
              else (case tab_encoding t of Some e \<Rightarrow> unicode_decode api sized e | None \<Rightarrow> unicode_from api sized)
         else bytes_from api sized)"

text \<open>The loop stores what was created, also a null pointer, before it tests it.\<close>

fun InitStrings :: "'o string_api \<Rightarrow> StringTabEntry list \<Rightarrow> (string \<rightharpoonup> 'o) \<Rightarrow> bool \<times> (string \<rightharpoonup> 'o)" where
  "InitStrings api [] vars = (True, vars)"
| "InitStrings api (t # ts) vars =
     (let r = make_string api t; vars' = vars(tab_p t := r)
      in case r of
           None \<Rightarrow> (False, vars')
         | Some v \<Rightarrow> if \<not> hash_ok api v then (False, vars') else InitStrings api ts vars')"

section \<open>Versions\<close>

text \<open>An element of a four-character array that \<open>PyOS_snprintf\<close> filled with at most three characters and NUL.\<close>

definition buffer4_at :: "string \<Rightarrow> nat \<Rightarrow> (py_error, char) outcome" where
  "buffer4_at s i =
     (let t = take 3 s
      in if i < length t then Ret (t ! i) else if i = length t then Ret NUL else Throw Undefined_Behaviour)"

text \<open>\<open>warn\<close> is the result of the warning, which may be turned into an exception.\<close>

definition check_binary_version ::
  "nat \<Rightarrow> nat \<Rightarrow> string \<Rightarrow> (string \<Rightarrow> (py_error, unit) outcome) \<Rightarrow> (py_error, unit) outcome" where
  "check_binary_version major minor version warn =
     (let ct = nat_to_string major @ ''.'' @ nat_to_string minor
      in obind (buffer4_at ct 0) (\<lambda>c0. obind (buffer4_at version 0) (\<lambda>r0.
         if c0 \<noteq> r0
         then warn (''compiletime version '' @ take 3 ct @ '' of module '' @ [CHR 0x27] @ ''simple'' @ [CHR 0x27]
                @ '' does not match runtime version '' @ take 3 version)
         else obind (buffer4_at ct 2) (\<lambda>c2. obind (buffer4_at version 2) (\<lambda>r2.
           if c2 \<noteq> r2
           then warn (''compiletime version '' @ take 3 ct @ '' of module '' @ [CHR 0x27] @ ''simple'' @ [CHR 0x27]
                  @ '' does not match runtime version '' @ take 3 version)
           else Ret ())))))"

section \<open>Truth values and texts of objects\<close>

datatype 'o truth_obj = Py_True | Py_False | Py_NoneObj | Py_Other 'o

definition PyObject_IsTrue :: "('o \<Rightarrow> (py_error, bool) outcome) \<Rightarrow> 'o truth_obj \<Rightarrow> (py_error, bool) outcome" where
  "PyObject_IsTrue is_true x =
     (case x of
        Py_Other v \<Rightarrow> is_true v
      | _ \<Rightarrow> Ret (x = Py_True))"

definition PyObject_IsTrueAndDecref ::
  "('o \<Rightarrow> (py_error, bool) outcome) \<Rightarrow> py_error \<Rightarrow> 'o truth_obj option \<Rightarrow> (py_error, bool) outcome" where
  "PyObject_IsTrueAndDecref is_true pending x = (case x of None \<Rightarrow> Throw pending | Some v \<Rightarrow> PyObject_IsTrue is_true v)"

datatype 'o text_obj = ByteArray string | Text_Other 'o

definition PyObject_AsStringAndSize :: "('o \<Rightarrow> (py_error, string) outcome) \<Rightarrow> 'o text_obj \<Rightarrow> (py_error, string) outcome" where
  "PyObject_AsStringAndSize bytes_as_string x =
     (case x of ByteArray s \<Rightarrow> Ret s | Text_Other v \<Rightarrow> bytes_as_string v)"

section \<open>Properties\<close>

lemma string_tab_vars: "distinct (map tab_p string_tab) \<and> length string_tab = 29"
  unfolding string_tab_def string_entry_def by simp

lemma make_string_entry:
  "NUL \<notin> set txt \<Longrightarrow>
   make_string api (string_entry var txt intrn) = (if intrn then intern_from_string api txt else unicode_from api txt)"
  by (simp add: make_string_def string_entry_def until_nul_append)

lemma tab_p_entry [simp]: "tab_p (string_entry var txt intrn) = var"
  by (simp add: string_entry_def)

lemma InitStrings_frame:
  "v \<notin> tab_p ` set ts \<Longrightarrow> snd (InitStrings api ts vars) v = vars v"
  by (induction api ts vars rule: InitStrings.induct) (auto simp: Let_def split: option.split)

lemma InitStrings_ok:
  "distinct (map tab_p ts) \<Longrightarrow>
   fst (InitStrings api ts vars) \<longleftrightarrow> (\<forall>t \<in> set ts. \<exists>v. make_string api t = Some v \<and> hash_ok api v)"
  by (induction api ts vars rule: InitStrings.induct) (auto simp: Let_def split: option.split)

lemma InitStrings_vars:
  "distinct (map tab_p ts) \<Longrightarrow> fst (InitStrings api ts vars) \<Longrightarrow> t \<in> set ts \<Longrightarrow>
   snd (InitStrings api ts vars) (tab_p t) = make_string api t"
  by (induction api ts vars rule: InitStrings.induct)
    (auto simp: Let_def InitStrings_frame split: option.splits if_splits)

lemma string_tab_entries: "t \<in> set string_tab \<Longrightarrow> NUL \<notin> set (butlast (tab_s t))"
  unfolding string_tab_def string_entry_def by auto

lemma string_tab_texts: "string_entry var txt intrn \<in> set string_tab \<Longrightarrow> NUL \<notin> set txt"
  using string_tab_entries [of "string_entry var txt intrn"] by (simp add: string_entry_def)

text \<open>
  the module's names are created from its table.  \<open>__Pyx_InitStrings\<close> succeeds exactly when
  every string of the table can be created and hashed; then every variable holds the string of its own
  entry, interned where the entry asks for it and without the final NUL, and no other variable is written.
\<close>

theorem string_tab_initialised:
  "(fst (InitStrings api string_tab vars) \<longleftrightarrow>
      (\<forall>t \<in> set string_tab. \<exists>v. make_string api t = Some v \<and> hash_ok api v))
   \<and> (fst (InitStrings api string_tab vars) \<and> string_entry var txt intrn \<in> set string_tab \<longrightarrow>
      snd (InitStrings api string_tab vars) var = (if intrn then intern_from_string api txt else unicode_from api txt))
   \<and> (other \<notin> tab_p ` set string_tab \<longrightarrow> snd (InitStrings api string_tab vars) other = vars other)"
proof (intro conjI impI)
  show "fst (InitStrings api string_tab vars) \<longleftrightarrow>
      (\<forall>t \<in> set string_tab. \<exists>v. make_string api t = Some v \<and> hash_ok api v)"
    using InitStrings_ok string_tab_vars by blast
next
  assume *: "fst (InitStrings api string_tab vars) \<and> string_entry var txt intrn \<in> set string_tab"
  then have "snd (InitStrings api string_tab vars) (tab_p (string_entry var txt intrn))
      = make_string api (string_entry var txt intrn)"
    using InitStrings_vars string_tab_vars by blast
  then show "snd (InitStrings api string_tab vars) var
      = (if intrn then intern_from_string api txt else unicode_from api txt)"
    by (simp add: make_string_entry [OF string_tab_texts [OF conjunct2 [OF *]]])
qed (rule InitStrings_frame)

definition demo_strings :: "string string_api" where
  "demo_strings = \<lparr>intern_from_string = Some, unicode_decode = (\<lambda>_ _. None), unicode_from = Some,
     bytes_from = (\<lambda>_. None), hash_ok = (\<lambda>_. True)\<rparr>"

lemma demo_strings_entries: "\<forall>t \<in> set string_tab. \<exists>v. make_string demo_strings t = Some v \<and> hash_ok demo_strings v"
  unfolding string_tab_def by (simp add: make_string_entry) (simp add: demo_strings_def)

theorem string_tab_initialised_witness:
  "snd (InitStrings demo_strings string_tab Map.empty) ''n_s_reduce'' = Some ''__reduce__''"
proof -
  have "string_entry ''n_s_reduce'' ''__reduce__'' True \<in> set string_tab" by (simp add: string_tab_def)
  then show ?thesis
    using string_tab_initialised [of demo_strings Map.empty "''n_s_reduce''" "''__reduce__''" True] demo_strings_entries
    by (simp add: demo_strings_def)
qed

lemma digit_char_inj: "a < 10 \<Longrightarrow> b < 10 \<Longrightarrow> digit_char a = digit_char b \<longleftrightarrow> a = b"
  by (metis digit_val_digit_char)

lemma nat_to_string_digit: "n < 10 \<Longrightarrow> nat_to_string n = [digit_char n]"
  by (subst nat_to_string.simps) simp

text \<open>
  For versions of one digit each the check warns exactly when major or minor version differ; the
  arrays have four characters, so that of a minor version of two digits only the first is compared.
\<close>

theorem binary_version_check:
  assumes "major < 10" "major' < 10" "minor < 10" "minor' < 10"
  shows "check_binary_version major minor (nat_to_string major' @ ''.'' @ nat_to_string minor' @ ''.'' @ rest)
      (\<lambda>_. Throw e) = (if major = major' \<and> minor = minor' then Ret () else Throw e)"
  using assms
  by (simp add: check_binary_version_def nat_to_string_digit buffer4_at_def digit_char_inj numeral_2_eq_2)

lemma binary_version_two_digits: "check_binary_version 3 10 ''3.11.4 (main)'' warn = Ret ()"
  by (simp add: check_binary_version_def nat_to_string.simps buffer4_at_def digit_char_def)

end
