(* ===== verification/Cython_Call.thy ===== *)
theory Cython_Call
  imports Cython_Ints
begin

unbundle bit_operations_syntax

text \<open>
  Calls in the extension module \<open>cjunk/cython/simple.cpp\<close>: how it calls Python functions with and without
  a frame of its own (\<open>__Pyx_PyFunction_FastCallDict\<close>), built-in functions
  (\<open>__Pyx_PyCFunction_FastCall\<close>, \<open>__Pyx_PyObject_CallMethO\<close>) and other objects
  (\<open>__Pyx_PyObject_Call\<close>), with one argument or two.  A C function of the interpreter returns an object or a
  null pointer and works on the thread's state: the depth of recursion and the pending exception.  The
  interpreter's evaluation functions are members of the objects; the file's assertions are compiled out.
\<close>

section \<open>The thread and the callable objects\<close>

record py_thread =
  recursion_depth :: nat
  pending :: "py_error option"

type_synonym 'o c_call = "py_thread \<Rightarrow> 'o option \<times> py_thread"

text \<open>The interpreter's test for too deep a recursion: an error does not count as entered.\<close>

definition EnterRecursiveCall :: "nat \<Rightarrow> py_thread \<Rightarrow> bool \<times> py_thread" where
  "EnterRecursiveCall limit st =
     (if recursion_depth st \<ge> limit
      then (True, st\<lparr>pending := Some (RecursionError ''maximum recursion depth exceeded while calling a Python object'')\<rparr>)
      else (False, st\<lparr>recursion_depth := recursion_depth st + 1\<rparr>))"

definition LeaveRecursiveCall :: "py_thread \<Rightarrow> py_thread" where
  "LeaveRecursiveCall st = st\<lparr>recursion_depth := recursion_depth st - 1\<rparr>"

text \<open>The two around the work of a call.\<close>

definition recursive_call :: "nat \<Rightarrow> 'o c_call \<Rightarrow> 'o c_call" where
  "recursive_call limit body st =
     (let (too_deep, st1) = EnterRecursiveCall limit st
      in if too_deep then (None, st1) else let (r, st2) = body st1 in (r, LeaveRecursiveCall st2))"

record code_obj =
  co_argcount :: nat
  co_kwonlyargcount :: nat
  co_flags :: "32 word"

record 'o py_function =
  func_code :: code_obj
  func_defaults :: "'o list option"
  frame_new :: bool
  kwtuple_new :: bool
  eval_frame :: "'o list \<Rightarrow> 'o c_call"
  eval_code :: "'o list \<Rightarrow> (string \<times> 'o) list \<Rightarrow> 'o list \<Rightarrow> 'o c_call"

record 'o c_function =
  cf_flags :: "32 word"
  cf_one :: "'o \<Rightarrow> 'o c_call"
  cf_fast :: "'o list \<Rightarrow> 'o c_call"
  cf_fast_keywords :: "'o list \<Rightarrow> 'o c_call"

record 'o callable =
  as_function :: "'o py_function option"
  as_cfunction :: "'o c_function option"
  tp_call :: "('o list \<Rightarrow> (string \<times> 'o) list option \<Rightarrow> 'o c_call) option"
  lib_call :: "'o list \<Rightarrow> (string \<times> 'o) list option \<Rightarrow> 'o c_call"

definition no_memory :: "'o c_call" where
  "no_memory st = (None, st\<lparr>pending := Some (Py_Raised ''MemoryError'')\<rparr>)"

section \<open>Python functions\<close>

text \<open>
  The arguments become the first local variables of a new frame.  The depth is raised while the
  frame is released, since that may run code.
\<close>

definition FastCallNoKw :: "'o py_function \<Rightarrow> 'o list \<Rightarrow> 'o c_call" where
  "FastCallNoKw f args st =
     (if \<not> frame_new f then no_memory st
      else let (r, st1) = eval_frame f args st;
               st2 = st1\<lparr>recursion_depth := recursion_depth st1 + 1\<rparr>
           in (r, st2\<lparr>recursion_depth := recursion_depth st2 - 1\<rparr>))"

definition simple_flags :: "32 word" where
  "simple_flags = 0x1 OR 0x2 OR 0x40"

text \<open>The general path hands keywords and defaults to the interpreter.\<close>

definition eval_general :: "'o py_function \<Rightarrow> 'o list \<Rightarrow> (string \<times> 'o) list option \<Rightarrow> 'o c_call" where
  "eval_general f args kwargs st =
     (case kwargs of
        Some kw \<Rightarrow> if \<not> kwtuple_new f then no_memory st
                    else eval_code f args kw (case func_defaults f of Some d \<Rightarrow> d | None \<Rightarrow> []) st
      | None \<Rightarrow> eval_code f args [] (case func_defaults f of Some d \<Rightarrow> d | None \<Rightarrow> []) st)"

definition FastCallDict :: "nat \<Rightarrow> 'o py_function \<Rightarrow> 'o list \<Rightarrow> (string \<times> 'o) list option \<Rightarrow> 'o c_call" where
  "FastCallDict limit f args kwargs =
     (let co = func_code f
      in recursive_call limit
        (if co_kwonlyargcount co = 0 \<and> (kwargs = None \<or> kwargs = Some []) \<and> co_flags co = simple_flags
         then if func_defaults f = None \<and> co_argcount co = length args then FastCallNoKw f args
              else (case func_defaults f of
                      Some d \<Rightarrow> if args = [] \<and> co_argcount co = length d then FastCallNoKw f d
                                 else eval_general f args kwargs
                    | None \<Rightarrow> eval_general f args kwargs)
         else eval_general f args kwargs))"

section \<open>Built-in functions and other objects\<close>

definition METH_KEYWORDS :: "32 word" where "METH_KEYWORDS = 0x2"
definition METH_O :: "32 word" where "METH_O = 0x8"
definition METH_FASTCALL :: "32 word" where "METH_FASTCALL = 0x80"

text \<open>\<open>METH_CLASS | METH_STATIC | METH_COEXIST | METH_KEYWORDS | METH_STACKLESS\<close>\<close>

definition meth_modifiers :: "32 word" where
  "meth_modifiers = 0x10 OR 0x20 OR 0x40 OR METH_KEYWORDS OR 0x100"

definition PyFastCFunction_Check :: "'o c_function \<Rightarrow> bool" where
  "PyFastCFunction_Check f \<longleftrightarrow> cf_flags f AND NOT meth_modifiers = METH_FASTCALL"

definition PyCFunction_FastCall :: "bool \<Rightarrow> 'o c_function \<Rightarrow> 'o list \<Rightarrow> 'o c_call" where
  "PyCFunction_FastCall before_3_7 f args st =
     (if before_3_7 \<or> cf_flags f AND METH_KEYWORDS \<noteq> 0 then cf_fast_keywords f args st else cf_fast f args st)"

text \<open>A null pointer without a pending exception is reported as an error of the called function; when the
  recursion is too deep an exception is pending, so that the test changes nothing.\<close>

definition check_result :: "'o option \<times> py_thread \<Rightarrow> 'o option \<times> py_thread" where
  "check_result rs =
     (if fst rs = None \<and> pending (snd rs) = None
      then (None, (snd rs)\<lparr>pending := Some (SystemError ''NULL result without error in PyObject_Call'')\<rparr>)
      else rs)"

definition guarded_call :: "nat \<Rightarrow> 'o c_call \<Rightarrow> 'o c_call" where
  "guarded_call limit call st = check_result (recursive_call limit call st)"

definition PyObject_Call :: "nat \<Rightarrow> 'o callable \<Rightarrow> 'o list \<Rightarrow> (string \<times> 'o) list option \<Rightarrow> 'o c_call" where
  "PyObject_Call limit func args kw st =
     (case tp_call func of
        None \<Rightarrow> lib_call func args kw st
      | Some call \<Rightarrow> guarded_call limit (call args kw) st)"

definition PyObject_CallMethO :: "nat \<Rightarrow> 'o c_function \<Rightarrow> 'o \<Rightarrow> 'o c_call" where
  "PyObject_CallMethO limit f arg = guarded_call limit (cf_one f arg)"

definition call_tuple :: "nat \<Rightarrow> bool \<Rightarrow> 'o callable \<Rightarrow> 'o list \<Rightarrow> 'o c_call" where
  "call_tuple limit tuple_new func args st =
     (if tuple_new then PyObject_Call limit func args None st else no_memory st)"

definition PyObject_CallOneArg :: "nat \<Rightarrow> bool \<Rightarrow> bool \<Rightarrow> 'o callable \<Rightarrow> 'o \<Rightarrow> 'o c_call" where
  "PyObject_CallOneArg limit before_3_7 tuple_new func arg =
     (case as_function func of
        Some f \<Rightarrow> FastCallDict limit f [arg] None
      | None \<Rightarrow>
     (case as_cfunction func of
        Some c \<Rightarrow>
          if cf_flags c AND METH_O \<noteq> 0 then PyObject_CallMethO limit c arg
          else if cf_flags c AND METH_FASTCALL \<noteq> 0 then PyCFunction_FastCall before_3_7 c [arg]
          else call_tuple limit tuple_new func [arg]
      | None \<Rightarrow> call_tuple limit tuple_new func [arg]))"

definition PyObject_Call2Args :: "nat \<Rightarrow> bool \<Rightarrow> bool \<Rightarrow> 'o callable \<Rightarrow> 'o \<Rightarrow> 'o \<Rightarrow> 'o c_call" where
  "PyObject_Call2Args limit before_3_7 tuple_new func arg1 arg2 =
     (case as_function func of
        Some f \<Rightarrow> FastCallDict limit f [arg1, arg2] None
      | None \<Rightarrow>
     (case as_cfunction func of
        Some c \<Rightarrow>
          if PyFastCFunction_Check c then PyCFunction_FastCall before_3_7 c [arg1, arg2]
          else call_tuple limit tuple_new func [arg1, arg2]
      | None \<Rightarrow> call_tuple limit tuple_new func [arg1, arg2]))"

section \<open>Properties\<close>

text \<open>
  The conventions of the interpreter's functions: the depth after a call is that before it, and a null
  pointer is returned with an exception.  A function that only observes the first is \<open>balanced\<close>.
\<close>

definition balanced :: "'o c_call \<Rightarrow> bool" where
  "balanced call \<longleftrightarrow> (\<forall>st. recursion_depth (snd (call st)) = recursion_depth st)"

definition reports :: "'o c_call \<Rightarrow> bool" where
  "reports call \<longleftrightarrow> (\<forall>st. fst (call st) = None \<longrightarrow> pending (snd (call st)) \<noteq> None)"

abbreviation conforms :: "'o c_call \<Rightarrow> bool" where
  "conforms call \<equiv> balanced call \<and> reports call"

named_theorems call_defs \<open>recursion guard and conventions\<close>
declare EnterRecursiveCall_def [call_defs] LeaveRecursiveCall_def [call_defs] balanced_def [call_defs]
  reports_def [call_defs] check_result_def [call_defs]

lemma no_memory_conforms: "conforms no_memory"
  by (simp add: call_defs no_memory_def)

lemma recursive_call_balanced: "balanced body \<Longrightarrow> balanced (recursive_call limit body)"
  by (simp add: call_defs recursive_call_def case_prod_beta)

lemma recursive_call_reports: "reports body \<Longrightarrow> reports (recursive_call limit body)"
  by (simp add: call_defs recursive_call_def case_prod_beta)

lemma guarded_call_conforms: "balanced call \<Longrightarrow> conforms (guarded_call limit call)"
  using recursive_call_balanced [of call limit] by (auto simp: call_defs guarded_call_def)

lemma FastCallNoKw_conforms: "conforms (eval_frame f args) \<Longrightarrow> conforms (FastCallNoKw f args)"
  using no_memory_conforms by (auto simp: balanced_def reports_def FastCallNoKw_def case_prod_beta)

text \<open>What the functions of the interpreter observe for a callable object.\<close>

definition function_conforms :: "'o py_function \<Rightarrow> bool" where
  "function_conforms f \<longleftrightarrow> (\<forall>args. conforms (eval_frame f args)) \<and> (\<forall>args kw d. conforms (eval_code f args kw d))"

definition cfunction_conforms :: "'o c_function \<Rightarrow> bool" where
  "cfunction_conforms c \<longleftrightarrow> (\<forall>arg. balanced (cf_one c arg))
     \<and> (\<forall>args. conforms (cf_fast c args) \<and> conforms (cf_fast_keywords c args))"

definition callable_conforms :: "'o callable \<Rightarrow> bool" where
  "callable_conforms func \<longleftrightarrow> pred_option function_conforms (as_function func)
     \<and> pred_option cfunction_conforms (as_cfunction func)
     \<and> pred_option (\<lambda>call. \<forall>args kw. balanced (call args kw)) (tp_call func)
     \<and> (\<forall>args kw. conforms (lib_call func args kw))"

lemma eval_general_conforms: "function_conforms f \<Longrightarrow> conforms (eval_general f args kwargs)"
  using no_memory_conforms
  by (cases kwargs) (auto simp: function_conforms_def eval_general_def balanced_def reports_def)

lemma FastCallDict_conforms:
  assumes "function_conforms f"
  shows "conforms (FastCallDict limit f args kwargs)"
proof -
  have "conforms (FastCallNoKw f xs)" for xs
    using assms by (intro FastCallNoKw_conforms) (simp add: function_conforms_def)
  with eval_general_conforms [OF assms] show ?thesis
    unfolding FastCallDict_def Let_def
    by (auto split: option.split intro!: recursive_call_balanced recursive_call_reports)
qed

lemma PyObject_Call_conforms: "callable_conforms func \<Longrightarrow> conforms (PyObject_Call limit func args kw)"
  using guarded_call_conforms
  by (cases "tp_call func") (force simp: callable_conforms_def PyObject_Call_def balanced_def reports_def)+

lemma call_tuple_conforms: "callable_conforms func \<Longrightarrow> conforms (call_tuple limit tuple_new func args)"
  using PyObject_Call_conforms [of func limit args None] no_memory_conforms
  by (auto simp: call_tuple_def balanced_def reports_def)

lemma PyCFunction_FastCall_conforms: "cfunction_conforms c \<Longrightarrow> conforms (PyCFunction_FastCall before_3_7 c args)"
  by (auto simp: cfunction_conforms_def PyCFunction_FastCall_def balanced_def reports_def)

lemma PyObject_CallMethO_conforms: "cfunction_conforms c \<Longrightarrow> conforms (PyObject_CallMethO limit c arg)"
  unfolding PyObject_CallMethO_def by (rule guarded_call_conforms) (simp add: cfunction_conforms_def)

lemmas call_conforms = FastCallDict_conforms PyCFunction_FastCall_conforms PyObject_CallMethO_conforms
  call_tuple_conforms PyObject_Call_conforms

lemma callable_parts:
  assumes "callable_conforms func"
  shows "as_function func = Some f \<Longrightarrow> function_conforms f" "as_cfunction func = Some c \<Longrightarrow> cfunction_conforms c"
  using assms by (simp_all add: callable_conforms_def)

text \<open>
  The calls of the module keep the interpreter's conventions as far as the called objects do: with one argument,
  with two or with a tuple and keywords, the depth of recursion afterwards is that before, and a null pointer
  comes with a pending exception.  Of a slot of a type or a function of one argument only the first is assumed;
  the module adds the exception that such a function forgot to set.
\<close>

theorem calls_keep_conventions:
  assumes "callable_conforms func"
  shows "conforms (PyObject_CallOneArg limit before_3_7 tuple_new func arg)
    \<and> conforms (PyObject_Call2Args limit before_3_7 tuple_new func arg1 arg2)
    \<and> conforms (PyObject_Call limit func args kw)
    \<and> (tp_call func = Some call \<and> recursion_depth st = limit \<longrightarrow>
        fst (PyObject_Call limit func args kw st) = None
        \<and> pending (snd (PyObject_Call limit func args kw st))
          = Some (RecursionError ''maximum recursion depth exceeded while calling a Python object''))"
proof (intro conjI)
  note parts = callable_parts [OF assms] assms
  show "balanced (PyObject_CallOneArg limit before_3_7 tuple_new func arg)"
    "reports (PyObject_CallOneArg limit before_3_7 tuple_new func arg)"
    using parts by (auto simp: PyObject_CallOneArg_def call_conforms split: option.split)
  show "balanced (PyObject_Call2Args limit before_3_7 tuple_new func arg1 arg2)"
    "reports (PyObject_Call2Args limit before_3_7 tuple_new func arg1 arg2)"
    using parts by (auto simp: PyObject_Call2Args_def call_conforms split: option.split)
  show "balanced (PyObject_Call limit func args kw)" "reports (PyObject_Call limit func args kw)"
    using call_conforms assms by blast+
qed (simp add: PyObject_Call_def guarded_call_def recursive_call_def call_defs)

text \<open>A type whose slot forgets to set an exception.\<close>

definition demo_callable :: "nat callable" where
  "demo_callable = \<lparr>as_function = None, as_cfunction = None, tp_call = Some (\<lambda>args kw st. (None, st)),
     lib_call = (\<lambda>args kw. no_memory)\<rparr>"

theorem calls_keep_conventions_witness:
  "pending (snd (PyObject_CallOneArg 1000 False True demo_callable 5 \<lparr>recursion_depth = 3, pending = None\<rparr>)) \<noteq> None"
proof -
  have "callable_conforms demo_callable"
    using no_memory_conforms by (simp add: callable_conforms_def demo_callable_def balanced_def)
  then have "reports (PyObject_CallOneArg 1000 False True demo_callable 5)"
    by (rule calls_keep_conventions [THEN conjunct1, THEN conjunct2])
  moreover have "fst (PyObject_CallOneArg 1000 False True demo_callable 5 \<lparr>recursion_depth = 3, pending = None\<rparr>) = None"
    by (simp add: PyObject_CallOneArg_def demo_callable_def call_tuple_def PyObject_Call_def guarded_call_def
        recursive_call_def call_defs)
  ultimately show ?thesis by (simp add: reports_def)
qed

section \<open>The fast path\<close>

text \<open>
  What the interpreter does with a plain code object called with positional arguments only: missing
  ones at the end come from the defaults, which belong to the last parameters.
\<close>

definition evaluates_defaults :: "'o py_function \<Rightarrow> bool" where
  "evaluates_defaults f \<longleftrightarrow> (\<forall>args d st. co_kwonlyargcount (func_code f) = 0 \<longrightarrow> co_flags (func_code f) = simple_flags \<longrightarrow>
     length d \<le> co_argcount (func_code f) \<longrightarrow> length args \<le> co_argcount (func_code f) \<longrightarrow>
     co_argcount (func_code f) \<le> length args + length d \<longrightarrow>
     eval_code f args [] d st = eval_frame f (args @ drop (length args + length d - co_argcount (func_code f)) d) st)"

text \<open>
  C23: the fast paths for Python functions change nothing.  Where memory for a frame and for the keywords is
  available, \<open>FastCallDict\<close> gives the result and the thread's state that the recursion guard around the interpreter's
  evaluation with all arguments, keywords and defaults gives, also when it sets up a frame of its own, with the
  arguments or with the defaults in place of missing arguments.
\<close>

theorem fast_call_general:
  assumes "evaluates_defaults f" "frame_new f" "kwtuple_new f"
  shows "FastCallDict limit f args kwargs st = recursive_call limit
    (eval_code f args (case kwargs of Some kw \<Rightarrow> kw | None \<Rightarrow> []) (case func_defaults f of Some d \<Rightarrow> d | None \<Rightarrow> [])) st"
proof -
  have gen: "eval_general f args kwargs
      = eval_code f args (case kwargs of Some kw \<Rightarrow> kw | None \<Rightarrow> []) (case func_defaults f of Some d \<Rightarrow> d | None \<Rightarrow> [])"
    using assms(3) by (auto simp: eval_general_def fun_eq_iff split: option.split)
  have "FastCallNoKw f xs = eval_frame f xs" for xs
    using assms(2) by (simp add: FastCallNoKw_def case_prod_beta fun_eq_iff)
  moreover have "eval_general f args kwargs = eval_frame f args"
    if "co_kwonlyargcount (func_code f) = 0" "kwargs = None \<or> kwargs = Some []" "co_flags (func_code f) = simple_flags"
      "func_defaults f = None" "co_argcount (func_code f) = length args"
    using assms that by (auto simp: eval_general_def evaluates_defaults_def fun_eq_iff)
  moreover have "eval_general f [] kwargs = eval_frame f d"
    if "co_kwonlyargcount (func_code f) = 0" "kwargs = None \<or> kwargs = Some []" "co_flags (func_code f) = simple_flags"
      "func_defaults f = Some d" "co_argcount (func_code f) = length d" for d
    using assms that by (auto simp: eval_general_def evaluates_defaults_def fun_eq_iff)
  ultimately have "FastCallDict limit f args kwargs st = recursive_call limit (eval_general f args kwargs) st"
    unfolding FastCallDict_def Let_def by (auto split: option.split)
  then show ?thesis unfolding gen .
qed

text \<open>A function of two parameters with defaults that returns the sum of its local variables.\<close>

definition demo_function :: "nat py_function" where
  "demo_function = \<lparr>func_code = \<lparr>co_argcount = 2, co_kwonlyargcount = 0, co_flags = simple_flags\<rparr>,
     func_defaults = Some [3, 4], frame_new = True, kwtuple_new = True,
     eval_frame = (\<lambda>xs st. (Some (sum_list xs), st)),
     eval_code = (\<lambda>xs kw d st. (Some (sum_list (xs @ drop (length xs + length d - 2) d)), st))\<rparr>"

theorem fast_call_general_witness:
  "FastCallDict 1000 demo_function [] None \<lparr>recursion_depth = 3, pending = None\<rparr>
     = (Some 7, \<lparr>recursion_depth = 3, pending = None\<rparr>)"
  using fast_call_general [of demo_function 1000 "[]" None "\<lparr>recursion_depth = 3, pending = None\<rparr>"]
  by (simp add: demo_function_def evaluates_defaults_def recursive_call_def eval_general_def call_defs)

end
