(* ===== verification/Simd_Convert.thy ===== *)
theory Simd_Convert
  imports Cxx_Lib
begin

text \<open>
  \<open>cjunk/trivialJson/fromsimd.cpp\<close>: the conversion of a parsed document to a tree of \<open>JsonNode\<close>, and its
  \<open>main\<close>.  The parser and its nodes are not in the repository: a node is given by its kind and contents, and
  \<open>main\<close> takes the parser as an argument.  The file assigns unsigned numbers, strings and truth values to a
  variant of maps, lists, \<open>double\<close> and \<open>long\<close>; what these three assignments store is an argument of the
  conversion, and every property holds whatever it is.
\<close>

section \<open>Nodes\<close>

datatype 'd simd_node =
    Number_integer int
  | Number_unsigned int
  | Number_float 'd
  | String_node string
  | Boolean_node bool
  | Array_node "'d simd_node list"
  | Object_node "(string \<times> 'd simd_node) list"
  | Other_node

text \<open>A default node holds the first alternative, a null pointer to a map.  \<open>'x\<close> is for the ill-typed assignments.\<close>

datatype ('d, 'x) variant_node =
    Null_map
  | Member_map "(string \<times> ('d, 'x) variant_node) list"
  | Element_list "('d, 'x) variant_node list"
  | Double 'd
  | Long_value int
  | Assigned 'x

record 'x assignments =
  assign_unsigned :: "int \<Rightarrow> 'x"
  assign_string :: "string \<Rightarrow> 'x"
  assign_bool :: "bool \<Rightarrow> 'x"

section \<open>The conversion\<close>

text \<open>\<open>std::map::insert\<close> keeps the element that is already there; a new one is placed in key order.\<close>

definition insert_member :: "(string \<times> 'n) list \<Rightarrow> string \<times> 'n \<Rightarrow> (string \<times> 'n) list" where
  "insert_member m e = (case map_of m (fst e) of None \<Rightarrow> map_assign (fst e) (snd e) m | Some _ \<Rightarrow> m)"

fun convert :: "'x assignments \<Rightarrow> 'd simd_node \<Rightarrow> ('d, 'x) variant_node" where
  "convert A (Number_integer i) = Long_value i"
| "convert A (Number_unsigned u) = Assigned (assign_unsigned A u)"
| "convert A (Number_float d) = Double d"
| "convert A (String_node s) = Assigned (assign_string A s)"
| "convert A (Boolean_node b) = Assigned (assign_bool A b)"
| "convert A (Array_node es) = Element_list (foldl (\<lambda>l e. l @ [e]) [] (map (convert A) es))"
| "convert A (Object_node ms) = Member_map (foldl insert_member [] (map (\<lambda>(k, n). (k, convert A n)) ms))"
| "convert A Other_node = Null_map"

text \<open>
  \<open>read_file\<close> opens and reads a file, \<open>parse_doc\<close> is the parser, whose error is not looked at
  (\<open>None\<close> for a document without a root), and \<open>show_storage\<close> prints the result.
\<close>

definition simd_main ::
  "(string \<Rightarrow> string option) \<Rightarrow> (string \<Rightarrow> ('r, 'd simd_node) outcome) \<Rightarrow> 'x assignments
    \<Rightarrow> (('d, 'x) variant_node \<Rightarrow> string) \<Rightarrow> string list \<Rightarrow> ('r, int \<times> string list) outcome" where
  "simd_main read_file parse_doc A show_storage argv =
     (if length argv \<noteq> 2
      then Ret (1, [''Usage: '' @ (case argv of [] \<Rightarrow> [] | a # _ \<Rightarrow> a) @ '' <json file>''])
      else let filename = argv ! 1
           in case read_file filename of
                None \<Rightarrow> Ret (1, [''Could not open file '' @ filename])
              | Some json \<Rightarrow>
                  omap (\<lambda>root. (0, [''Result: '' @ show_storage (convert A root)])) (parse_doc json))"

section \<open>Properties\<close>

text \<open>The part of a document that a path of keys and indices leads to.\<close>

datatype path_step = Key string | Index nat

fun simd_step :: "path_step \<Rightarrow> 'd simd_node \<Rightarrow> 'd simd_node option" where
  "simd_step (Key k) (Object_node ms) = map_of ms k"
| "simd_step (Index i) (Array_node es) = (if i < length es then Some (es ! i) else None)"
| "simd_step _ _ = None"

fun variant_step :: "path_step \<Rightarrow> ('d, 'x) variant_node \<Rightarrow> ('d, 'x) variant_node option" where
  "variant_step (Key k) (Member_map ms) = map_of ms k"
| "variant_step (Index i) (Element_list es) = (if i < length es then Some (es ! i) else None)"
| "variant_step _ _ = None"

fun follow :: "(path_step \<Rightarrow> 'n \<Rightarrow> 'n option) \<Rightarrow> path_step list \<Rightarrow> 'n \<Rightarrow> 'n option" where
  "follow step [] n = Some n"
| "follow step (p # ps) n = Option.bind (step p n) (follow step ps)"

lemma push_all: "foldl (\<lambda>l e. l @ [e]) l es = l @ es"
  by (induction es arbitrary: l) auto

lemma map_of_insert_member:
  "key_sorted m \<Longrightarrow>
    map_of (insert_member m e) k = (case map_of m k of None \<Rightarrow> if k = fst e then Some (snd e) else None | v \<Rightarrow> v)"
  by (auto simp: insert_member_def map_of_map_assign split: option.split)

lemma key_sorted_insert_member: "key_sorted m \<Longrightarrow> key_sorted (insert_member m e)"
  by (simp add: insert_member_def key_sorted_map_assign split: option.split)

lemma key_sorted_insert_members: "key_sorted m \<Longrightarrow> key_sorted (foldl insert_member m es)"
  by (induction es arbitrary: m) (simp_all add: key_sorted_insert_member)

lemma insert_members_first:
  "key_sorted m \<Longrightarrow> map_of (foldl insert_member m es) k = (case map_of m k of None \<Rightarrow> map_of es k | v \<Rightarrow> v)"
  by (induction es arbitrary: m) (auto simp: map_of_insert_member key_sorted_insert_member split: option.split)

lemma map_of_convert: "map_of (map (\<lambda>(k, n). (k, f n)) ms) k = map_option f (map_of ms k)"
  by (induction ms) auto

lemma convert_step: "variant_step p (convert A n) = map_option (convert A) (simd_step p n)"
  by (cases "(p, n)" rule: simd_step.cases)
    (auto simp: push_all insert_members_first map_of_convert)

text \<open>
  C28: The conversion keeps the document: along every path of keys and indices the converted document has
  the conversion of what the document has there, the first of several members with the same key, and nothing
  where the document has nothing; every converted object has its keys in order, each once.
\<close>

theorem convert_follows_paths:
  "follow variant_step ps (convert A n) = map_option (convert A) (follow simd_step ps n)
   \<and> (\<forall>ms. convert A n = Member_map ms \<longrightarrow> key_sorted ms)"
proof
  show "follow variant_step ps (convert A n) = map_option (convert A) (follow simd_step ps n)"
  proof (induction ps arbitrary: n)
    case (Cons p ps)
    then show ?case by (cases "simd_step p n") (simp_all add: convert_step)
  qed simp
  show "\<forall>ms. convert A n = Member_map ms \<longrightarrow> key_sorted ms"
    by (cases n) (auto intro: key_sorted_insert_members)
qed

definition demo_assignments :: "string assignments" where
  "demo_assignments = \<lparr>assign_unsigned = (\<lambda>_. ''u''), assign_string = (\<lambda>s. s), assign_bool = (\<lambda>_. ''b'')\<rparr>"

theorem convert_follows_paths_witness:
  "follow variant_step [Key ''a'', Index 1]
     (convert demo_assignments (Object_node [(''a'', Array_node [Number_float (1 :: nat), Number_integer 7]),
        (''a'', Other_node)])) = Some (Long_value 7)"
  unfolding convert_follows_paths [THEN conjunct1] by simp

text \<open>The program ends with status 1 unless it is given one file that it can open.\<close>

lemma simd_main_status:
  "simd_main read_file parse_doc A show_storage argv = Ret (0, out) \<longleftrightarrow>
   (\<exists>prog file txt root. argv = [prog, file] \<and> read_file file = Some txt \<and> parse_doc txt = Ret root
      \<and> out = [''Result: '' @ show_storage (convert A root)])"
  by (auto simp: simd_main_def Let_def numeral_2_eq_2 length_Suc_conv outcome_iff split: option.split)

end
