(* ===== verification/Spec2Isabelle.thy ===== *)
theory Spec2Isabelle
  imports
    Json_Main Small_Json Node_Variants Ring_Buffer Byte_Queue Circular_Queue Descriptors Chain_Promise
    Immutable_List Max_Profit Particle_Filter Perceptron_Net Ant_Colony Fft_Phase Stream_Io
    Network_Stream Gl_Resources Uart_Fifo Device_Io Async_Servers Server_Mains Motor_Control Udp_Sockets
    Image_Classifier Event_Handlers Json_Grammar Node_Store Small_Parse Decoder_Memory
    Cython_Cache Cython_Raise Cython_Types Cython_Strings Cython_Call Simd_Convert
begin

text \<open>
  A verification of the C++ programs of this repository.

  \<^bold>\<open>The programs.\<close>  The repository collects independent programs and header libraries: a JSON parser and
  serializer (\<open>middleware/src/nonworking_json.cpp\<close>), small JSON node types (\<open>cjunk/trivialJson\<close>,
  \<open>cjunk/practice/json-node2.hpp\<close>, \<open>smallString.cc\<close>), three queues (the macro ring buffer
  \<open>cjunk/ringBuffer.h\<close>, the byte queue \<open>cjunk/practice/queue.h\<close>, the semaphore queue
  \<open>circularqueue.cc\<close>), owners of system resources (\<open>sendFile.cc\<close>, \<open>raii.cc\<close>,
  \<open>egl/egl_test.cpp\<close>, the UDP sockets), network programs (\<open>websocketBase.cpp\<close>,
  \<open>beastWebsocketServer.cpp\<close>, \<open>websocket-somethingsMIssing.cpp\<close>, \<open>networkframeStream.cpp\<close>,
  \<open>parser.cpp\<close>, \<open>quicServer.cpp\<close>), device code (\<open>uartfifo.c\<close>, \<open>radio.cpp\<close>,
  \<open>dump_serial.cpp\<close>, \<open>asyncStdin.cc\<close>, \<open>asyncio.cc\<close>), numeric code (filters, perceptron, ant
  colony, spectrum views, maximum profit, image classifier), functional experiments (promises, immutable
  lists, actors) and an extension module of Python (\<open>cjunk/cython/simple.cpp\<close>).  They share no state; within a program, components meet where one calls the other, and
  there the model composes their definitions the same way.

  \<^bold>\<open>The library.\<close>
  \<^item> \<open>Prelude\<close>: the type \<open>outcome\<close> (a value, an exception, or no result), its sequencing, machine
    integers and list facts.  \<open>Machine\<close>: undefined behaviour as exception values of type \<open>ub\<close>, checked
    32-bit arithmetic, bounded arrays, \<open>memcpy\<close>, ring indices.  \<open>Cxx_Lib\<close>: what the programs use of the
    standard library.  \<open>Cumulative\<close>: cumulative sums of weights.
  \<^item> \<open>Fifo_Spec\<close>: the contracts \<open>fifo\<close> and \<open>bounded_fifo\<close> of a queue; \<open>Step_System\<close>: reachable
    states, with the contracts \<open>step_invariant\<close> and \<open>step_measure\<close> of a state machine; \<open>Raii\<close>: the
    contract of a class that owns a resource; \<open>iterator\<close> (in \<open>Immutable_List\<close>); \<open>cache_spec\<close> (in
    \<open>Cython_Cache\<close>): the laws of a table with lookup and insertion.  Every contract is interpreted on the
    definitions of the components: the two ring buffers; the actor, the connection queue, the video
    stream, the shared lists under construction, the loaded module, its failed import and its global names; the socket and the file; four iterators; the sorted array of code objects.

  \<^bold>\<open>The components\<close>, by theory:
  \<^item> \<open>Json_Value\<close>, \<open>Json_Parser\<close>, \<open>Json_Progress\<close>, \<open>Json_Serializer\<close>, \<open>Json_Main\<close>: \<open>JsonValue\<close> is a
    datatype, \<open>JsonParser\<close> a record with the text and the position, every member function a function that
    returns the new parser or the exception with the message of the source.  The recursive functions carry
    fuel, one unit per call; \<open>parse\<close> supplies \<open>3 * length + 1\<close>, since every two nested calls consume a
    character, and \<open>parse_enough_fuel\<close> shows that it is enough for every text.  Shown: the parser returns or
    throws on every input, consumes input and stays inside it, returns values whose accessors the first
    character decides, and reads back what the serializer writes.  \<open>Json_Grammar\<close>: the documents as an
    inductive grammar without fuel, positions or order of tests, with its values; \<open>parse\<close> returns a value
    exactly when the grammar gives that value to the text, and the grammar is unambiguous.
  \<^item> \<open>Small_Json\<close>, \<open>Node_Variants\<close>: the small nodes; their truncation to eight characters, what they print,
    and that both node types print the same.  \<open>Node_Store\<close>: the node of \<open>trivialJson\<close> with its lists in
    a store, since \<open>std::shared_ptr\<close> lets two nodes share a list and a list contain itself: what
    serialization writes after any sequence of creations, and the list on which it does not end.
    \<open>Small_Parse\<close>: the parser \<open>fromJsonString\<close>; the arrays it reads back and the characters it loses.
    \<open>Simd_Convert\<close>: the conversion of a parsed document (\<open>trivialJson/fromsimd.cpp\<close>), which keeps what every
    path leads to; the assignments its variant has no alternative for are arguments.
  \<^item> \<open>Ring_Buffer\<close>, \<open>Byte_Queue\<close>, \<open>Circular_Queue\<close>: the queues with their index arithmetic at its width.
    Shown: refinement of a list queue, exact sizes and statuses, and for the semaphore queue absence
    of deadlock in all interleavings of one producer with one consumer and first-in-first-out order in those that
    stay within the slots.  What the member \<open>post\<close> does, which the standard semaphore does not have, is an
    argument of its steps.  The macro ring buffer has plain members and is modelled for one thread of control.
  \<^item> \<open>Descriptors\<close>, \<open>Gl_Resources\<close>, \<open>Device_Io\<close>, \<open>Udp_Sockets\<close>: owners and devices.  System calls are
    arguments and may fail, \<open>close\<close> among them.  Shown: which owners give back what they took, and where the code leaks, closes twice or waits
    for ever.
  \<^item> \<open>Async_Servers\<close>, \<open>Server_Mains\<close>, \<open>Network_Stream\<close>, \<open>Event_Handlers\<close>: completion handlers as functions
    on the state, which the network, a scheduler or a thread pool may run in any order and with any errors.  The owners
    of sessions and sockets are part of the state, and a handler of a destroyed object, like a read into a string
    literal, is undefined.  Shown: invariants of all reachable states, the ends every execution reaches, and
    that the echo server destroys each session before its first read completes.
    \<open>Decoder_Memory\<close>: the memory of the frame decoder: its constructor writes
    through a null pointer, and its destructor would release blocks twice.
  \<^item> \<open>Uart_Fifo\<close>, \<open>Stream_Io\<close>: register polling, the upper-casing stream buffers, the container source
    and the configuration of the serial port.
  \<^item> \<open>Max_Profit\<close>, \<open>Particle_Filter\<close>, \<open>Perceptron_Net\<close>, \<open>Ant_Colony\<close>, \<open>Fft_Phase\<close>, \<open>Motor_Control\<close>,
    \<open>Image_Classifier\<close>: numeric code.  The weights of the particle filter are over any arithmetic and comparison,
    so that rounding is covered; elsewhere \<open>double\<close> is an ordered field without rounding.  Random draws and
    functions such as \<open>sqrt\<close> are arguments; integers keep their width.
  \<^item> \<open>Chain_Promise\<close>, \<open>Immutable_List\<close>: promises as trees of functions, lists and iterators.
  \<^item> \<open>Cython_Cache\<close>, \<open>Cython_Ints\<close>, \<open>Cython_Module\<close>, \<open>Cython_Init\<close>, \<open>Cython_Raise\<close>,
    \<open>Cython_Names\<close>, \<open>Cython_Class\<close>, \<open>Cython_Types\<close>, \<open>Cython_Strings\<close>, \<open>Cython_Call\<close>: the extension module, in its
    configuration for CPython 3.  What its functions and support code decide themselves is a definition: the
    bisection and insertion of the code-object cache, the digits of Python integers and the range checks on them,
    indexing, unpacking of arguments, pickling and its installation in the class, the search for base classes,
    exception matching and raising, the values kept for global names, the paths of a call with its recursion
    guard, the string table, the order of initialisation.  The interpreter is given by arguments (the results of
    its calls) and by the objects these return.  Shown: the cache is a finite map, conversions are exact or raise,
    arguments bind as the language defines, pickling gives the object back, kept values are never stale, the fast
    paths of a call give what the general one gives, the module is initialised once, and an execution that fails
    after the class was set up makes every later one fail.

  \<^bold>\<open>Conventions.\<close>  A branch of undefined behaviour is an exception value, so that a theorem that a call
  returns also excludes it.  A loop that ends only through an event from outside takes the list of these
  events; when the list ends before the loop does, the result is \<open>Diverge\<close>, which stands for a call that
  waits for ever.  Code that does not compile as it stands (several of the practice files miss a declaration) is
  modelled with the meaning its text has once the missing name is supplied; a call of a member that does not
  exist is left out and said so in the theory.

  \<^bold>\<open>Not modelled.\<close>  Of the generated \<open>cjunk/cython/simple.cpp\<close>: the preprocessor part, the macros that
  select between versions of the interpreter, branches that the types of C exclude (the conversions to unsigned
  types), and wrappers that pass their arguments to one call of it.  Benchmarks, the flatbuffers example, the Poco
  logger, the tests of missing members (filters by index, paths of the colony), the overloads of
  \<open>create_window\<close> that take the address of a temporary, and empty translation units have no logic of their own
  or no meaning to model.  Rounding of floating-point numbers outside the
  weights of the particle filter, time, and memory exhaustion other than where the
  code tests for it are outside the model.
\<close>

end
